(* ===== verification/Prelude.thy ===== *)
theory Prelude
  imports Main "HOL-Library.Word"
begin

text \<open>
  What the component theories share: the result type of the fallible Go functions, the
  collections of rewrite rules the proofs draw on, and generic facts about lists of rows
  (a table is a list of rows in insertion order, searched and updated by key).
\<close>

section \<open>Collections\<close>

named_theorems frame
  \<open>the parts of the state an operation leaves alone\<close>
named_theorems row_simps
  \<open>lookup after update on tables\<close>
named_theorems wf_intros
  \<open>preservation of well-formedness\<close>

section \<open>Bytes\<close>

text \<open>
  Go strings and byte slices are sequences of bytes. HOL's \<open>char\<close> has exactly 256 values,
  so \<open>string\<close> is the type of Go strings, and \<open>length\<close> is Go's \<open>len\<close>.
\<close>

type_synonym bytes = string

definition byte :: "char \<Rightarrow> nat" where
  "byte c = of_char c"

definition chr :: "nat \<Rightarrow> char" where
  "chr n = char_of n"

lemma byte_lt_256: "byte c < 256"
  by (simp add: byte_def)

lemma chr_byte [simp]: "chr (byte c) = c"
  by (simp add: chr_def byte_def)

lemma byte_chr: "n < 256 \<Longrightarrow> byte (chr n) = n"
  by (simp add: chr_def byte_def)

lemma chr_eq_iff: "n < 256 \<Longrightarrow> chr n = c \<longleftrightarrow> byte c = n"
  by (metis byte_chr chr_byte)

lemma byte_inject [simp]: "byte c = byte d \<longleftrightarrow> c = d"
  by (simp add: byte_def)

section \<open>Tables: lists of rows searched by key\<close>

definition find_row :: "('r \<Rightarrow> 'k) \<Rightarrow> 'k \<Rightarrow> 'r list \<Rightarrow> 'r option" where
  "find_row key k rs = find (\<lambda>r. key r = k) rs"

definition update_rows :: "('r \<Rightarrow> bool) \<Rightarrow> ('r \<Rightarrow> 'r) \<Rightarrow> 'r list \<Rightarrow> 'r list" where
  "update_rows P f rs = map (\<lambda>r. if P r then f r else r) rs"

definition count_rows :: "('r \<Rightarrow> bool) \<Rightarrow> 'r list \<Rightarrow> nat" where
  "count_rows P rs = length (filter P rs)"

lemma find_row_Nil [simp]: "find_row key k [] = None"
  by (simp add: find_row_def)

lemma find_row_Cons: "find_row key k (r # rs) = (if key r = k then Some r else find_row key k rs)"
  by (simp add: find_row_def)

lemma find_row_append:
  "find_row key k (rs @ qs) = (case find_row key k rs of Some r \<Rightarrow> Some r | None \<Rightarrow> find_row key k qs)"
  by (induction rs) (auto simp: find_row_Cons)

lemma find_row_None_iff: "find_row key k rs = None \<longleftrightarrow> k \<notin> key ` set rs"
  by (induction rs) (auto simp: find_row_Cons)

lemma find_row_SomeD: "find_row key k rs = Some r \<Longrightarrow> r \<in> set rs \<and> key r = k"
  by (induction rs) (auto simp: find_row_Cons split: if_splits)

lemma find_row_distinct:
  "distinct (map key rs) \<Longrightarrow> r \<in> set rs \<Longrightarrow> find_row key (key r) rs = Some r"
  by (induction rs) (auto simp: find_row_Cons image_iff)

lemma find_row_update [row_simps]:
  assumes "\<And>r. key (f r) = key r"
  shows "find_row key k (update_rows P f rs) = map_option (\<lambda>r. if P r then f r else r) (find_row key k rs)"
  using assms by (induction rs) (auto simp: find_row_Cons update_rows_def)

lemma map_update_rows:
  assumes "\<And>r. g (f r) = g r"
  shows "map g (update_rows P f rs) = map g rs"
  using assms by (simp add: update_rows_def)

lemma length_update_rows [simp]: "length (update_rows P f rs) = length rs"
  by (simp add: update_rows_def)

lemma set_update_rows: "set (update_rows P f rs) = (\<lambda>r. if P r then f r else r) ` set rs"
  by (simp add: update_rows_def)

lemma update_rows_none: "\<forall>r\<in>set rs. \<not> P r \<Longrightarrow> update_rows P f rs = rs"
  by (simp add: update_rows_def map_idI)

lemma update_rows_append [simp]:
  "update_rows P f (rs @ qs) = update_rows P f rs @ update_rows P f qs"
  by (simp add: update_rows_def)

lemma count_rows_key:
  assumes "distinct (map key rs)"
  shows "count_rows (\<lambda>r. key r = k \<and> P r) rs
    = (case find_row key k rs of Some r \<Rightarrow> if P r then 1 else 0 | None \<Rightarrow> 0)"
  using assms
proof (induction rs)
  case Nil
  then show ?case by (simp add: count_rows_def)
next
  case (Cons r rs)
  show ?case
  proof (cases "key r = k")
    case True
    with Cons.prems have "filter (\<lambda>r. key r = k \<and> P r) rs = []"
      by (force simp: filter_empty_conv image_iff)
    with True show ?thesis by (simp add: count_rows_def find_row_Cons)
  next
    case False
    with Cons show ?thesis by (simp add: count_rows_def find_row_Cons)
  qed
qed

end
