(* ===== verification/Go_Error.thy ===== *)
theory Go_Error
  imports Prelude
begin

text \<open>
  Go's \<open>error\<close> values as data. An error is a text, a package-level sentinel compared by
  identity (\<open>pgx.ErrNoRows\<close>, \<open>repository.ErrNotRetryable\<close>), a value of
  \<open>fmt.Errorf("prefix%w", err)\<close>, a value of \<open>errors.Join\<close>, the stack wrapper of
  \<open>github.com/pkg/errors\<close>, or the \<open>errWithAttrs\<close> of \<open>internal/taskerr\<close>. The
  attributes of the last one are \<open>slog.Attr\<close> values, which may hold errors themselves, so
  the three types are mutually recursive.
\<close>

datatype goerr =
    ErrorString string
  | Sentinel string string
  | WrapError string goerr
  | JoinError "goerr list"
  | StackError goerr string
  | AttrsError goerr "attr list"
and attr = Attr string attrval
and attrval =
    AnyStr string
  | AnyInt int
  | AnyErr goerr
  | AnyNil
  | AnyGroup "attr list"
  | AnyAttr attr

text \<open>A fallible Go function \<open>f(...) (T, error)\<close> returns a sum: the error or the value.\<close>

type_synonym 'a result = "goerr + 'a"

fun join_with :: "string \<Rightarrow> string list \<Rightarrow> string" where
  "join_with sep [] = []"
| "join_with sep [x] = x"
| "join_with sep (x # y # ys) = x @ sep @ join_with sep (y # ys)"

fun err_msg :: "goerr \<Rightarrow> string" where
  "err_msg (ErrorString m) = m"
| "err_msg (Sentinel n m) = m"
| "err_msg (WrapError p e) = p @ err_msg e"
| "err_msg (JoinError es) = join_with [CHR 0x0A] (map err_msg es)"
| "err_msg (StackError e st) = err_msg e"
| "err_msg (AttrsError e as) = err_msg e"

text \<open>
  \<open>errors.Unwrap\<close> follows \<open>Unwrap() error\<close> only, so it stops at a joined error;
  \<open>errors.Is\<close> follows both forms.
\<close>

fun err_unwrap :: "goerr \<Rightarrow> goerr option" where
  "err_unwrap (WrapError p e) = Some e"
| "err_unwrap (StackError e st) = Some e"
| "err_unwrap (AttrsError e as) = Some e"
| "err_unwrap _ = None"

fun err_is :: "goerr \<Rightarrow> goerr \<Rightarrow> bool" where
  "err_is (Sentinel n m) t = (t = Sentinel n m)"
| "err_is (WrapError p e) t = err_is e t"
| "err_is (StackError e st) t = err_is e t"
| "err_is (AttrsError e as) t = err_is e t"
| "err_is (JoinError es) t = list_ex (\<lambda>e. err_is e t) es"
| "err_is (ErrorString m) t = False"

lemma err_unwrap_size: "err_unwrap e = Some e' \<Longrightarrow> size e' < size e"
  by (cases e) auto

lemma err_is_unwrap: "err_unwrap e = Some e' \<Longrightarrow> err_is e' t \<Longrightarrow> err_is e t"
  by (cases e) auto

end
