(* ===== verification/Go_Utf8.thy ===== *)
theory Go_Utf8
  imports Prelude
begin

text \<open>
  The UTF-8 rules of Go's \<open>unicode/utf8\<close> and \<open>unicode/utf16\<close> that
  \<open>encoding/json\<close> uses when it reads and writes strings: the length of the encoding at the
  head of a byte string, the encoding of a code point, and the replacement of invalid bytes
  by U+FFFD.
\<close>

definition cont_byte :: "char \<Rightarrow> bool" where
  "cont_byte c \<longleftrightarrow> 0x80 \<le> byte c \<and> byte c \<le> 0xBF"

text \<open>The accepted range of the second byte depends on the first one.\<close>

definition second_ok :: "nat \<Rightarrow> char \<Rightarrow> bool" where
  "second_ok x c \<longleftrightarrow>
    (if x = 0xE0 then 0xA0 \<le> byte c \<and> byte c \<le> 0xBF
     else if x = 0xED then 0x80 \<le> byte c \<and> byte c \<le> 0x9F
     else if x = 0xF0 then 0x90 \<le> byte c \<and> byte c \<le> 0xBF
     else if x = 0xF4 then 0x80 \<le> byte c \<and> byte c \<le> 0x8F
     else cont_byte c)"

text \<open>
  The number of bytes of the valid encoding a string starts with, and 0 where
  \<open>utf8.DecodeRune\<close> returns \<open>RuneError\<close>.
\<close>

fun utf8_len :: "bytes \<Rightarrow> nat" where
  "utf8_len [] = 0"
| "utf8_len (a # r) =
    (let x = byte a in
     if x < 0x80 then 1
     else if 0xC2 \<le> x \<and> x \<le> 0xDF then
       (case r of b # _ \<Rightarrow> (if cont_byte b then 2 else 0) | _ \<Rightarrow> 0)
     else if 0xE0 \<le> x \<and> x \<le> 0xEF then
       (case r of b # c # _ \<Rightarrow> (if second_ok x b \<and> cont_byte c then 3 else 0) | _ \<Rightarrow> 0)
     else if 0xF0 \<le> x \<and> x \<le> 0xF4 then
       (case r of b # c # d # _ \<Rightarrow>
           (if second_ok x b \<and> cont_byte c \<and> cont_byte d then 4 else 0) | _ \<Rightarrow> 0)
     else 0)"

lemma utf8_len_le: "utf8_len s \<le> length s"
  by (cases s) (auto simp: Let_def split: list.splits)

lemma utf8_len_le4: "utf8_len s \<le> 4"
  by (cases s) (auto simp: Let_def split: list.splits)

lemma utf8_len_ascii [simp]: "byte a < 0x80 \<Longrightarrow> utf8_len (a # r) = 1"
  by simp

text \<open>A longer string starts with the same encoding.\<close>

lemma utf8_len_append: "0 < utf8_len s \<Longrightarrow> utf8_len (s @ t) = utf8_len s"
  by (cases s) (auto simp: Let_def split: list.splits if_splits)

declare utf8_len.simps(2) [simp del]

definition rune_error :: bytes where
  "rune_error = [CHR 0xEF, CHR 0xBF, CHR 0xBD]"

function utf8_sanitize :: "bytes \<Rightarrow> bytes" where
  "utf8_sanitize s =
    (if s = [] then []
     else if utf8_len s = 0 then rune_error @ utf8_sanitize (tl s)
     else take (utf8_len s) s @ utf8_sanitize (drop (utf8_len s) s))"
  by pat_completeness auto
termination
  by (relation "measure length") auto

declare utf8_sanitize.simps [simp del]

lemma utf8_sanitize_Nil [simp]: "utf8_sanitize [] = []"
  by (simp add: utf8_sanitize.simps)

lemma utf8_sanitize_ascii [simp]:
  "byte a < 0x80 \<Longrightarrow> utf8_sanitize (a # r) = a # utf8_sanitize r"
  by (subst utf8_sanitize.simps) simp

definition utf8_valid :: "bytes \<Rightarrow> bool" where
  "utf8_valid s \<longleftrightarrow> utf8_sanitize s = s"

lemma utf8_sanitize_plain: "\<forall>c\<in>set s. byte c < 0x80 \<Longrightarrow> utf8_sanitize s = s"
  by (induction s) auto

text \<open>\<open>utf8.AppendRune\<close>: surrogates and code points past U+10FFFF become U+FFFD.\<close>

definition encode_rune :: "nat \<Rightarrow> bytes" where
  "encode_rune n =
    (if n < 0x80 then [chr n]
     else if n < 0x800 then [chr (0xC0 + n div 64), chr (0x80 + n mod 64)]
     else if 0xD800 \<le> n \<and> n \<le> 0xDFFF then rune_error
     else if n < 0x10000 then
       [chr (0xE0 + n div 4096), chr (0x80 + n div 64 mod 64), chr (0x80 + n mod 64)]
     else if n \<le> 0x10FFFF then
       [chr (0xF0 + n div 262144), chr (0x80 + n div 4096 mod 64),
        chr (0x80 + n div 64 mod 64), chr (0x80 + n mod 64)]
     else rune_error)"

lemma encode_rune_ascii: "n < 0x80 \<Longrightarrow> encode_rune n = [chr n]"
  by (simp add: encode_rune_def)

text \<open>\<open>utf16.IsSurrogate\<close> and \<open>utf16.DecodeRune\<close> (\<open>None\<close> where it returns U+FFFD).\<close>

definition is_surrogate :: "nat \<Rightarrow> bool" where
  "is_surrogate n \<longleftrightarrow> 0xD800 \<le> n \<and> n < 0xE000"

definition utf16_pair :: "nat \<Rightarrow> nat \<Rightarrow> nat option" where
  "utf16_pair a b =
    (if 0xD800 \<le> a \<and> a < 0xDC00 \<and> 0xDC00 \<le> b \<and> b < 0xE000
     then Some ((a - 0xD800) * 1024 + (b - 0xDC00) + 0x10000) else None)"

end
