(* ===== verification/Go_Quote.thy ===== *)
theory Go_Quote
  imports Go_Json
begin

text \<open>
  String literals and raw messages of \<open>encoding/json\<close>: \<open>unquote\<close> gives the bytes a literal
  stands for, \<open>quote\<close> the literal the encoder writes for a Go string, and \<open>compact\<close> what
  \<open>json.Marshal\<close> writes for a \<open>json.RawMessage\<close>. Main results: \<open>unquote (quote s)\<close> is \<open>s\<close>
  with invalid UTF-8 replaced, compaction does not change the value of any literal, and it is
  idempotent.
\<close>

section \<open>String values\<close>

text \<open>\<open>encoding/json\<close>'s \<open>unquote\<close>: the bytes of a literal, invalid UTF-8 replaced.\<close>

definition hex4 :: "string \<Rightarrow> nat" where
  "hex4 s = foldl (\<lambda>n c. 16 * n + hex_val c) 0 (take 4 s)"

definition esc_char :: "char \<Rightarrow> char" where
  "esc_char e =
    (if e = CHR ''b'' then CHR 0x08 else if e = CHR ''f'' then CHR 0x0C
     else if e = CHR ''n'' then CHR 0x0A else if e = CHR ''r'' then CHR 0x0D
     else if e = CHR ''t'' then CHR 0x09 else e)"

text \<open>The output for the unit a literal starts with, and the number of bytes it takes.\<close>

fun unquote_unit :: "string \<Rightarrow> bytes \<times> nat" where
  "unquote_unit [] = ([], 1)"
| "unquote_unit (c # cs) =
    (if c = BSLASH then
       (if take 1 cs = ''u'' then
          (let u = hex4 (tl cs) in
           if is_surrogate u then
             (let t = drop 5 cs in
              case (if take 2 t = BSLASH # ''u'' then utf16_pair u (hex4 (drop 2 t)) else None) of
                Some v \<Rightarrow> (encode_rune v, 12)
              | None \<Rightarrow> (rune_error, 6))
           else (encode_rune u, 6))
        else (map esc_char (take 1 cs), 2))
     else if byte c < 0x80 then ([c], 1)
     else
       (let n = utf8_len (c # cs) in
        if n = 0 then (rune_error, 1) else (take n (c # cs), n)))"

lemma unquote_unit_pos: "0 < snd (unquote_unit s)"
  by (cases s) (auto simp: Let_def split: option.splits)

function unquote :: "string \<Rightarrow> bytes" where
  "unquote s = (if s = [] then []
    else fst (unquote_unit s) @ unquote (drop (snd (unquote_unit s)) s))"
  by pat_completeness auto
termination
  by (relation "measure length") (auto simp: unquote_unit_pos)

text \<open>The encoder's \<open>appendString\<close> with HTML escaping.\<close>

definition hex_char :: "nat \<Rightarrow> char" where
  "hex_char n = (if n < 10 then chr (48 + n) else chr (87 + n))"

definition u00 :: "char \<Rightarrow> string" where
  "u00 c = BSLASH # ''u00'' @ [hex_char (byte c div 16), hex_char (byte c mod 16)]"

definition is_html :: "char \<Rightarrow> bool" where
  "is_html c \<longleftrightarrow> c = CHR ''<'' \<or> c = CHR ''>'' \<or> c = CHR ''&''"

definition line_sep :: "string \<Rightarrow> bool" where
  "line_sep s \<longleftrightarrow> take 3 s = [CHR 0xE2, CHR 0x80, CHR 0xA8] \<or> take 3 s = [CHR 0xE2, CHR 0x80, CHR 0xA9]"

definition u202 :: "string \<Rightarrow> string" where
  "u202 s = BSLASH # ''u202'' @ [hex_char (byte (s ! 2) mod 16)]"

definition ascii_quote :: "char \<Rightarrow> string" where
  "ascii_quote c =
    (if c = DQUOTE \<or> c = BSLASH then [BSLASH, c]
     else if c = CHR 0x08 then BSLASH # ''b''
     else if c = CHR 0x0C then BSLASH # ''f''
     else if c = CHR 0x0A then BSLASH # ''n''
     else if c = CHR 0x0D then BSLASH # ''r''
     else if c = CHR 0x09 then BSLASH # ''t''
     else if byte c < 0x20 \<or> is_html c then u00 c
     else [c])"

fun quote_unit :: "bytes \<Rightarrow> string \<times> nat" where
  "quote_unit [] = ([], 1)"
| "quote_unit (c # cs) =
    (if byte c < 0x80 then (ascii_quote c, 1)
     else
       (let n = utf8_len (c # cs) in
        if n = 0 then (BSLASH # ''ufffd'', 1)
        else if line_sep (c # cs) then (u202 (c # cs), 3)
        else (take n (c # cs), n)))"

lemma quote_unit_pos: "0 < snd (quote_unit s)"
  by (cases s) (auto simp: Let_def)

function quote :: "bytes \<Rightarrow> string" where
  "quote s = (if s = [] then []
    else fst (quote_unit s) @ quote (drop (snd (quote_unit s)) s))"
  by pat_completeness auto
termination
  by (relation "measure length") (auto simp: quote_unit_pos)

declare unquote.simps [simp del] quote.simps [simp del]


section \<open>Reading back a written string\<close>

lemma unquote_Nil [simp]: "unquote [] = []"
  by (simp add: unquote.simps)

lemma quote_Nil [simp]: "quote [] = []"
  by (simp add: quote.simps)

lemma unquote_step:
  "s \<noteq> [] \<Longrightarrow> unquote_unit s = (out, n) \<Longrightarrow> unquote s = out @ unquote (drop n s)"
  by (subst unquote.simps) simp

lemma quote_step:
  "s \<noteq> [] \<Longrightarrow> quote_unit s = (out, n) \<Longrightarrow> quote s = out @ quote (drop n s)"
  by (subst quote.simps) simp

lemma hex_val_char: "n < 16 \<Longrightarrow> hex_val (hex_char n) = n"
  by (auto simp: hex_val_def hex_char_def is_digit_def byte_chr)

lemma is_hex_char: "n < 16 \<Longrightarrow> is_hex (hex_char n)"
  by (auto simp: is_hex_def hex_char_def is_digit_def byte_chr)

lemma unquote_u00: "byte c < 0x80 \<Longrightarrow> unquote (u00 c @ t) = c # unquote t"
proof -
  assume c: "byte c < 0x80"
  have "hex4 (tl (tl (u00 c @ t))) = byte c"
    using c by (simp add: hex4_def u00_def hex_val_char)
      (simp add: hex_val_def is_digit_def byte_def)
  then show ?thesis
    using c by (subst unquote_step [where out = "[c]" and n = 6])
      (simp_all add: u00_def is_surrogate_def encode_rune_ascii)
qed

lemma unquote_esc: "e \<noteq> CHR ''u'' \<Longrightarrow> unquote (BSLASH # e # t) = esc_char e # unquote t"
  by (subst unquote_step [where out = "[esc_char e]" and n = 2]) simp_all

lemma unquote_plain: "byte c < 0x80 \<Longrightarrow> c \<noteq> BSLASH \<Longrightarrow> unquote (c # t) = c # unquote t"
  by (subst unquote_step [where out = "[c]" and n = 1]) simp_all

lemma unquote_ascii: "byte c < 0x80 \<Longrightarrow> unquote (ascii_quote c @ t) = c # unquote t"
  by (simp add: ascii_quote_def unquote_esc unquote_plain unquote_u00 esc_char_def)

lemma unquote_fffd: "unquote (BSLASH # ''ufffd'' @ t) = rune_error @ unquote t"
  by (subst unquote_step [where out = rune_error and n = 6])
    (simp_all add: hex4_def hex_val_def is_digit_def byte_def is_surrogate_def
      encode_rune_def rune_error_def chr_eq_iff)

lemma utf8_len_take:
  assumes "0 < utf8_len s"
  shows "utf8_len (take (utf8_len s) s) = utf8_len s"
  using assms by (cases s) (auto simp: utf8_len.simps Let_def split: list.splits if_splits)

lemma unquote_multi:
  assumes n: "utf8_len (c # cs) = n" "0 < n" and c: "\<not> byte c < 0x80"
  shows "unquote (take n (c # cs) @ t) = take n (c # cs) @ unquote t"
proof -
  define u where "u = take n (c # cs)"
  have u: "utf8_len u = n" and len: "length u = n"
    using utf8_len_take [of "c # cs"] utf8_len_le [of "c # cs"] n
    by (simp_all add: u_def)
  then have "utf8_len (u @ t) = n"
    using utf8_len_append [of u t] n by simp
  moreover obtain us where us: "u = c # us" using n by (cases n) (simp_all add: u_def)
  moreover have "c \<noteq> BSLASH" using c by (auto simp: byte_def)
  moreover have "take n (u @ t) = u" using len by simp
  ultimately have "unquote_unit (u @ t) = (u, n)"
    using c n by (simp add: Let_def)
  then have "unquote (u @ t) = u @ unquote (drop n (u @ t))"
    using us by (intro unquote_step) auto
  then show ?thesis using len by (simp add: u_def [symmetric])
qed

lemma hex_char_89: "hex_char 8 = CHR ''8''" "hex_char 9 = CHR ''9''"
  by (simp_all add: hex_char_def chr_eq_iff byte_def)

lemma u202_eq:
  assumes "line_sep s"
  shows "u202 s = BSLASH # ''u2028'' \<and> take 3 s = [CHR 0xE2, CHR 0x80, CHR 0xA8]
    \<or> u202 s = BSLASH # ''u2029'' \<and> take 3 s = [CHR 0xE2, CHR 0x80, CHR 0xA9]"
proof -
  have "s ! 2 = take 3 s ! 2" by simp
  then show ?thesis
    using assms by (auto simp: line_sep_def u202_def byte_def hex_char_89 simp del: nth_take)
qed

lemma unquote_u202:
  assumes "line_sep s"
  shows "unquote (u202 s @ t) = take 3 s @ unquote t"
proof -
  have "unquote (BSLASH # ''u2028'' @ t) = [CHR 0xE2, CHR 0x80, CHR 0xA8] @ unquote t"
    by (subst unquote_step [where out = "[CHR 0xE2, CHR 0x80, CHR 0xA8]" and n = 6])
      (simp_all add: hex4_def hex_val_def is_digit_def byte_def is_surrogate_def
        encode_rune_def chr_eq_iff)
  moreover have "unquote (BSLASH # ''u2029'' @ t) = [CHR 0xE2, CHR 0x80, CHR 0xA9] @ unquote t"
    by (subst unquote_step [where out = "[CHR 0xE2, CHR 0x80, CHR 0xA9]" and n = 6])
      (simp_all add: hex4_def hex_val_def is_digit_def byte_def is_surrogate_def
        encode_rune_def chr_eq_iff)
  ultimately show ?thesis
    using u202_eq [OF assms] by auto
qed

theorem unquote_quote: "unquote (quote s) = utf8_sanitize s"
proof (induction s rule: quote.induct)
  case (1 s)
  show ?case
  proof (cases s)
    case Nil
    then show ?thesis by simp
  next
    case (Cons c cs)
    obtain out n where u: "quote_unit s = (out, n)" by fastforce
    then have n: "0 < n" using quote_unit_pos [of s] by simp
    have q: "quote s = out @ quote (drop n s)" using quote_step u Cons by simp
    have IH: "unquote (quote (drop n s)) = utf8_sanitize (drop n s)"
      using "1.IH" Cons u by simp
    show ?thesis
    proof (cases "byte c < 0x80")
      case True
      then have "out = ascii_quote c" "n = 1" using u Cons by auto
      with True IH q Cons show ?thesis by (simp add: unquote_ascii)
    next
      case False
      show ?thesis
      proof (cases "utf8_len s = 0")
        case True
        with False u Cons have "out = BSLASH # ''ufffd''" "n = 1"
          by (auto simp: Let_def)
        with True IH q Cons show ?thesis
          using unquote_fffd utf8_sanitize.simps [of s] by simp
      next
        case valid: False
        then have san: "utf8_sanitize s = take (utf8_len s) s @ utf8_sanitize (drop (utf8_len s) s)"
          using Cons by (subst utf8_sanitize.simps) simp
        show ?thesis
        proof (cases "line_sep s")
          case True
          with False valid u Cons have "out = u202 s" "n = 3"
            by (auto simp: Let_def)
          moreover have "utf8_len s = 3"
            using True Cons by (auto simp: utf8_len.simps line_sep_def second_ok_def cont_byte_def byte_def
                take_Cons' split: if_splits list.splits)
          ultimately show ?thesis using IH q san unquote_u202 [OF True] by simp
        next
          case no_sep: False
          with False valid u Cons have "out = take (utf8_len s) s" "n = utf8_len s"
            by (auto simp: Let_def)
          then show ?thesis
            using IH q san unquote_multi [of c cs "utf8_len s"] valid False Cons
            by simp
        qed
      qed
    qed
  qed
qed

section \<open>What is written is legal\<close>

definition raw_plain :: "char \<Rightarrow> bool" where
  "raw_plain c \<longleftrightarrow> c \<noteq> DQUOTE \<and> c \<noteq> BSLASH \<and> 0x20 \<le> byte c"

lemma raw_ok_plain [simp]: "raw_plain c \<Longrightarrow> raw_ok (c # t) = raw_ok t"
  by (subst raw_ok.simps) (simp add: raw_plain_def)

lemma raw_ok_plains: "\<forall>c\<in>set u. raw_plain c \<Longrightarrow> raw_ok (u @ t) = raw_ok t"
  by (induction u) auto

lemma raw_ok_esc: "simple_escape e \<Longrightarrow> raw_ok (BSLASH # e # t) = raw_ok t"
  by (subst raw_ok.simps) (simp add: byte_def)

lemma raw_ok_uni:
  "is_hex w \<Longrightarrow> is_hex x \<Longrightarrow> is_hex y \<Longrightarrow> is_hex z \<Longrightarrow>
    raw_ok (BSLASH # CHR ''u'' # w # x # y # z # t) = raw_ok t"
  by (subst raw_ok.simps) (simp add: simple_escape_def byte_def)

lemma is_hex_lits: "is_hex (CHR ''0'')" "is_hex (CHR ''2'')" "is_hex (CHR ''8'')"
  "is_hex (CHR ''9'')" "is_hex (CHR ''f'')" "is_hex (CHR ''d'')"
  by (simp_all add: is_hex_def is_digit_def byte_def)

lemma raw_ok_u00: "byte c < 0x80 \<Longrightarrow> raw_ok (u00 c @ t) = raw_ok t"
  by (simp add: u00_def raw_ok_uni is_hex_char is_hex_lits)

lemma raw_ok_u202: "line_sep s \<Longrightarrow> raw_ok (u202 s @ t) = raw_ok t"
  using u202_eq [of s] by (auto simp: raw_ok_uni is_hex_lits)

lemma raw_ok_ascii: "byte c < 0x80 \<Longrightarrow> raw_ok (ascii_quote c @ t) = raw_ok t"
  by (simp add: ascii_quote_def raw_ok_esc simple_escape_def raw_ok_u00 raw_plain_def)

lemma second_ok_cont: "second_ok x c \<Longrightarrow> cont_byte c"
  by (auto simp: second_ok_def cont_byte_def split: if_splits)

text \<open>The bytes of a longer encoding: the first opens it, the others continue it.\<close>

lemma utf8_multi_bytes:
  assumes "\<not> byte c < 0x80"
  shows "\<forall>d\<in>set (take (utf8_len (c # cs) - 1) cs). cont_byte d"
proof -
  consider "cs = []" | x where "cs = [x]" | x y where "cs = [x, y]"
    | x y z r where "cs = x # y # z # r"
    by (metis list.exhaust)
  then show ?thesis
    by cases (use assms in \<open>auto simp: utf8_len.simps(2) Let_def dest: second_ok_cont\<close>)
qed

lemma utf8_multi_plain:
  assumes "\<not> byte c < 0x80"
  shows "\<forall>d\<in>set (take (utf8_len (c # cs)) (c # cs)). raw_plain d"
  using utf8_multi_bytes [OF assms, of cs] assms
  by (auto simp: take_Cons' raw_plain_def cont_byte_def byte_def)

theorem raw_ok_quote: "raw_ok (quote s)"
proof (induction s rule: quote.induct)
  case (1 s)
  show ?case
  proof (cases s)
    case (Cons c cs)
    obtain out n where u: "quote_unit s = (out, n)" by fastforce
    then have q: "quote s = out @ quote (drop n s)" using quote_step Cons by simp
    have IH: "raw_ok (quote (drop n s))" using "1.IH" Cons u by simp
    consider "byte c < 0x80" "out = ascii_quote c"
      | "out = BSLASH # ''ufffd''" | "line_sep s" "out = u202 s"
      | "\<not> byte c < 0x80" "out = take (utf8_len s) s"
      using u Cons by (auto simp: Let_def split: if_splits)
    then have "raw_ok (out @ quote (drop n s))"
      using IH Cons utf8_multi_plain [of c cs]
      by cases (simp_all add: raw_ok_ascii raw_ok_u202 raw_ok_uni is_hex_lits raw_ok_plains)
    then show ?thesis by (simp only: q)
  qed simp
qed

section \<open>Raw messages\<close>

text \<open>
  \<open>json.Marshal\<close> compacts a \<open>json.RawMessage\<close>: white space outside strings goes, and inside
  strings the HTML characters and the two line separators are escaped.
\<close>

function raw_hesc :: "string \<Rightarrow> string" where
  "raw_hesc s =
    (if s = [] then []
     else if is_html (hd s) then u00 (hd s) @ raw_hesc (tl s)
     else if line_sep s then u202 s @ raw_hesc (drop 3 s)
     else hd s # raw_hesc (tl s))"
  by pat_completeness auto
termination
  by (relation "measure length") auto

declare raw_hesc.simps [simp del]

fun jhesc :: "json \<Rightarrow> json" where
  "jhesc (JStr r) = JStr (raw_hesc r)"
| "jhesc (JArr vs) = JArr (map jhesc vs)"
| "jhesc (JObj ms) =
    JObj (map (\<lambda>m. (raw_hesc (fst m), jprint (jhesc (snd (snd m))), jhesc (snd (snd m)))) ms)"
| "jhesc j = j"

definition compact :: "string \<Rightarrow> string option" where
  "compact s = map_option (\<lambda>j. jprint (jhesc j)) (jparse s)"

lemma raw_hesc_Nil [simp]: "raw_hesc [] = []"
  by (simp add: raw_hesc.simps)

lemma line_sep_head: "line_sep (c # cs) \<Longrightarrow> c = CHR 0xE2"
  by (auto simp: line_sep_def)

definition hesc_free :: "char \<Rightarrow> bool" where
  "hesc_free c \<longleftrightarrow> \<not> is_html c \<and> c \<noteq> CHR 0xE2"

lemma raw_hesc_free [simp]: "hesc_free c \<Longrightarrow> raw_hesc (c # t) = c # raw_hesc t"
  by (subst raw_hesc.simps) (auto simp: hesc_free_def dest: line_sep_head)

lemma raw_hesc_frees: "\<forall>c\<in>set u. hesc_free c \<Longrightarrow> raw_hesc (u @ t) = u @ raw_hesc t"
  by (induction u) auto

lemma raw_hesc_html: "is_html c \<Longrightarrow> raw_hesc (c # t) = u00 c @ raw_hesc t"
  by (subst raw_hesc.simps) simp

lemma raw_hesc_sep: "line_sep s \<Longrightarrow> raw_hesc s = u202 s @ raw_hesc (drop 3 s)"
proof -
  assume s: "line_sep s"
  then obtain c cs where "s = c # cs" by (cases s) (auto simp: line_sep_def)
  with s show ?thesis
    using line_sep_head [of c cs] by (subst raw_hesc.simps) (simp add: is_html_def)
qed

lemma raw_hesc_other:
  "\<not> is_html c \<Longrightarrow> \<not> line_sep (c # cs) \<Longrightarrow> raw_hesc (c # cs) = c # raw_hesc cs"
  by (subst raw_hesc.simps) simp

lemma hex_char_free: "n < 16 \<Longrightarrow> hesc_free (hex_char n)"
  by (auto simp: hex_char_def hesc_free_def is_html_def chr_eq_iff byte_def)

lemma hesc_free_lits: "hesc_free BSLASH" "hesc_free (CHR ''u'')" "hesc_free (CHR ''0'')"
  "hesc_free (CHR ''2'')" "hesc_free (CHR ''8'')" "hesc_free (CHR ''9'')" "hesc_free (CHR ''f'')"
  "hesc_free (CHR ''d'')"
  by (simp_all add: hesc_free_def is_html_def)

lemma raw_hesc_u00: "raw_hesc (u00 c @ t) = u00 c @ raw_hesc t"
  using byte_lt_256 [of c]
  by (simp add: u00_def hesc_free_lits hex_char_free)

lemma raw_hesc_u202: "line_sep s \<Longrightarrow> raw_hesc (u202 s @ t) = u202 s @ raw_hesc t"
  using u202_eq [of s] by (auto simp: hesc_free_lits)

text \<open>Escaping keeps the continuation bytes a text starts with.\<close>

lemma cont_prefix_hesc: "takeWhile cont_byte (raw_hesc s) = takeWhile cont_byte s"
proof (induction s rule: raw_hesc.induct)
  case (1 s)
  show ?case
  proof (cases s)
    case (Cons c cs)
    consider "is_html c" | "\<not> is_html c" "line_sep s" | "\<not> is_html c" "\<not> line_sep s" by blast
    then show ?thesis
    proof cases
      case 1
      then show ?thesis
        using Cons by (auto simp: raw_hesc_html u00_def is_html_def cont_byte_def byte_def)
    next
      case 2
      then show ?thesis
        using Cons u202_eq [of s] by (auto simp: raw_hesc_sep cont_byte_def byte_def)
    next
      case 3
      then show ?thesis using Cons "1.IH"(3) by (simp add: raw_hesc_other)
    qed
  qed simp
qed

lemma take_cont: "\<forall>c\<in>set u. cont_byte c \<Longrightarrow>
    take (length u) s = u \<longleftrightarrow> take (length u) (takeWhile cont_byte s) = u"
proof (induction u arbitrary: s)
  case (Cons c u)
  then show ?case by (cases s) auto
qed simp

lemma line_sep_cong:
  assumes "takeWhile cont_byte s = takeWhile cont_byte t"
  shows "line_sep (c # s) = line_sep (c # t)"
  using take_cont [of "[CHR 0x80, CHR 0xA8]" s] take_cont [of "[CHR 0x80, CHR 0xA8]" t]
    take_cont [of "[CHR 0x80, CHR 0xA9]" s] take_cont [of "[CHR 0x80, CHR 0xA9]" t] assms
  by (auto simp: line_sep_def cont_byte_def byte_def numeral_2_eq_2)

theorem raw_hesc_idem: "raw_hesc (raw_hesc s) = raw_hesc s"
proof (induction s rule: raw_hesc.induct)
  case (1 s)
  show ?case
  proof (cases s)
    case (Cons c cs)
    consider "is_html c" | "\<not> is_html c" "line_sep s" | "\<not> is_html c" "\<not> line_sep s" by blast
    then show ?thesis
    proof cases
      case 1
      then show ?thesis using Cons "1.IH"(1) by (simp add: raw_hesc_html raw_hesc_u00)
    next
      case 2
      then show ?thesis using Cons "1.IH"(2) by (simp add: raw_hesc_sep raw_hesc_u202)
    next
      case 3
      moreover have "\<not> line_sep (c # raw_hesc cs)"
        using 3 Cons line_sep_cong [OF cont_prefix_hesc, of c cs] by simp
      ultimately show ?thesis using Cons "1.IH"(3) by (simp add: raw_hesc_other)
    qed
  qed simp
qed

section \<open>Compaction of legal documents\<close>

lemma raw_ok_cases:
  assumes "raw_ok s"
  obtains "s = []"
    | c t where "s = c # t" "raw_plain c" "raw_ok t"
    | e t where "s = BSLASH # e # t" "simple_escape e" "raw_ok t"
    | w x y z t where "s = BSLASH # CHR ''u'' # w # x # y # z # t"
        "is_hex w" "is_hex x" "is_hex y" "is_hex z" "raw_ok t"
proof (cases s)
  case Nil
  then show thesis by (rule that(1))
next
  case (Cons c cs)
  then have lit: "lit_len s \<noteq> 0" and rest: "raw_ok (drop (lit_len s) s)"
    using assms [unfolded raw_ok.simps [of s]] by (metis list.distinct(1))+
  show thesis
  proof (cases "c = BSLASH")
    case False
    with Cons lit have "raw_plain c" and "lit_len s = 1"
      by (auto simp: raw_plain_def split: if_splits)
    with Cons rest show thesis by (intro that(2) [of c cs]) simp_all
  next
    case True
    with Cons lit obtain e es where cs: "cs = e # es"
      by (cases cs) (auto simp: byte_def)
    show thesis
    proof (cases "simple_escape e")
      case simple: True
      with True Cons cs have "lit_len s = 2" by (simp add: byte_def)
      with True Cons cs rest simple show thesis by (intro that(3) [of e es]) simp_all
    next
      case False
      with True Cons cs lit have e: "e = CHR ''u''" "4 \<le> length es" "list_all is_hex (take 4 es)"
        and len: "lit_len s = 6"
        by (auto simp: byte_def split: if_splits)
      from e(2) obtain w x y z t where es: "es = w # x # y # z # t"
        by (auto simp: numeral_eq_Suc Suc_le_length_iff)
      with e(3) have "is_hex w \<and> is_hex x \<and> is_hex y \<and> is_hex z" by simp
      with True Cons cs e es rest len show thesis by (intro that(4) [of w x y z t]) simp_all
    qed
  qed
qed

lemma hesc_free_escape: "simple_escape e \<Longrightarrow> hesc_free e"
  by (auto simp: simple_escape_def hesc_free_def is_html_def)

lemma hesc_free_hex: "is_hex c \<Longrightarrow> hesc_free c"
  by (auto simp: is_hex_def is_digit_def hesc_free_def is_html_def byte_def)

lemma raw_plain_html: "is_html c \<Longrightarrow> byte c < 0x80"
  by (auto simp: is_html_def byte_def)

lemma line_sep_split:
  assumes "line_sep s"
  obtains b t where "s = CHR 0xE2 # CHR 0x80 # b # t" "raw_plain b"
  using assms
  by (cases s; cases "tl s"; cases "tl (tl s)")
    (auto simp: line_sep_def raw_plain_def byte_def numeral_3_eq_3)

lemma raw_ok_hesc: "raw_ok s \<Longrightarrow> raw_ok (raw_hesc s)"
proof (induction s rule: length_induct)
  case (1 s)
  from \<open>raw_ok s\<close> show ?case
  proof (cases rule: raw_ok_cases)
    case (2 c t)
    consider "is_html c" | "line_sep s" | "\<not> is_html c" "\<not> line_sep s" by blast
    then show ?thesis
    proof cases
      case 1
      then show ?thesis using 2 "1.IH" by (simp add: raw_hesc_html raw_ok_u00 raw_plain_html)
    next
      case sep: 2
      then obtain b u where s: "s = CHR 0xE2 # CHR 0x80 # b # u" "raw_plain b"
        by (rule line_sep_split)
      then have "raw_ok u" using "1.prems" by (simp add: raw_plain_def byte_def)
      then show ?thesis using s sep "1.IH" by (simp add: raw_hesc_sep raw_ok_u202)
    next
      case 3
      then show ?thesis using 2 "1.IH" by (simp add: raw_hesc_other)
    qed
  next
    case (3 e t)
    then show ?thesis using "1.IH" by (simp add: hesc_free_lits hesc_free_escape raw_ok_esc)
  next
    case (4 w x y z t)
    then show ?thesis using "1.IH" by (simp add: hesc_free_lits hesc_free_hex raw_ok_uni)
  qed simp
qed

lemma jcanon_jhesc: "jwf j \<Longrightarrow> jcanon (jhesc j)"
  by (induction j rule: jhesc.induct) (auto simp: raw_ok_hesc)

lemma jdepth_jhesc [simp]: "jdepth (jhesc j) = jdepth j"
proof (induction j rule: jhesc.induct)
  case (2 vs)
  then show ?case by (induction vs) auto
next
  case (3 ms)
  then show ?case by (induction ms) auto
qed simp_all

lemma jhesc_idem [simp]: "jhesc (jhesc j) = jhesc j"
proof (induction j rule: jhesc.induct)
  case (3 ms)
  then have "\<forall>m\<in>set ms. jhesc (jhesc (snd (snd m))) = jhesc (snd (snd m))" by auto
  then show ?case by (simp add: raw_hesc_idem comp_def)
qed (simp_all add: raw_hesc_idem)

lemma jparse_compact: "jparse s = Some j \<Longrightarrow> jparse (jprint (jhesc j)) = Some (jhesc j)"
  using jparse_wf [of s j] by (simp add: jparse_jprint jcanon_jhesc)

theorem compact_idem: "compact s = Some t \<Longrightarrow> compact t = Some t"
  by (auto simp: compact_def jparse_compact)

theorem compact_total: "compact s = None \<longleftrightarrow> jparse s = None"
  by (simp add: compact_def)

section \<open>Compaction keeps the value of a literal\<close>

definition pair_of :: "nat \<Rightarrow> string \<Rightarrow> nat option" where
  "pair_of u t = (if take 2 t = BSLASH # ''u'' then utf16_pair u (hex4 (drop 2 t)) else None)"

lemma unquote_uni:
  assumes "\<not> is_surrogate (hex4 [w, x, y, z])"
  shows "unquote (BSLASH # CHR ''u'' # w # x # y # z # t) = encode_rune (hex4 [w, x, y, z]) @ unquote t"
  using assms by (subst unquote_step [where out = "encode_rune (hex4 [w, x, y, z])" and n = 6])
    (simp_all add: hex4_def Let_def)

lemma unquote_lone:
  assumes "is_surrogate (hex4 [w, x, y, z])" "pair_of (hex4 [w, x, y, z]) t = None"
  shows "unquote (BSLASH # CHR ''u'' # w # x # y # z # t) = rune_error @ unquote t"
  using assms by (subst unquote_step [where out = rune_error and n = 6])
    (simp_all add: hex4_def Let_def pair_of_def)

lemma unquote_pair:
  assumes "is_surrogate (hex4 [w, x, y, z])" "pair_of (hex4 [w, x, y, z]) t = Some v"
  shows "unquote (BSLASH # CHR ''u'' # w # x # y # z # t) = encode_rune v @ unquote (drop 6 t)"
  using assms by (subst unquote_step [where out = "encode_rune v" and n = 12])
    (simp_all add: hex4_def Let_def pair_of_def)

lemma utf16_pair_low: "b < 0xDC00 \<Longrightarrow> utf16_pair a b = None"
  by (simp add: utf16_pair_def)

lemma pair_of_u00: "byte c < 0x80 \<Longrightarrow> pair_of u (u00 c @ t) = None"
  by (auto simp: pair_of_def u00_def hex4_def hex_val_char intro!: utf16_pair_low)
    (simp add: hex_val_def is_digit_def byte_def)

lemma pair_of_u202: "line_sep s \<Longrightarrow> pair_of u (u202 s @ t) = None"
  using u202_eq [of s]
  by (auto simp: pair_of_def hex4_def hex_val_def is_digit_def byte_def intro!: utf16_pair_low)

lemma pair_of_plain: "c \<noteq> BSLASH \<Longrightarrow> pair_of u (c # t) = None"
  by (simp add: pair_of_def numeral_2_eq_2)

lemma pair_of_hesc: "raw_ok t \<Longrightarrow> pair_of u (raw_hesc t) = pair_of u t"
proof (erule raw_ok_cases)
  fix c r assume t: "t = c # r" and c: "raw_plain c"
  have none: "pair_of u t = None" using c by (simp add: t pair_of_plain raw_plain_def)
  consider "is_html c" | "line_sep t" | "\<not> is_html c" "\<not> line_sep t" by blast
  then have "pair_of u (raw_hesc t) = None"
    using c by cases
      (simp_all add: t raw_hesc_html pair_of_u00 raw_plain_html raw_hesc_sep pair_of_u202
        raw_hesc_other pair_of_plain raw_plain_def)
  with none show ?thesis by simp
next
  fix e r assume "t = BSLASH # e # r" "simple_escape e"
  then show ?thesis
    by (auto simp: hesc_free_lits hesc_free_escape pair_of_def numeral_2_eq_2 simple_escape_def)
next
  fix w x y z r assume "t = BSLASH # CHR ''u'' # w # x # y # z # r" "is_hex w" "is_hex x" "is_hex y" "is_hex z"
  then show ?thesis
    by (simp add: hesc_free_lits hesc_free_hex pair_of_def numeral_2_eq_2 hex4_def)
qed simp

lemma utf8_len_prefix: "utf8_len (c # s) = utf8_len (c # takeWhile cont_byte s)"
proof -
  consider "s = []" | x where "s = [x]" | x y where "s = [x, y]" | x y z r where "s = x # y # z # r"
    by (metis list.exhaust)
  then show ?thesis
    by cases (auto simp: utf8_len.simps(2) Let_def dest: second_ok_cont split: list.splits)
qed

lemma utf8_len_cong:
  "takeWhile cont_byte s = takeWhile cont_byte t \<Longrightarrow> utf8_len (c # s) = utf8_len (c # t)"
  using utf8_len_prefix [of c s] utf8_len_prefix [of c t] by simp

lemma cont_free: "cont_byte c \<Longrightarrow> hesc_free c"
  by (auto simp: cont_byte_def hesc_free_def is_html_def byte_def)

lemma raw_hesc_multi:
  assumes "\<not> byte c < 0x80" "\<not> line_sep (c # cs)" "0 < utf8_len (c # cs)"
  defines "n \<equiv> utf8_len (c # cs)"
  shows "raw_hesc (c # cs) = take n (c # cs) @ raw_hesc (drop n (c # cs))"
proof -
  obtain k where n: "n = Suc k" using assms(3) by (cases n) (auto simp: n_def)
  have "\<forall>d\<in>set (take k cs). hesc_free d"
    using utf8_multi_bytes [OF assms(1), of cs] cont_free n by (simp add: n_def)
  then have "raw_hesc (take k cs @ drop k cs) = take k cs @ raw_hesc (drop k cs)"
    by (rule raw_hesc_frees)
  moreover have "\<not> is_html c" using assms(1) by (auto simp: is_html_def byte_def)
  ultimately show ?thesis using assms(2) n by (simp add: raw_hesc_other)
qed

theorem unquote_hesc: "raw_ok s \<Longrightarrow> unquote (raw_hesc s) = unquote s"
proof (induction s rule: length_induct)
  case (1 s)
  then have IH: "\<And>t. length t < length s \<Longrightarrow> raw_ok t \<Longrightarrow> unquote (raw_hesc t) = unquote t" by blast
  from \<open>raw_ok s\<close> show ?case
  proof (cases rule: raw_ok_cases)
    case (2 c t)
    consider "is_html c" | "line_sep s" | "\<not> is_html c" "byte c < 0x80"
      | "\<not> byte c < 0x80" "\<not> line_sep s" by blast
    then show ?thesis
    proof cases
      case 1
      then show ?thesis
        using 2 IH by (simp add: raw_hesc_html unquote_u00 raw_plain_html unquote_plain raw_plain_def)
    next
      case sep: 2
      then obtain b u where s: "s = CHR 0xE2 # CHR 0x80 # b # u" "raw_plain b"
        by (rule line_sep_split)
      have len: "utf8_len s = 3"
        using sep s by (auto simp: utf8_len.simps(2) line_sep_def second_ok_def cont_byte_def byte_def)
      have "raw_ok u" using "1.prems" s by (simp add: raw_plain_def byte_def)
      then have "unquote (raw_hesc u) = unquote u" using IH s by simp
      moreover have "unquote s = take 3 s @ unquote u"
        using unquote_multi [of "CHR 0xE2" "CHR 0x80 # b # u" 3 u] s len by (simp add: byte_def)
      ultimately show ?thesis using sep s by (simp add: raw_hesc_sep unquote_u202)
    next
      case 3
      have "\<not> line_sep s" using 3 2 line_sep_head [of c t] by (auto simp: byte_def)
      then show ?thesis using 3 2 IH by (simp add: raw_hesc_other unquote_plain raw_plain_def)
    next
      case 4
      have noth: "\<not> is_html c" using 4(1) by (auto simp: is_html_def byte_def)
      show ?thesis
      proof (cases "utf8_len s = 0")
        case True
        have "utf8_len (c # raw_hesc t) = 0"
          using True 2 utf8_len_cong [OF cont_prefix_hesc, of c t] by simp
        then have "unquote (c # raw_hesc t) = rune_error @ unquote (raw_hesc t)"
          using 4(1) 2 by (subst unquote_step [where out = rune_error and n = 1])
            (auto simp: raw_plain_def)
        moreover have "unquote s = rune_error @ unquote t"
          using True 4(1) 2 by (subst unquote_step [where out = rune_error and n = 1])
            (auto simp: raw_plain_def)
        ultimately show ?thesis using 2 4 noth IH by (simp add: raw_hesc_other)
      next
        case False
        define n where "n = utf8_len s"
        have "raw_ok (drop n s)"
          using "1.prems" utf8_multi_plain [OF 4(1), of t] 2
            raw_ok_plains [of "take n s" "drop n s"] by (simp add: n_def)
        moreover have "length (drop n s) < length s" using False 2 by (simp add: n_def)
        ultimately have "unquote (raw_hesc (drop n s)) = unquote (drop n s)" using IH by blast
        moreover have "raw_hesc s = take n s @ raw_hesc (drop n s)"
          using raw_hesc_multi [OF 4(1), of t] 4(2) False 2 by (simp add: n_def)
        moreover have "unquote (take n s @ v) = take n s @ unquote v" for v
          using unquote_multi [of c t n v] 4(1) False 2 by (simp add: n_def)
        ultimately show ?thesis by (metis append_take_drop_id)
      qed
    qed
  next
    case (3 e t)
    then have "e \<noteq> CHR ''u''" by (auto simp: simple_escape_def)
    then show ?thesis using 3 IH by (simp add: hesc_free_lits hesc_free_escape unquote_esc)
  next
    case (4 w x y z t)
    define u where "u = hex4 [w, x, y, z]"
    have h: "raw_hesc s = BSLASH # CHR ''u'' # w # x # y # z # raw_hesc t"
      using 4 by (simp add: hesc_free_lits hesc_free_hex)
    have p: "pair_of u (raw_hesc t) = pair_of u t" using pair_of_hesc 4 by blast
    have t: "unquote (raw_hesc t) = unquote t" using IH 4 by simp
    show ?thesis
    proof (cases "is_surrogate u")
      case False
      then show ?thesis using unquote_uni [of w x y z] h 4(1) t by (simp add: u_def)
    next
      case True
      show ?thesis
      proof (cases "pair_of u t")
        case None
        then show ?thesis using unquote_lone [of w x y z] True p h 4(1) t by (simp add: u_def)
      next
        case (Some v)
        have "raw_hesc (drop 6 t) = drop 6 (raw_hesc t) \<and> raw_ok (drop 6 t)"
          using 4(6) Some
          by (cases rule: raw_ok_cases)
            (auto simp: pair_of_def numeral_2_eq_2 raw_plain_def simple_escape_def hesc_free_lits hesc_free_hex)
        then have "unquote (drop 6 (raw_hesc t)) = unquote (drop 6 t)"
          using IH [of "drop 6 t"] 4(1) by simp
        then show ?thesis using unquote_pair [of w x y z] True Some p h 4(1) by (simp add: u_def)
      qed
    qed
  qed simp
qed

section \<open>Plain texts\<close>

text \<open>Printable ASCII without the characters that are escaped stands for itself.\<close>

definition plain_char :: "char \<Rightarrow> bool" where
  "plain_char c \<longleftrightarrow> 0x20 \<le> byte c \<and> byte c < 0x80 \<and> c \<noteq> DQUOTE \<and> c \<noteq> BSLASH \<and> \<not> is_html c"

definition plain :: "string \<Rightarrow> bool" where
  "plain s \<longleftrightarrow> (\<forall>c\<in>set s. plain_char c)"

lemma plain_simps [simp]:
  "plain []" "plain (c # s) \<longleftrightarrow> plain_char c \<and> plain s" "plain (s @ t) \<longleftrightarrow> plain s \<and> plain t"
  by (auto simp: plain_def)

lemma ascii_quote_plain: "plain_char c \<Longrightarrow> ascii_quote c = [c]"
  by (auto simp: ascii_quote_def plain_char_def byte_def)

lemma quote_plain [simp]: "plain s \<Longrightarrow> quote s = s"
proof (induction s)
  case (Cons c s)
  then show ?case
    by (subst quote_step [where out = "[c]" and n = 1])
      (simp_all add: ascii_quote_plain, simp_all add: plain_char_def)
qed simp

lemma unquote_plain_text [simp]: "plain s \<Longrightarrow> unquote s = s"
  by (induction s) (auto simp: plain_char_def unquote_plain)

lemma plain_sanitize [simp]: "plain s \<Longrightarrow> utf8_sanitize s = s"
  by (rule utf8_sanitize_plain) (simp add: plain_def plain_char_def)

end
