(* ===== verification/Go_Time.thy ===== *)
theory Go_Time
  imports Go_Quote "HOL-Library.Monad_Syntax"
begin

text \<open>
  The parts of Go's \<open>time\<close> and \<open>strconv\<close> the program uses. A \<open>time.Time\<close> is an
  instant (nanoseconds since 1970 UTC) with the offset of its location in seconds; the
  calendar is the proleptic Gregorian one. \<open>parse_time\<close> is what \<open>Time.UnmarshalJSON\<close> accepts,
  \<open>time_json\<close> what \<open>Time.MarshalJSON\<close> writes, and \<open>layout_z\<close> the layout of the admin
  responses. Main results: dates convert to day numbers and back, and a time that can be
  written is read back unchanged.
\<close>

section \<open>Decimal numbers\<close>

definition digit_char :: "nat \<Rightarrow> char" where
  "digit_char n = chr (48 + n mod 10)"

definition digits_val :: "string \<Rightarrow> nat" where
  "digits_val s = foldl (\<lambda>n c. 10 * n + (byte c - 48)) 0 s"

fun pad :: "nat \<Rightarrow> nat \<Rightarrow> string" where
  "pad 0 n = []"
| "pad (Suc w) n = pad w (n div 10) @ [digit_char n]"

fun dec :: "nat \<Rightarrow> string" where
  "dec n = (if n < 10 then [digit_char n] else dec (n div 10) @ [digit_char n])"

declare dec.simps [simp del]

definition dec_int :: "int \<Rightarrow> string" where
  "dec_int i = (if i < 0 then CHR ''-'' # dec (nat (- i)) else dec (nat i))"

lemma byte_digit_char [simp]: "byte (digit_char n) = 48 + n mod 10"
  by (simp add: digit_char_def byte_chr)

lemma is_digit_char [simp]: "is_digit (digit_char n)"
  using mod_less_divisor [of 10 n] by (simp add: is_digit_def)

lemma digits_val_Nil [simp]: "digits_val [] = 0"
  by (simp add: digits_val_def)

lemma digits_val_snoc [simp]: "digits_val (s @ [c]) = 10 * digits_val s + (byte c - 48)"
  by (simp add: digits_val_def)

lemma digits_val_zeros: "digits_val (s @ replicate k (CHR ''0'')) = digits_val s * 10 ^ k"
proof (induction k)
  case (Suc k)
  have "s @ replicate (Suc k) (CHR ''0'') = (s @ replicate k (CHR ''0'')) @ [CHR ''0'']"
    by (simp add: replicate_append_same)
  then show ?case by (simp only: digits_val_snoc Suc.IH) (simp add: byte_def)
qed simp

lemma length_pad [simp]: "length (pad w n) = w"
  by (induction w arbitrary: n) auto

lemma digits_pad [simp]: "list_all is_digit (pad w n)"
  by (induction w arbitrary: n) auto

lemma digits_val_pad [simp]: "n < 10 ^ w \<Longrightarrow> digits_val (pad w n) = n"
  by (induction w arbitrary: n) auto

lemma digits_dec [simp]: "list_all is_digit (dec n)"
  by (induction n rule: dec.induct) (subst dec.simps, simp)

lemma dec_not_Nil [simp]: "dec n \<noteq> []"
  by (subst dec.simps) simp

lemma digits_val_dec [simp]: "digits_val (dec n) = n"
proof (induction n rule: dec.induct)
  case (1 n)
  then show ?case by (subst dec.simps) (auto simp: digits_val_def)
qed

lemma plain_digit: "is_digit c \<Longrightarrow> plain_char c"
  by (auto simp: is_digit_def plain_char_def is_html_def byte_def)

lemma plain_digits: "list_all is_digit s \<Longrightarrow> plain s"
  by (auto simp: list_all_iff plain_def plain_digit)

lemma plain_dec [simp]: "plain (dec n)" and plain_pad [simp]: "plain (pad w n)"
  by (simp_all add: plain_digits)

text \<open>
  \<open>strconv.ParseInt\<close> in base 10: the value, and whether it is an error. Out of range it gives
  the nearest bound, on a syntax error 0. \<open>strconv.Atoi\<close> is the same on 64 bits.
\<close>

definition int64_min :: int where "int64_min = - (2 ^ 63)"
definition int64_max :: int where "int64_max = 2 ^ 63 - 1"

definition parse_int :: "string \<Rightarrow> int \<times> bool" where
  "parse_int s =
    (let ds = strip_sign s in
     if digits1 ds then
       (let v = (if take 1 s = ''-'' then - int (digits_val ds) else int (digits_val ds)) in
        if v < int64_min then (int64_min, True)
        else if int64_max < v then (int64_max, True)
        else (v, False))
     else (0, True))"

section \<open>The calendar\<close>

text \<open>
  Days since 1970-01-01. Years are counted from March, so that the leap day is the last day
  of its year.
\<close>

definition year_start :: "int \<Rightarrow> int" where
  "year_start y = 365 * y + y div 4 - y div 100 + y div 400"

definition month_start :: "int \<Rightarrow> int" where
  "month_start k = (153 * k + 2) div 5"

definition is_leap :: "int \<Rightarrow> bool" where
  "is_leap y \<longleftrightarrow> 4 dvd y \<and> (\<not> 100 dvd y \<or> 400 dvd y)"

definition days_in :: "int \<Rightarrow> int \<Rightarrow> int" where
  "days_in y m =
    (if m = 2 then (if is_leap y then 29 else 28)
     else if m = 4 \<or> m = 6 \<or> m = 9 \<or> m = 11 then 30 else 31)"

definition days_from_civil :: "int \<Rightarrow> int \<Rightarrow> int \<Rightarrow> int" where
  "days_from_civil y m d =
    (let y' = (if m \<le> 2 then y - 1 else y);
         k = (if m \<le> 2 then m + 9 else m - 3)
     in year_start y' + month_start k + d - 1 - 719468)"

definition march_year :: "int \<Rightarrow> int" where
  "march_year z =
    (let y = (400 * z) div 146097 in
     if year_start (y + 1) \<le> z then y + 1 else if year_start y \<le> z then y else y - 1)"

definition civil_from_days :: "int \<Rightarrow> int \<times> int \<times> int" where
  "civil_from_days n =
    (let z = n + 719468;
         y = march_year z;
         r = z - year_start y;
         k = (5 * r + 2) div 153;
         d = r - month_start k + 1
     in (if k < 10 then (y, k + 3, d) else (y + 1, k - 9, d)))"

lemma div_next:
  fixes y :: int
  assumes "0 < k"
  shows "(y + 1) div k = y div k + (if k dvd y + 1 then 1 else 0)"
proof -
  define q r where "q = y div k" and "r = y mod k"
  have y: "y + 1 = k * q + (r + 1)" by (simp add: q_def r_def)
  have r: "0 \<le> r" "r < k" using assms by (simp_all add: r_def)
  show ?thesis
  proof (cases "r + 1 = k")
    case True
    then have "y + 1 = k * (q + 1)" using y by (simp add: distrib_left)
    then show ?thesis using assms by (simp add: q_def)
  next
    case False
    then have "\<not> k dvd r + 1" using r zdvd_not_zless [of "r + 1" k] by simp
    then have "\<not> k dvd y + 1" by (simp add: y dvd_add_right_iff)
    moreover have "(y + 1) div k = q" using r False by (intro int_div_pos_eq [OF y]) simp_all
    ultimately show ?thesis by (simp add: q_def)
  qed
qed

lemma year_sum:
  "365 * (y + 1) + (a + i) - (b + j) + (c + k) - (365 * y + a - b + c) = 365 + i - j + (k::int)"
  by simp

lemma year_length: "year_start (y + 1) - year_start y = (if is_leap (y + 1) then 366 else 365)"
proof -
  have h: "400 dvd y + 1 \<Longrightarrow> 100 dvd y + 1"
    by (rule dvd_trans [of 100 400]) simp_all
  have k: "100 dvd y + 1 \<Longrightarrow> 4 dvd y + 1"
    by (rule dvd_trans [of 4 100]) simp_all
  obtain a b c where q: "y div 4 = a" "y div 100 = b" "y div 400 = c" by blast
  have "(y + 1) div 4 = a + (if 4 dvd y + 1 then 1 else 0)"
    "(y + 1) div 100 = b + (if 100 dvd y + 1 then 1 else 0)"
    "(y + 1) div 400 = c + (if 400 dvd y + 1 then 1 else 0)"
    unfolding q [symmetric] by (simp_all only: div_next zero_less_numeral)
  then have "year_start (y + 1) - year_start y = 365 + (if 4 dvd y + 1 then 1 else 0)
      - (if 100 dvd y + 1 then 1 else 0) + (if 400 dvd y + 1 then 1 else 0)"
    unfolding year_start_def q by (simp only: year_sum)
  moreover obtain p1 p2 p3 where "p1 = (4 dvd y + 1)" "p2 = (100 dvd y + 1)" "p3 = (400 dvd y + 1)" by blast
  ultimately show ?thesis using h k unfolding is_leap_def by (cases p1; cases p2; cases p3) simp_all
qed

lemma year_start_next: "year_start y + 365 \<le> year_start (y + 1)"
  using year_length [of y] by (simp split: if_splits)

lemma div_bounds:
  fixes y :: int
  assumes "0 < k"
  shows "k * (y div k) \<le> y" "y < k * (y div k) + k"
  using mult_div_mod_eq [of k y] pos_mod_bound [OF assms, of y] pos_mod_sign [OF assms, of y]
  by linarith+

lemma year_start_bounds:
  "146097 * y - 699 \<le> 400 * year_start y" "400 * year_start y \<le> 146097 * y + 396"
proof -
  obtain a b c where q: "a = y div 4" "b = y div 100" "c = y div 400" by blast
  have "4 * a \<le> y" "y < 4 * a + 4" "100 * b \<le> y" "y < 100 * b + 100" "400 * c \<le> y"
    "y < 400 * c + 400"
    unfolding q by (simp_all only: div_bounds zero_less_numeral)
  moreover have "year_start y = 365 * y + a - b + c" by (simp add: year_start_def q)
  ultimately show "146097 * y - 699 \<le> 400 * year_start y" "400 * year_start y \<le> 146097 * y + 396"
    by simp_all
qed

lemma march_year_eq:
  assumes "year_start y \<le> z" and "z < year_start (y + 1)"
  shows "march_year z = y"
proof -
  define e where "e = (400 * z) div 146097"
  have e: "146097 * e \<le> 400 * z" "400 * z < 146097 * e + 146097"
    using div_bounds [of 146097 "400 * z"] by (simp_all add: e_def)
  have "y - 1 \<le> e" "e \<le> y + 1"
    using e assms year_start_bounds(1) [of y] year_start_bounds(2) [of "y + 1"] by simp_all
  then consider "e = y - 1" | "e = y" | "e = y + 1" by fastforce
  then show ?thesis
    using assms year_start_next [of y] year_start_next [of "y + 1"] year_start_next [of "y - 1"]
    by cases (simp_all add: march_year_def e_def [symmetric] Let_def)
qed

lemma month_starts:
  "month_start 0 = 0" "month_start 1 = 31" "month_start 2 = 61" "month_start 3 = 92"
  "month_start 4 = 122" "month_start 5 = 153" "month_start 6 = 184" "month_start 7 = 214"
  "month_start 8 = 245" "month_start 9 = 275" "month_start 10 = 306" "month_start 11 = 337"
  by (simp_all add: month_start_def)

lemma month_cases:
  fixes k :: int
  assumes "0 \<le> k" "k \<le> 11"
  shows "k = 0 \<or> k = 1 \<or> k = 2 \<or> k = 3 \<or> k = 4 \<or> k = 5 \<or> k = 6 \<or> k = 7 \<or> k = 8 \<or> k = 9 \<or> k = 10 \<or> k = 11"
  using assms by presburger

definition march_days :: "int \<Rightarrow> int" where
  "march_days k = (if k = 11 then 29 else if k = 1 \<or> k = 3 \<or> k = 6 \<or> k = 8 then 30 else 31)"

lemma div_eqI: "153 * k \<le> (x::int) \<Longrightarrow> x < 153 * k + 153 \<Longrightarrow> x div 153 = k"
  by (rule int_div_pos_eq [of x 153 k "x - 153 * k"]) simp_all

lemma month_day:
  assumes "0 \<le> k" "k \<le> 11" "1 \<le> d" "d \<le> march_days k"
  shows "(5 * (month_start k + d - 1) + 2) div 153 = k"
  using month_cases [OF assms(1,2)] assms(3,4)
  by (intro div_eqI) (elim disjE; simp add: month_starts march_days_def)+

lemma month_end:
  assumes "0 \<le> k" "k \<le> 11" "d \<le> march_days k"
  shows "month_start k + d - 1 < (if k = 11 \<and> d = 29 then 366 else 365)"
  using month_cases [OF assms(1,2)] assms(3)
  by (elim disjE; simp add: month_starts march_days_def)

definition valid_date :: "int \<Rightarrow> int \<Rightarrow> int \<Rightarrow> bool" where
  "valid_date y m d \<longleftrightarrow> 1 \<le> m \<and> m \<le> 12 \<and> 1 \<le> d \<and> d \<le> days_in y m"

theorem civil_from_days_inverse:
  assumes "valid_date y m d"
  shows "civil_from_days (days_from_civil y m d) = (y, m, d)"
proof -
  define y' where "y' = (if m \<le> 2 then y - 1 else y)"
  define k where "k = (if m \<le> 2 then m + 9 else m - 3)"
  define r where "r = month_start k + d - 1"
  have kr: "0 \<le> k" "k \<le> 11" and d: "1 \<le> d"
    and dk: "d \<le> march_days k"
    and leap: "k = 11 \<Longrightarrow> d = 29 \<Longrightarrow> is_leap (y' + 1)"
    using assms by (auto simp: k_def y'_def valid_date_def days_in_def march_days_def split: if_splits)
  have r0: "0 \<le> r" using kr d by (simp add: r_def month_start_def)
  have r1: "r < year_start (y' + 1) - year_start y'"
    using month_end [OF kr dk] leap by (auto simp: r_def year_length split: if_splits)
  have n: "days_from_civil y m d + 719468 = year_start y' + r"
    by (simp add: days_from_civil_def y'_def k_def r_def Let_def)
  have "march_year (year_start y' + r) = y'"
    using r0 r1 by (intro march_year_eq) auto
  moreover have "(5 * r + 2) div 153 = k"
    using month_day [OF kr d dk] by (simp add: r_def)
  ultimately have "civil_from_days (days_from_civil y m d)
      = (if k < 10 then (y', k + 3, d) else (y' + 1, k - 9, d))"
    by (simp add: civil_from_days_def n Let_def) (simp add: r_def)
  then show ?thesis using assms by (auto simp: y'_def k_def valid_date_def)
qed

section \<open>Times\<close>

record gotime =
  instant :: int
  zone :: int

abbreviation second :: int where "second \<equiv> 1000000000"
abbreviation day :: int where "day \<equiv> 86400000000000"

text \<open>The clock on the wall of the location, in nanoseconds since 1970-01-01T00:00:00.\<close>

definition wall :: "gotime \<Rightarrow> int" where
  "wall t = instant t + zone t * second"

definition from_wall :: "int \<Rightarrow> int \<Rightarrow> gotime" where
  "from_wall w z = \<lparr> instant = w - z * second, zone = z \<rparr>"

definition utc :: "gotime \<Rightarrow> gotime" where
  "utc t = t\<lparr> zone := 0 \<rparr>"

definition time_before :: "gotime \<Rightarrow> gotime \<Rightarrow> bool" where
  "time_before t u \<longleftrightarrow> instant t < instant u"

definition time_after :: "gotime \<Rightarrow> gotime \<Rightarrow> bool" where
  "time_after t u \<longleftrightarrow> instant u < instant t"

definition time_add :: "gotime \<Rightarrow> int \<Rightarrow> gotime" where
  "time_add t d = t\<lparr> instant := instant t + d \<rparr>"

definition time_year :: "gotime \<Rightarrow> int" where
  "time_year t = fst (civil_from_days (wall t div day))"

subsection \<open>Layouts\<close>

definition print_date :: "int \<Rightarrow> string" where
  "print_date n = (case civil_from_days n of (y, m, d) \<Rightarrow>
    (if 0 \<le> y then pad 4 (nat y) else CHR ''-'' # pad 4 (nat (- y)))
    @ CHR ''-'' # pad 2 (nat m) @ CHR ''-'' # pad 2 (nat d))"

definition print_clock :: "int \<Rightarrow> string" where
  "print_clock s = pad 2 (nat (s div 3600)) @ CHR '':'' # pad 2 (nat (s div 60 mod 60))
    @ CHR '':'' # pad 2 (nat (s mod 60))"

definition layout_stamp :: "gotime \<Rightarrow> string" where
  "layout_stamp t = print_date (wall t div day) @ CHR ''T'' # print_clock (wall t mod day div second)"

text \<open>\<open>"2006-01-02T15:04:05Z"\<close>: the last character is literal.\<close>

definition layout_z :: "gotime \<Rightarrow> string" where
  "layout_z t = layout_stamp t @ ''Z''"

definition drop_zeros :: "string \<Rightarrow> string" where
  "drop_zeros s = rev (dropWhile (\<lambda>c. c = CHR ''0'') (rev s))"

definition print_frac :: "nat \<Rightarrow> string" where
  "print_frac n = (if n = 0 then [] else CHR ''.'' # drop_zeros (pad 9 n))"

definition print_zone :: "int \<Rightarrow> string" where
  "print_zone z =
    (if z = 0 then ''Z''
     else (let m = nat (\<bar>z\<bar> div 60) in
       (if z < 0 then CHR ''-'' else CHR ''+'') # pad 2 (m div 60) @ CHR '':'' # pad 2 (m mod 60)))"

text \<open>\<open>time.RFC3339\<close> and \<open>time.RFC3339Nano\<close>.\<close>

definition rfc3339 :: "gotime \<Rightarrow> string" where
  "rfc3339 t = layout_stamp t @ print_zone (zone t)"

definition rfc3339_nano :: "gotime \<Rightarrow> string" where
  "rfc3339_nano t = layout_stamp t @ print_frac (nat (wall t mod second)) @ print_zone (zone t)"

text \<open>\<open>Time.MarshalJSON\<close> refuses years and offsets that RFC 3339 does not have.\<close>

definition time_json :: "gotime \<Rightarrow> string option" where
  "time_json t =
    (if 0 \<le> time_year t \<and> time_year t \<le> 9999 \<and> \<bar>zone t\<bar> < 86400
     then Some (rfc3339_nano t) else None)"

subsection \<open>Reading\<close>

definition take_num :: "nat \<Rightarrow> string \<Rightarrow> (int \<times> string) option" where
  "take_num n s =
    (if n \<le> length s \<and> list_all is_digit (take n s)
     then Some (int (digits_val (take n s)), drop n s) else None)"

definition take_hour :: "string \<Rightarrow> (int \<times> string) option" where
  "take_hour s = (case take_num 2 s of Some r \<Rightarrow> Some r | None \<Rightarrow> take_num 1 s)"

definition take_lit :: "char \<Rightarrow> string \<Rightarrow> string option" where
  "take_lit c s = (if take 1 s = [c] then Some (tl s) else None)"

definition take_frac :: "string \<Rightarrow> nat \<times> string" where
  "take_frac s =
    (let ds = takeWhile is_digit (tl s) in
     if (take 1 s = ''.'' \<or> take 1 s = '','') \<and> ds \<noteq> []
     then (digits_val (take 9 ds) * 10 ^ (9 - length (take 9 ds)), dropWhile is_digit (tl s))
     else (0, s))"

definition take_zone :: "string \<Rightarrow> (int \<times> string) option" where
  "take_zone s =
    (if take 1 s = ''Z'' then Some (0, tl s)
     else if take 1 s = ''+'' \<or> take 1 s = ''-'' then
       do {
         (h, s1) \<leftarrow> take_num 2 (tl s);
         s2 \<leftarrow> take_lit (CHR '':'') s1;
         (m, s3) \<leftarrow> take_num 2 s2;
         (if h \<le> 24 \<and> m \<le> 60
          then Some ((if take 1 s = ''-'' then - 1 else 1) * (h * 60 + m) * 60, s3) else None)
       }
     else None)"

text \<open>\<open>time.Parse(time.RFC3339, s)\<close>, with the leniency it has: a one-digit hour, a fraction
  after a point or a comma, an offset of up to 24:60.\<close>

definition parse_date :: "string \<Rightarrow> ((int \<times> int \<times> int) \<times> string) option" where
  "parse_date s = do {
    (y, s1) \<leftarrow> take_num 4 s;
    s2 \<leftarrow> take_lit (CHR ''-'') s1;
    (m, s3) \<leftarrow> take_num 2 s2;
    s4 \<leftarrow> take_lit (CHR ''-'') s3;
    (d, s5) \<leftarrow> take_num 2 s4;
    Some ((y, m, d), s5)
  }"

text \<open>The seconds of the day.\<close>

definition parse_clock :: "string \<Rightarrow> (int \<times> string) option" where
  "parse_clock s = do {
    (h, s1) \<leftarrow> take_hour s;
    s2 \<leftarrow> take_lit (CHR '':'') s1;
    (mi, s3) \<leftarrow> take_num 2 s2;
    s4 \<leftarrow> take_lit (CHR '':'') s3;
    (sec, s5) \<leftarrow> take_num 2 s4;
    (if h < 24 \<and> mi < 60 \<and> sec < 60 then Some ((h * 60 + mi) * 60 + sec, s5) else None)
  }"

definition parse_time :: "string \<Rightarrow> gotime option" where
  "parse_time s = do {
    ((y, m, d), s1) \<leftarrow> parse_date s;
    s2 \<leftarrow> take_lit (CHR ''T'') s1;
    (sec, s3) \<leftarrow> parse_clock s2;
    (z, s4) \<leftarrow> take_zone (snd (take_frac s3));
    (if valid_date y m d \<and> s4 = []
     then Some (from_wall (days_from_civil y m d * day + sec * second + int (fst (take_frac s3))) z)
     else None)
  }"

text \<open>\<open>Time.UnmarshalJSON\<close> reads between the quotes, without unescaping.\<close>

definition time_unmarshal :: "string \<Rightarrow> gotime option" where
  "time_unmarshal raw = parse_time raw"

section \<open>A written time is read back\<close>

lemma take_num_pad [simp]: "k < 10 ^ n \<Longrightarrow> take_num n (pad n k @ t) = Some (int k, t)"
  by (simp add: take_num_def)

lemma take_hour_pad [simp]: "k < 100 \<Longrightarrow> take_hour (pad 2 k @ t) = Some (int k, t)"
  by (simp add: take_hour_def)

lemma take_lit_same [simp]: "take_lit c (c # t) = Some t"
  by (simp add: take_lit_def)

lemma drop_zeros_split: "\<exists>k. s = drop_zeros s @ replicate k (CHR ''0'')"
proof -
  define w where "w = takeWhile (\<lambda>c. c = CHR ''0'') (rev s)"
  have "s = rev (w @ dropWhile (\<lambda>c. c = CHR ''0'') (rev s))" by (simp add: w_def)
  also have "\<dots> = drop_zeros s @ rev w" by (simp add: drop_zeros_def)
  also have "rev w = replicate (length w) (CHR ''0'')"
    by (rule replicate_eqI) (auto simp: w_def dest: set_takeWhileD)
  finally show ?thesis by blast
qed

lemma frac_value:
  assumes "0 < n" "n < 10 ^ 9"
  defines "ds \<equiv> drop_zeros (pad 9 n)"
  shows "ds \<noteq> []" "list_all is_digit ds" "length ds \<le> 9" "digits_val ds * 10 ^ (9 - length ds) = n"
proof -
  obtain k where k: "pad 9 n = ds @ replicate k (CHR ''0'')"
    using drop_zeros_split ds_def by blast
  then have len: "length ds + k = 9" using length_pad [of 9 n] by simp
  have "digits_val (pad 9 n) = digits_val ds * 10 ^ k" by (simp add: k digits_val_zeros)
  then have v: "n = digits_val ds * 10 ^ k" using assms by simp
  show "ds \<noteq> []" using v assms(1) by auto
  show "length ds \<le> 9" using len by simp
  show "list_all is_digit ds" using digits_pad [of 9 n] by (simp add: k)
  show "digits_val ds * 10 ^ (9 - length ds) = n" using v len by auto
qed

definition zone_start :: "string \<Rightarrow> bool" where
  "zone_start s \<longleftrightarrow> s \<noteq> [] \<and> hd s \<in> {CHR ''Z'', CHR ''+'', CHR ''-''}"

lemma take_frac_print:
  assumes "n < 10 ^ 9" "zone_start t"
  shows "take_frac (print_frac n @ t) = (n, t)"
proof (cases "n = 0")
  case True
  then show ?thesis using assms(2) by (cases t) (auto simp: take_frac_def print_frac_def zone_start_def)
next
  case False
  define ds where "ds = drop_zeros (pad 9 n)"
  have ds: "ds \<noteq> []" "list_all is_digit ds" "length ds \<le> 9" "digits_val ds * 10 ^ (9 - length ds) = n"
    using frac_value [of n] False assms(1) by (simp_all add: ds_def)
  have "\<not> is_digit (hd t)" "t \<noteq> []"
    using assms(2) by (auto simp: zone_start_def is_digit_def byte_def)
  then have "takeWhile is_digit (ds @ t) = ds" "dropWhile is_digit (ds @ t) = t"
    using ds(2) by (cases t; simp add: list_all_iff takeWhile_append dropWhile_append)+
  then show ?thesis
    using ds False by (simp add: take_frac_def print_frac_def ds_def [symmetric])
qed

lemma zone_start_print: "zone_start (print_zone z)"
  by (simp add: zone_start_def print_zone_def Let_def)

lemma take_zone_print:
  assumes "\<bar>z\<bar> < 86400" "60 dvd z"
  shows "take_zone (print_zone z) = Some (z, [])"
proof (cases "z = 0")
  case False
  define m where "m = nat (\<bar>z\<bar> div 60)"
  have m: "int m * 60 = \<bar>z\<bar>" using assms(2) by (simp add: m_def pos_imp_zdiv_nonneg_iff)
  have bounds: "m div 60 < 24" "m mod 60 < 60" using m assms(1) by auto
  have "int (m div 60) * 60 + int (m mod 60) = int m"
    by (metis mult.commute of_nat_add of_nat_mult of_nat_numeral div_mult_mod_eq)
  then have val: "(int (m div 60) * 60 + int (m mod 60)) * 60 = \<bar>z\<bar>" using m by simp
  have printed: "print_zone z = (if z < 0 then CHR ''-'' else CHR ''+'')
      # pad 2 (m div 60) @ CHR '':'' # pad 2 (m mod 60)"
    unfolding m_def print_zone_def Let_def using False by (simp only: if_False)
  have "take_num 2 (pad 2 (m mod 60)) = Some (int (m mod 60), [])"
    using take_num_pad [of "m mod 60" 2 "[]"] bounds by simp
  then show ?thesis
    unfolding printed take_zone_def using bounds val by (cases "z < 0") auto
qed (simp add: print_zone_def take_zone_def)

text \<open>A time given by its calendar fields.\<close>

definition civil_time :: "int \<Rightarrow> int \<Rightarrow> int \<Rightarrow> int \<Rightarrow> nat \<Rightarrow> int \<Rightarrow> gotime" where
  "civil_time y m d s n z = from_wall (days_from_civil y m d * day + s * second + int n) z"

definition valid_time :: "gotime \<Rightarrow> bool" where
  "valid_time t \<longleftrightarrow> (\<exists>y m d s n z. t = civil_time y m d s n z \<and> valid_date y m d
     \<and> 0 \<le> y \<and> y \<le> 9999 \<and> 0 \<le> s \<and> s < 86400 \<and> n < 10 ^ 9 \<and> 60 dvd z)"

lemma wall_civil:
  assumes "0 \<le> s" "s < 86400" "n < 10 ^ 9"
  shows "wall (civil_time y m d s n z) div day = days_from_civil y m d"
    and "wall (civil_time y m d s n z) mod day div second = s"
    and "wall (civil_time y m d s n z) mod second = int n"
proof -
  define D where "D = days_from_civil y m d"
  have w: "wall (civil_time y m d s n z) = D * day + (s * second + int n)"
    by (simp add: wall_def civil_time_def from_wall_def D_def)
  have b: "0 \<le> s * second + int n" "s * second + int n < day" using assms by simp_all
  show "wall (civil_time y m d s n z) div day = days_from_civil y m d"
    using b by (simp add: w D_def [symmetric])
  show "wall (civil_time y m d s n z) mod day div second = s"
    using b assms by (simp add: w)
  have "D * day + (s * second + int n) = (D * 86400 + s) * second + int n" by simp
  then show "wall (civil_time y m d s n z) mod second = int n"
    using assms(3) by (simp only: w mod_mult_self3) simp
qed

lemma clock_bounds:
  assumes "0 \<le> s" "s < (86400::int)"
  shows "nat (s div 3600) < 24" "nat (s div 60 mod 60) < 60" "nat (s mod 60) < 60"
    and "((s div 3600) * 60 + s div 60 mod 60) * 60 + s mod 60 = s"
proof -
  show "nat (s div 3600) < 24" "nat (s div 60 mod 60) < 60" "nat (s mod 60) < 60"
    using assms by (simp_all add: div_less_dividend nat_less_iff)
  have "s div 3600 = s div 60 div 60" by (simp add: zdiv_zmult2_eq [of 60 s 60, symmetric])
  then show "((s div 3600) * 60 + s div 60 mod 60) * 60 + s mod 60 = s" by simp
qed

lemma parse_print_date:
  assumes "valid_date y m d" "0 \<le> y" "y \<le> 9999"
  shows "parse_date (print_date (days_from_civil y m d) @ t) = Some ((y, m, d), t)"
proof -
  have "nat m < 100" "nat d < 100" "nat y < 10000" "0 \<le> m" "0 \<le> d"
    using assms by (auto simp: valid_date_def days_in_def split: if_splits)
  then show ?thesis using assms by (simp add: parse_date_def print_date_def civil_from_days_inverse)
qed

lemma clock_nats:
  assumes "0 \<le> s" "s < (86400::int)"
  shows "int (nat (s div 3600)) = s div 3600" "int (nat (s div 60 mod 60)) = s div 60 mod 60"
    "int (nat (s mod 60)) = s mod 60"
  using assms by (simp_all add: pos_imp_zdiv_nonneg_iff)

lemma parse_clock_pads:
  assumes "h < 24" "mi < 60" "sec < 60"
  shows "parse_clock (pad 2 h @ CHR '':'' # pad 2 mi @ CHR '':'' # pad 2 sec @ t)
    = Some ((int h * 60 + int mi) * 60 + int sec, t)"
  unfolding parse_clock_def using assms by simp

lemma parse_print_clock:
  assumes "0 \<le> s" "s < (86400::int)"
  shows "parse_clock (print_clock s @ t) = Some (s, t)"
  using parse_clock_pads [OF clock_bounds(1-3) [OF assms], of t]
  by (simp only: print_clock_def append_assoc append_Cons clock_nats [OF assms] clock_bounds(4) [OF assms])

theorem parse_rfc3339_nano:
  assumes v: "valid_date y m d" "0 \<le> y" "y \<le> 9999" "0 \<le> s" "s < 86400" "n < 10 ^ 9"
    and z: "60 dvd z" "\<bar>z\<bar> < 86400"
  shows "parse_time (rfc3339_nano (civil_time y m d s n z)) = Some (civil_time y m d s n z)"
proof -
  have zone: "zone (civil_time y m d s n z) = z" by (simp add: civil_time_def from_wall_def)
  have frac: "nat (wall (civil_time y m d s n z) mod second) = n"
    by (simp only: wall_civil(3) [OF v(4-6)] nat_int)
  have "rfc3339_nano (civil_time y m d s n z)
    = print_date (days_from_civil y m d) @ CHR ''T'' # print_clock s @ print_frac n @ print_zone z"
    unfolding rfc3339_nano_def layout_stamp_def zone frac wall_civil(1,2) [OF v(4-6)]
    by (simp only: append_assoc append_Cons)
  then show ?thesis
    unfolding parse_time_def using v z
    by (simp add: parse_print_date parse_print_clock take_frac_print zone_start_print
        take_zone_print civil_time_def)
qed

section \<open>What the parser accepts can be written again\<close>

lemma digits_val_bound: "list_all is_digit s \<Longrightarrow> digits_val s < 10 ^ length s"
proof (induction s rule: rev_induct)
  case (snoc c s)
  then show ?case by (auto simp: is_digit_def)
qed simp

lemma take_num_bound: "take_num n s = Some (k, r) \<Longrightarrow> 0 \<le> k \<and> k < 10 ^ n"
  using digits_val_bound [of "take n s"] by (auto simp: take_num_def min_def split: if_splits)

lemma take_hour_bound: "take_hour s = Some (k, r) \<Longrightarrow> 0 \<le> k"
  by (auto simp: take_hour_def split: option.splits dest: take_num_bound)

lemma take_frac_bound: "fst (take_frac s) < 10 ^ 9"
proof -
  define ds where "ds = take 9 (takeWhile is_digit (tl s))"
  have len: "length ds \<le> 9" by (simp add: ds_def)
  have "list_all is_digit ds"
    by (auto simp: ds_def list_all_iff dest: set_takeWhileD in_set_takeD)
  then have "digits_val ds < 10 ^ length ds" by (rule digits_val_bound)
  then have "digits_val ds * 10 ^ (9 - length ds) < 10 ^ length ds * 10 ^ (9 - length ds)"
    by (rule mult_strict_right_mono) simp
  also have "\<dots> = 10 ^ 9" using len by (simp add: power_add [symmetric])
  finally have "digits_val ds * 10 ^ (9 - length ds) < 10 ^ 9" .
  then show ?thesis unfolding take_frac_def Let_def ds_def by simp
qed

lemma take_zone_minutes: "take_zone s = Some (z, r) \<Longrightarrow> 60 dvd z"
  by (auto simp: take_zone_def split: if_splits bind_splits)

lemma parse_clock_bound: "parse_clock s = Some (sec, r) \<Longrightarrow> 0 \<le> sec \<and> sec < 86400"
  by (auto simp: parse_clock_def split: bind_splits if_splits dest!: take_num_bound take_hour_bound)

lemma parse_date_bound: "parse_date s = Some ((y, m, d), r) \<Longrightarrow> 0 \<le> y \<and> y \<le> 9999"
  by (auto simp: parse_date_def split: bind_splits dest!: take_num_bound)

lemma parse_valid: "parse_time s = Some t \<Longrightarrow> valid_time t"
proof -
  assume "parse_time s = Some t"
  then obtain y m d s1 s2 sec s3 z s4 where
    f: "parse_date s = Some ((y, m, d), s1)" "parse_clock s2 = Some (sec, s3)"
      "take_zone (snd (take_frac s3)) = Some (z, s4)"
    and v: "valid_date y m d"
    and t: "t = from_wall (days_from_civil y m d * day + sec * second + int (fst (take_frac s3))) z"
    by (auto simp: parse_time_def split: bind_splits if_splits)
  have "60 dvd z" using f(3) by (rule take_zone_minutes)
  moreover have "t = civil_time y m d sec (fst (take_frac s3)) z"
    by (simp add: t civil_time_def)
  ultimately show ?thesis
    unfolding valid_time_def
    using v take_frac_bound [of s3] parse_clock_bound [OF f(2)] parse_date_bound [OF f(1)]
    by (intro exI [of _ y] exI [of _ m] exI [of _ d] exI [of _ sec]
        exI [of _ "fst (take_frac s3)"] exI [of _ z]) auto
qed

theorem time_json_round:
  assumes "valid_time t" "time_json t = Some s"
  shows "time_unmarshal s = Some t"
proof -
  obtain y m d se n z where t: "t = civil_time y m d se n z" and v: "valid_date y m d"
    "0 \<le> y" "y \<le> 9999" "0 \<le> se" "se < 86400" "n < 10 ^ 9" "60 dvd z"
    using assms(1) unfolding valid_time_def by blast
  have "zone t = z" by (simp add: t civil_time_def from_wall_def)
  then have "\<bar>z\<bar> < 86400" "s = rfc3339_nano t"
    using assms(2) by (auto simp: time_json_def split: if_splits)
  then show ?thesis using parse_rfc3339_nano [OF v(1-7)] by (simp add: t time_unmarshal_def)
qed

lemma plain_drop_zeros: "plain s \<Longrightarrow> plain (drop_zeros s)"
  by (auto simp: plain_def drop_zeros_def dest: set_dropWhileD)

lemma plain_stamp: "plain (layout_stamp t)"
  by (auto simp: layout_stamp_def print_date_def print_clock_def plain_char_def is_html_def byte_def
      split: prod.split)

lemma plain_times [simp]: "plain (layout_z t)" "plain (rfc3339 t)" "plain (rfc3339_nano t)"
  by (auto simp: layout_z_def rfc3339_def rfc3339_nano_def print_frac_def print_zone_def plain_stamp
      plain_drop_zeros Let_def plain_char_def is_html_def byte_def)

lemma plain_time_json: "time_json t = Some s \<Longrightarrow> plain s"
  by (auto simp: time_json_def split: if_splits)

declare plain_simps(2) [simp del]

end
