(* ===== verification/Go_Decode.thy ===== *)
theory Go_Decode
  imports Go_Time
begin

text \<open>
  How \<open>encoding/json\<close> stores a document into Go values: the members of an object are taken in
  order, a member goes to the field of that name (or that name in another case), a value of
  the wrong type is skipped and reported at the end (\<open>Saved\<close>), and an error of a type's own
  \<open>UnmarshalJSON\<close> stops the decoding at once (\<open>Abort\<close>). Either way the caller gets the value as
  far as it was filled.
\<close>

datatype decode_error = NoErr | Saved | Abort

fun later :: "decode_error \<Rightarrow> decode_error \<Rightarrow> decode_error" where
  "later NoErr e = e"
| "later Saved e = (if e = Abort then Abort else Saved)"
| "later Abort e = Abort"

lemma later_NoErr [simp]: "later e NoErr = e"
  by (cases e) auto

section \<open>Field names\<close>

text \<open>
  \<open>foldName\<close>: ASCII letters in upper case; of the other code points only U+212A (the Kelvin
  sign) and U+017F (the long s) fold to a letter, and only letters occur in the names here.
\<close>

definition upper :: "char \<Rightarrow> char" where
  "upper c = (if 97 \<le> byte c \<and> byte c \<le> 122 then chr (byte c - 32) else c)"

function fold_name :: "string \<Rightarrow> string" where
  "fold_name s =
    (if s = [] then []
     else if take 3 s = [CHR 0xE2, CHR 0x84, CHR 0xAA] then CHR ''K'' # fold_name (drop 3 s)
     else if take 2 s = [CHR 0xC5, CHR 0xBF] then CHR ''S'' # fold_name (drop 2 s)
     else upper (hd s) # fold_name (tl s))"
  by pat_completeness auto
termination
  by (relation "measure length") auto

declare fold_name.simps [simp del]

text \<open>The field a key names: the exact name first, then the folded one.\<close>

definition field_of :: "string list \<Rightarrow> string \<Rightarrow> string option" where
  "field_of names k =
    (if k \<in> set names then Some k else find (\<lambda>n. fold_name n = fold_name k) names)"

lemma field_of_exact [simp]: "k \<in> set names \<Longrightarrow> field_of names k = Some k"
  by (simp add: field_of_def)

lemma field_of_member: "field_of names k = Some n \<Longrightarrow> n \<in> set names"
  by (auto simp: field_of_def find_Some_iff split: if_splits)

section \<open>Values\<close>

definition decode_string :: "string \<Rightarrow> json \<Rightarrow> string \<times> decode_error" where
  "decode_string v j = (case j of JStr r \<Rightarrow> (unquote r, NoErr) | JNull \<Rightarrow> (v, NoErr) | _ \<Rightarrow> (v, Saved))"

definition decode_int :: "int \<Rightarrow> json \<Rightarrow> int \<times> decode_error" where
  "decode_int v j = (case j of
      JNum n \<Rightarrow> (case parse_int n of (i, err) \<Rightarrow> if err then (v, Saved) else (i, NoErr))
    | JNull \<Rightarrow> (v, NoErr) | _ \<Rightarrow> (v, Saved))"

text \<open>
  A list of strings: null clears it; an element is decoded over the one that was there, so that a
  null or a bad element leaves that one, or the empty text, and a bad one is reported.
\<close>

definition decode_strings :: "string list \<Rightarrow> json \<Rightarrow> string list \<times> decode_error" where
  "decode_strings v j = (case j of
      JArr js \<Rightarrow> (map2 (\<lambda>u j. fst (decode_string u j)) (v @ replicate (length js) []) js,
                 foldr (\<lambda>j. later (snd (decode_string [] j))) js NoErr)
    | JNull \<Rightarrow> ([], NoErr) | _ \<Rightarrow> (v, Saved))"

definition zero_time :: gotime where
  "zero_time = \<lparr> instant = days_from_civil 1 1 1 * day, zone = 0 \<rparr>"

text \<open>A \<open>*time.Time\<close>: what a value that is no string leaves is what was there before.\<close>

definition decode_time :: "gotime option \<Rightarrow> json \<Rightarrow> gotime option \<times> decode_error" where
  "decode_time v j = (case j of
      JNull \<Rightarrow> (None, NoErr)
    | JStr r \<Rightarrow> (case time_unmarshal r of Some t \<Rightarrow> (Some t, NoErr) | None \<Rightarrow> (Some zero_time, Abort))
    | _ \<Rightarrow> (Some (case v of None \<Rightarrow> zero_time | Some t \<Rightarrow> t), Abort))"

section \<open>Structs\<close>

text \<open>
  A struct is decoded by a function that stores one member: the field's name, the text of the
  value and the value.
\<close>

type_synonym 'a store = "'a \<Rightarrow> string \<Rightarrow> string \<Rightarrow> json \<Rightarrow> 'a \<times> decode_error"

fun decode_members :: "string list \<Rightarrow> 'a store \<Rightarrow> 'a \<Rightarrow> (string \<times> string \<times> json) list \<Rightarrow> 'a \<times> decode_error" where
  "decode_members names st v [] = (v, NoErr)"
| "decode_members names st v ((k, t, j) # ms) =
    (case field_of names (unquote k) of
       None \<Rightarrow> decode_members names st v ms
     | Some n \<Rightarrow>
         (case st v n t j of (v', e) \<Rightarrow>
            if e = Abort then (v', Abort)
            else (case decode_members names st v' ms of (v'', e') \<Rightarrow> (v'', later e e'))))"

definition decode_struct :: "string list \<Rightarrow> 'a store \<Rightarrow> 'a \<Rightarrow> json \<Rightarrow> 'a \<times> decode_error" where
  "decode_struct names st v j = (case j of
      JObj ms \<Rightarrow> decode_members names st v ms
    | JNull \<Rightarrow> (v, NoErr)
    | _ \<Rightarrow> (v, Saved))"

text \<open>\<open>json.Unmarshal\<close>: a text that is no document leaves the value alone.\<close>

definition unmarshal :: "('a \<Rightarrow> json \<Rightarrow> 'a \<times> decode_error) \<Rightarrow> 'a \<Rightarrow> string \<Rightarrow> 'a \<times> bool" where
  "unmarshal d v s = (case jparse s of
      None \<Rightarrow> (v, False)
    | Some j \<Rightarrow> (case d v j of (v', e) \<Rightarrow> (v', e = NoErr)))"

definition decode_stream :: "('a \<Rightarrow> json \<Rightarrow> 'a \<times> decode_error) \<Rightarrow> 'a \<Rightarrow> string \<Rightarrow> 'a \<times> bool" where
  "decode_stream d v s = (case jdecode s of
      None \<Rightarrow> (v, False)
    | Some j \<Rightarrow> (case d v j of (v', e) \<Rightarrow> (v', e = NoErr)))"

section \<open>Compaction does not change what is decoded\<close>

lemma decode_string_hesc [simp]: "jwf j \<Longrightarrow> decode_string v (jhesc j) = decode_string v j"
  by (cases j) (simp_all add: decode_string_def unquote_hesc)

lemma decode_int_hesc [simp]: "decode_int v (jhesc j) = decode_int v j"
  by (cases j) (simp_all add: decode_int_def)

text \<open>A struct without raw messages and times looks only at the values.\<close>

definition stable :: "'a store \<Rightarrow> bool" where
  "stable st \<longleftrightarrow> (\<forall>v n t t' j. jwf j \<longrightarrow> st v n t' (jhesc j) = st v n t j)"

lemma stable_step: "stable st \<Longrightarrow> jwf j \<Longrightarrow> st v n t' (jhesc j) = st v n t j"
  by (simp add: stable_def)

lemma decode_members_hesc:
  assumes "stable st" "jwf (JObj ms)"
  shows "decode_members names st v
      (map (\<lambda>m. (raw_hesc (fst m), jprint (jhesc (snd (snd m))), jhesc (snd (snd m)))) ms)
    = decode_members names st v ms"
  using assms(2)
proof (induction ms arbitrary: v)
  case (Cons m ms)
  obtain k t j where m: "m = (k, t, j)" by (cases m)
  have "unquote (raw_hesc k) = unquote k" "jwf j" using Cons.prems m by (auto simp: unquote_hesc)
  then show ?case
    using Cons by (simp add: m stable_step [OF assms(1), of j _ _ _ t] split: option.split prod.split)
qed simp

lemma decode_struct_hesc:
  "stable st \<Longrightarrow> jwf j \<Longrightarrow> decode_struct names st v (jhesc j) = decode_struct names st v j"
  by (cases j) (simp_all add: decode_struct_def decode_members_hesc del: jwf.simps)

lemma unmarshal_compact:
  assumes "compact s = Some t" "\<And>v j. jwf j \<Longrightarrow> d v (jhesc j) = d v j"
  shows "unmarshal d v t = unmarshal d v s"
proof -
  obtain j where j: "jparse s = Some j" "t = jprint (jhesc j)"
    using assms(1) by (auto simp: compact_def)
  then have "jparse t = Some (jhesc j)" "jwf j" using jparse_compact jparse_wf by blast+
  then show ?thesis using assms(2) [of j] j(1) by (simp add: unmarshal_def)
qed

section \<open>Written objects\<close>

text \<open>A member as the encoder writes it: a plain key, and the printed value beside the value.\<close>

definition member :: "string \<Rightarrow> json \<Rightarrow> string \<times> string \<times> json" where
  "member k v = (k, jprint v, v)"

definition jstring :: "string \<Rightarrow> json" where
  "jstring s = JStr (quote s)"

lemma jcanon_jstring [simp]: "jcanon (jstring s)"
  by (simp add: jstring_def raw_ok_quote)

lemma jdepth_jstring [simp]: "jdepth (jstring s) = 0"
  by (simp add: jstring_def)

lemma raw_ok_plain_text: "plain s \<Longrightarrow> raw_ok s"
  using raw_ok_quote [of s] by simp

lemma member_parts [simp]: "fst (member k v) = k" "fst (snd (member k v)) = jprint v" "snd (snd (member k v)) = v"
  by (simp_all add: member_def)

lemma split_member [simp]: "(case member k v of (a, b, c) \<Rightarrow> f a b c) = f k (jprint v) v"
  by (simp add: member_def)

lemma decode_string_jstring [simp]: "decode_string v (jstring s) = (utf8_sanitize s, NoErr)"
  by (simp add: decode_string_def jstring_def unquote_quote)

lemma decode_members_member [simp]:
  "plain k \<Longrightarrow> k \<in> set names \<Longrightarrow> decode_members names st v (member k j # ms) =
    (case st v k (jprint j) j of (v', e) \<Rightarrow>
            if e = Abort then (v', Abort)
            else (case decode_members names st v' ms of (v'', e') \<Rightarrow> (v'', later e e')))"
  by (simp add: member_def)

lemma decode_struct_obj [simp]: "decode_struct names st v (JObj ms) = decode_members names st v ms"
  by (simp add: decode_struct_def)

text \<open>A struct the encoder wrote is read by \<open>unmarshal\<close> as its decoder reads the tree.\<close>

lemma unmarshal_print:
  assumes "jcanon j" "jdepth j \<le> max_depth"
  shows "unmarshal d v (jprint j) = (case d v j of (v', e) \<Rightarrow> (v', e = NoErr))"
  using jparse_jprint [OF assms] by (simp add: unmarshal_def)

text \<open>
  The contract of a pair of encoder and decoder: what is written is a document, not too deep,
  and the decoder gives back the value in its normal form, without an error.
\<close>

locale json_codec =
  fixes encode :: "'a \<Rightarrow> json" and decode :: "'a \<Rightarrow> json \<Rightarrow> 'a \<times> decode_error"
    and empty :: 'a and normal :: "'a \<Rightarrow> 'a" and ok :: "'a \<Rightarrow> bool"
  assumes encode_canon: "ok v \<Longrightarrow> jcanon (encode v) \<and> jdepth (encode v) \<le> max_depth"
    and decode_encode: "ok v \<Longrightarrow> decode empty (encode v) = (normal v, NoErr)"
begin

lemma unmarshal_encode: "ok v \<Longrightarrow> unmarshal decode empty (jprint (encode v)) = (normal v, True)"
  using encode_canon [of v] by (simp add: unmarshal_print decode_encode)

lemma jparse_encode: "ok v \<Longrightarrow> jparse (jprint (encode v)) = Some (encode v)"
  using encode_canon [of v] by (simp add: jparse_jprint)

end

end
