(* ===== verification/Runtime.thy ===== *)
theory Runtime
  imports Go_Decode "HOL-Library.State_Monad"
begin

text \<open>
  How the program is run. A handler is a program in the state monad of the library over the
  state of the world. What the code cannot decide is an argument, the environment: the clocks,
  the failures of the database, of the queue and of the object store, the answers of the
  services it calls, fresh identifiers. Every interaction takes a tick, so that each call of
  the program gets an answer of its own and nothing ties one answer to another.

  The environment is the only interface to code outside the repository (pulse, pgx, minio,
  OpenTelemetry, uuid); nothing is assumed of it here.
\<close>

section \<open>The environment\<close>

record env =
  clock :: "nat \<Rightarrow> gotime"
  db_now :: "nat \<Rightarrow> int"
  db_fault :: "nat \<Rightarrow> (bool \<times> string) option"
  pg_time :: "gotime \<Rightarrow> int"
  ilike :: "string \<Rightarrow> string \<Rightarrow> bool"
  tie_order :: "nat \<Rightarrow> string \<Rightarrow> nat"
  new_uuid :: "nat \<Rightarrow> string"
  traceparent :: "nat \<Rightarrow> string"
  json_error :: "string \<Rightarrow> goerr"
  queue_fault :: "nat \<Rightarrow> goerr option"
  queue_depths :: "nat \<Rightarrow> (string \<times> int) list result"
  dlq_items :: "nat \<Rightarrow> string list result"
  health_stats :: "nat \<Rightarrow> json"
  put_object :: "nat \<Rightarrow> (bool \<times> goerr) option"
  get_object :: "nat \<Rightarrow> string \<Rightarrow> (bytes \<times> goerr option) result"
  presign :: "nat \<Rightarrow> string \<Rightarrow> string result"

text \<open>
  \<open>db_fault\<close> lets a statement fail: the flag says whether the failure came after the
  database had applied it (a connection lost before the answer). \<open>pg_time\<close> is how the driver
  stores a \<open>time.Time\<close> in a column of type \<open>TIMESTAMP\<close>, in microseconds; \<open>json_error\<close> is the
  error of decoding a text. A text that Postgres refuses to store (with a NUL byte, or not UTF-8) is
  such a failure, too. \<open>tie_order\<close> is the order in which a query returns the rows its ORDER BY
  leaves open; it may be another one for every query. The flag of \<open>put_object\<close> says whether the
  object is there although the call failed. \<open>get_object\<close> gives the bytes of an object and the
  error its reader ends in, if it does.
\<close>

section \<open>The state of the world\<close>

record ticking =
  tick :: nat

section \<open>Running programs\<close>

lemma run_bind [simp]:
  "run_state (State_Monad.bind m f) s = (case run_state m s of (a, s') \<Rightarrow> run_state (f a) s')"
  by (simp add: State_Monad.bind_def Let_def split_def)

lemma run_return [simp]: "run_state (State_Monad.return a) s = (a, s)"
  by (simp add: State_Monad.return_def)

lemma run_get [simp]: "run_state State_Monad.get s = (s, s)"
  by (simp add: State_Monad.get_def)

lemma run_update [simp]: "run_state (State_Monad.update f) s = ((), f s)"
  by (simp add: State_Monad.update_def State_Monad.set_def)

text \<open>The state after a program, and its value.\<close>

definition final :: "('s, 'a) state \<Rightarrow> 's \<Rightarrow> 's" where
  "final m s = snd (run_state m s)"

definition value_of :: "('s, 'a) state \<Rightarrow> 's \<Rightarrow> 'a" where
  "value_of m s = fst (run_state m s)"

lemma final_bind [simp]: "final (State_Monad.bind m f) s = final (f (value_of m s)) (final m s)"
  by (simp add: final_def value_of_def split_def)

lemma value_bind [simp]: "value_of (State_Monad.bind m f) s = value_of (f (value_of m s)) (final m s)"
  by (simp add: final_def value_of_def split_def)

lemma final_return [simp]: "final (State_Monad.return a) s = s"
  and value_return [simp]: "value_of (State_Monad.return a) s = a"
  by (simp_all add: final_def value_of_def)

lemma final_get [simp]: "final State_Monad.get s = s"
  and value_get [simp]: "value_of State_Monad.get s = s"
  by (simp_all add: final_def value_of_def)

lemma final_update [simp]: "final (State_Monad.update f) s = f s"
  by (simp add: final_def)

definition next_tick :: "('x ticking_scheme, nat) state" where
  "next_tick = State (\<lambda>w. (tick w, w\<lparr> tick := Suc (tick w) \<rparr>))"

lemma final_tick [simp]: "final next_tick w = w\<lparr> tick := Suc (tick w) \<rparr>"
  and value_tick [simp]: "value_of next_tick w = tick w"
  by (simp_all add: final_def value_of_def next_tick_def)

definition time_now :: "env \<Rightarrow> ('x ticking_scheme, gotime) state" where
  "time_now E = do { t \<leftarrow> next_tick; State_Monad.return (clock E t) }"

lemma final_time_now [simp]: "final (time_now E) w = w\<lparr> tick := Suc (tick w) \<rparr>"
  and value_time_now [simp]: "value_of (time_now E) w = clock E (tick w)"
  by (simp_all add: time_now_def)

text \<open>What a program keeps: every step of it does.\<close>

definition keeps :: "('s \<Rightarrow> bool) \<Rightarrow> ('s, 'a) state \<Rightarrow> bool" where
  "keeps P m \<longleftrightarrow> (\<forall>s. P s \<longrightarrow> P (final m s))"

lemma keepsD: "keeps P m \<Longrightarrow> P s \<Longrightarrow> P (final m s)"
  by (simp add: keeps_def)

lemma keepsI: "(\<And>s. P s \<Longrightarrow> P (final m s)) \<Longrightarrow> keeps P m"
  by (simp add: keeps_def)

lemma keeps_return [wf_intros]: "keeps P (State_Monad.return a)"
  by (simp add: keeps_def)

lemma keeps_get [wf_intros]: "keeps P State_Monad.get"
  by (simp add: keeps_def)

lemma keeps_bind [wf_intros]: "keeps P m \<Longrightarrow> (\<And>a. keeps P (f a)) \<Longrightarrow> keeps P (State_Monad.bind m f)"
  by (simp add: keeps_def)

lemma keeps_if [wf_intros]: "keeps P m \<Longrightarrow> keeps P m' \<Longrightarrow> keeps P (if b then m else m')"
  by simp

lemma keeps_case_sum [wf_intros]:
  "(\<And>e. keeps P (f e)) \<Longrightarrow> (\<And>a. keeps P (g a)) \<Longrightarrow> keeps P (case r of Inl e \<Rightarrow> f e | Inr a \<Rightarrow> g a)"
  by (simp split: sum.split)

lemma keeps_case_option [wf_intros]:
  "keeps P m \<Longrightarrow> (\<And>a. keeps P (g a)) \<Longrightarrow> keeps P (case r of None \<Rightarrow> m | Some a \<Rightarrow> g a)"
  by (simp split: option.split)

lemma keeps_case_prod [wf_intros]: "(\<And>a b. keeps P (f a b)) \<Longrightarrow> keeps P (case r of (a, b) \<Rightarrow> f a b)"
  by (simp split: prod.split)

text \<open>A part of the state a program never touches, and a log it only extends.\<close>

definition frames :: "('s \<Rightarrow> 'b) \<Rightarrow> ('s, 'a) state \<Rightarrow> bool" where
  "frames g m \<longleftrightarrow> (\<forall>s. g (final m s) = g s)"

lemma framesD: "frames g m \<Longrightarrow> g (final m s) = g s"
  by (simp add: frames_def)

lemma frames_return [frame]: "frames g (State_Monad.return a)"
  by (simp add: frames_def)

lemma frames_get [frame]: "frames g State_Monad.get"
  by (simp add: frames_def)

lemma frames_bind [frame]: "frames g m \<Longrightarrow> (\<And>a. frames g (f a)) \<Longrightarrow> frames g (State_Monad.bind m f)"
  by (simp add: frames_def)

lemma frames_if [frame]: "frames g m \<Longrightarrow> frames g m' \<Longrightarrow> frames g (if b then m else m')"
  by simp

lemma frames_case_sum [frame]:
  "(\<And>e. frames g (h e)) \<Longrightarrow> (\<And>a. frames g (k a)) \<Longrightarrow> frames g (case r of Inl e \<Rightarrow> h e | Inr a \<Rightarrow> k a)"
  by (simp split: sum.split)

lemma frames_case_option [frame]:
  "frames g m \<Longrightarrow> (\<And>a. frames g (k a)) \<Longrightarrow> frames g (case r of None \<Rightarrow> m | Some a \<Rightarrow> k a)"
  by (simp split: option.split)

lemma frames_case_prod [frame]: "(\<And>a b. frames g (f a b)) \<Longrightarrow> frames g (case r of (a, b) \<Rightarrow> f a b)"
  by (simp split: prod.split)

end
