(* ===== verification/Database.thy ===== *)
theory Database
  imports Runtime "HOL-Library.Option_ord"
begin

text \<open>
  \<open>internal/database\<close>: the rows of \<open>models.go\<close> and the statements of \<open>events.sql.go\<close>,
  \<open>event_logs.sql.go\<close> and \<open>idempotency.sql.go\<close>, over the tables of \<open>sql/schema\<close>. A table is the
  list of its rows in the order of insertion; where SQL leaves an order open (ties, groups) the
  model takes this one. A nullable column is an option, as is the \<open>pgtype\<close> value that carries
  it. Each statement is one atomic step and takes a tick; it may fail as the environment says,
  with or without having been applied.

  Main results: the invariant \<open>db_ok\<close> (primary keys, the foreign key of the idempotency keys)
  is kept by every statement, and the shared facts about guarded updates of rows (locale
  \<open>row_update\<close>) give what each update does to the row it names and that it leaves the others.
\<close>

section \<open>Rows and tables\<close>

record event =
  ev_id :: string
  ev_type :: string
  ev_payload :: string
  ev_created_at :: "int option"
  ev_status :: "string option"
  ev_updated_at :: "int option"
  ev_trace_id :: string
  ev_priority :: "string option"
  ev_parentid :: "string option"
  ev_scheduled_at :: "int option"
  ev_result :: "string option"

record event_delivery_log =
  dl_event_id :: string
  dl_status :: string
  dl_attempt :: "32 word"
  dl_error_message :: "string option"
  dl_created_at :: "int option"
  dl_updated_at :: "int option"

record idempotency_key =
  ik_key :: string
  ik_event_id :: string
  ik_created_at :: "int option"
  ik_expires_at :: "int option"
  ik_metadata :: bytes

record db = ticking +
  events :: "event list"
  delivery_logs :: "event_delivery_log list"
  idempotency_keys :: "idempotency_key list"

text \<open>\<open>pgx.ErrNoRows\<close>, compared by identity.\<close>

definition ErrNoRows :: goerr where
  "ErrNoRows = Sentinel ''pgx.ErrNoRows'' ''no rows in result set''"

text \<open>A stored timestamp comes back as a \<open>time.Time\<close> in UTC.\<close>

definition db_time :: "int \<Rightarrow> gotime" where
  "db_time us = \<lparr> instant = us * 1000, zone = 0 \<rparr>"

section \<open>Statements\<close>

definition db_query :: "env \<Rightarrow> (int \<Rightarrow> 'x db_scheme \<Rightarrow> 'a result) \<Rightarrow> ('x db_scheme, 'a result) state" where
  "db_query E f = do {
    t \<leftarrow> next_tick;
    w \<leftarrow> State_Monad.get;
    State_Monad.return (case db_fault E t of
      Some (applied, m) \<Rightarrow> Inl (ErrorString m)
    | None \<Rightarrow> f (db_now E t) w)
  }"

text \<open>A statement gives an error and changes nothing, or a value and the new state.\<close>

definition db_exec :: "env \<Rightarrow> (int \<Rightarrow> 'x db_scheme \<Rightarrow> goerr + ('a \<times> 'x db_scheme))
    \<Rightarrow> ('x db_scheme, 'a result) state" where
  "db_exec E f = do {
    t \<leftarrow> next_tick;
    w \<leftarrow> State_Monad.get;
    (case f (db_now E t) w of
       Inl e \<Rightarrow> State_Monad.return (case db_fault E t of Some (applied, m) \<Rightarrow> Inl (ErrorString m) | None \<Rightarrow> Inl e)
     | Inr (a, w') \<Rightarrow>
        (case db_fault E t of
           None \<Rightarrow> do { State_Monad.update (\<lambda>_. w'); State_Monad.return (Inr a) }
         | Some (applied, m) \<Rightarrow>
             (if applied then do { State_Monad.update (\<lambda>_. w'); State_Monad.return (Inl (ErrorString m)) }
              else State_Monad.return (Inl (ErrorString m)))))
  }"

definition stamp :: "int \<Rightarrow> event \<Rightarrow> event" where
  "stamp now e = e\<lparr> ev_updated_at := Some now \<rparr>"

subsection \<open>events.sql.go\<close>

definition has_id :: "string \<Rightarrow> event \<Rightarrow> bool" where
  "has_id i e \<longleftrightarrow> ev_id e = i"

definition pending_row :: "string \<Rightarrow> event \<Rightarrow> bool" where
  "pending_row i e \<longleftrightarrow> ev_id e = i \<and> ev_status e = Some ''pending''"

definition cancel_row :: "int \<Rightarrow> event \<Rightarrow> event" where
  "cancel_row now e = stamp now (e\<lparr> ev_status := Some ''cancelled'' \<rparr>)"

definition CancelEventIfPending :: "env \<Rightarrow> string \<Rightarrow> ('x db_scheme, nat result) state" where
  "CancelEventIfPending E i = db_exec E (\<lambda>now w.
    Inr (count_rows (pending_row i) (events w),
         w\<lparr> events := update_rows (pending_row i) (cancel_row now) (events w) \<rparr>))"

definition text_match :: "string option \<Rightarrow> string option \<Rightarrow> bool" where
  "text_match p v \<longleftrightarrow> (case p of None \<Rightarrow> True | Some s \<Rightarrow> v = Some s)"

record events_filter =
  f_status :: "string option"
  f_type :: "string option"
  f_priority :: "string option"
  f_search :: "string option"

definition matches :: "env \<Rightarrow> events_filter \<Rightarrow> event \<Rightarrow> bool" where
  "matches E f e \<longleftrightarrow>
    text_match (f_status f) (ev_status e) \<and> text_match (f_type f) (Some (ev_type e))
    \<and> text_match (f_priority f) (ev_priority e)
    \<and> (case f_search f of None \<Rightarrow> True | Some s \<Rightarrow> ilike E (''%'' @ s @ ''%'') (ev_type e))"

definition CountEventsFiltered :: "env \<Rightarrow> events_filter \<Rightarrow> ('x db_scheme, nat result) state" where
  "CountEventsFiltered E f = db_query E (\<lambda>now w. Inr (count_rows (matches E f) (events w)))"

definition GetEventByID :: "env \<Rightarrow> string \<Rightarrow> ('x db_scheme, event result) state" where
  "GetEventByID E i = db_query E (\<lambda>now w.
    case find_row ev_id i (events w) of None \<Rightarrow> Inl ErrNoRows | Some e \<Rightarrow> Inr e)"

text \<open>\<open>GROUP BY status\<close> is by the column, so NULL is a group of its own, called 'unknown'.\<close>

definition status_groups :: "event list \<Rightarrow> (string \<times> nat) list" where
  "status_groups es =
    map (\<lambda>st. (case st of None \<Rightarrow> ''unknown'' | Some s \<Rightarrow> s, count_rows (\<lambda>e. ev_status e = st) es))
      (remdups (map ev_status es))"

definition GetEventStatusCounts :: "env \<Rightarrow> ('x db_scheme, (string \<times> nat) list result) state" where
  "GetEventStatusCounts E = db_query E (\<lambda>now w. Inr (status_groups (events w)))"

definition recently_processed :: "int \<Rightarrow> event \<Rightarrow> bool" where
  "recently_processed now e \<longleftrightarrow> ev_status e = Some ''processed''
    \<and> (case ev_updated_at e of None \<Rightarrow> False | Some u \<Rightarrow> now - 86400000000 \<le> u)"

definition GetRecentProcessedCount :: "env \<Rightarrow> ('x db_scheme, nat result) state" where
  "GetRecentProcessedCount E = db_query E (\<lambda>now w. Inr (count_rows (recently_processed now) (events w)))"

record insert_event_params =
  in_id :: string
  in_payload :: string
  in_status :: "string option"
  in_created_at :: "gotime option"
  in_updated_at :: "gotime option"
  in_type :: string
  in_trace_id :: string
  in_priority :: "string option"
  in_parentid :: "string option"
  in_scheduled_at :: "gotime option"

definition new_event :: "env \<Rightarrow> insert_event_params \<Rightarrow> event" where
  "new_event E p = \<lparr>
    ev_id = in_id p, ev_type = in_type p, ev_payload = in_payload p,
    ev_created_at = map_option (pg_time E) (in_created_at p), ev_status = in_status p,
    ev_updated_at = map_option (pg_time E) (in_updated_at p), ev_trace_id = in_trace_id p,
    ev_priority = in_priority p, ev_parentid = in_parentid p,
    ev_scheduled_at = map_option (pg_time E) (in_scheduled_at p), ev_result = None \<rparr>"

definition InsertEvent :: "env \<Rightarrow> insert_event_params \<Rightarrow> ('x db_scheme, unit result) state" where
  "InsertEvent E p = db_exec E (\<lambda>now w.
    if in_id p \<in> ev_id ` set (events w) then
      Inl (ErrorString ''duplicate key value violates unique constraint'')
    else if in_created_at p = None then
      Inl (ErrorString ''null value in column created_at violates not-null constraint'')
    else Inr ((), w\<lparr> events := events w @ [new_event E p] \<rparr>))"

text \<open>
  The column is NOT NULL. Rows of one time come in the order of the environment, which is asked at
  every query (the tick has moved on when the statement runs).
\<close>

definition by_creation :: "(string \<Rightarrow> nat) \<Rightarrow> event list \<Rightarrow> event list" where
  "by_creation ties es = sort_key ev_created_at (sort_key (\<lambda>e. ties (ev_id e)) es)"

definition by_creation_desc :: "(string \<Rightarrow> nat) \<Rightarrow> event list \<Rightarrow> event list" where
  "by_creation_desc ties es = sort_key (\<lambda>e. map_option uminus (ev_created_at e)) (sort_key (\<lambda>e. ties (ev_id e)) es)"

definition ListEvents :: "env \<Rightarrow> ('x db_scheme, event list result) state" where
  "ListEvents E = db_query E (\<lambda>now w. Inr (by_creation (tie_order E (tick w)) (events w)))"

text \<open>A NULL parameter equals nothing.\<close>

definition child_of :: "string option \<Rightarrow> event \<Rightarrow> bool" where
  "child_of p e \<longleftrightarrow> p \<noteq> None \<and> ev_parentid e = p"

definition ListEventsByParentID :: "env \<Rightarrow> string option \<Rightarrow> ('x db_scheme, event list result) state" where
  "ListEventsByParentID E p = db_query E (\<lambda>now w. Inr (by_creation (tie_order E (tick w)) (filter (child_of p) (events w))))"

definition ListEventsFiltered ::
  "env \<Rightarrow> events_filter \<Rightarrow> 32 word \<Rightarrow> 32 word \<Rightarrow> ('x db_scheme, event list result) state" where
  "ListEventsFiltered E f offset limit = db_query E (\<lambda>now w.
    if sint limit < 0 then Inl (ErrorString ''LIMIT must not be negative'')
    else if sint offset < 0 then Inl (ErrorString ''OFFSET must not be negative'')
    else Inr (take (nat (sint limit)) (drop (nat (sint offset))
      (by_creation_desc (tie_order E (tick w)) (filter (matches E f) (events w))))))"

definition retryable_row :: "string \<Rightarrow> event \<Rightarrow> bool" where
  "retryable_row i e \<longleftrightarrow>
    ev_id e = i \<and> (ev_status e = Some ''failed'' \<or> ev_status e = Some ''cancelled'')"

definition reset_row :: "int \<Rightarrow> event \<Rightarrow> event" where
  "reset_row now e = stamp now (e\<lparr> ev_status := Some ''pending'' \<rparr>)"

definition ResetTaskForRetry :: "env \<Rightarrow> string \<Rightarrow> ('x db_scheme, string option result) state" where
  "ResetTaskForRetry E i = db_exec E (\<lambda>now w.
    case find (retryable_row i) (events w) of
      None \<Rightarrow> Inl ErrNoRows
    | Some e \<Rightarrow> Inr (ev_priority e,
        w\<lparr> events := update_rows (retryable_row i) (reset_row now) (events w) \<rparr>))"

definition status_row :: "int \<Rightarrow> string option \<Rightarrow> event \<Rightarrow> event" where
  "status_row now st e = stamp now (e\<lparr> ev_status := st \<rparr>)"

definition result_row :: "int \<Rightarrow> string option \<Rightarrow> event \<Rightarrow> event" where
  "result_row now r e = stamp now (e\<lparr> ev_result := r \<rparr>)"

definition UpdateEventResult :: "env \<Rightarrow> string \<Rightarrow> string option \<Rightarrow> ('x db_scheme, unit result) state" where
  "UpdateEventResult E i r = db_exec E (\<lambda>now w. Inr ((),
    w\<lparr> events := update_rows (has_id i) (result_row now r) (events w) \<rparr>))"

definition UpdateEventStatus :: "env \<Rightarrow> string \<Rightarrow> string option \<Rightarrow> ('x db_scheme, unit result) state" where
  "UpdateEventStatus E i st = db_exec E (\<lambda>now w. Inr ((),
    w\<lparr> events := update_rows (has_id i) (status_row now st) (events w) \<rparr>))"

subsection \<open>event_logs.sql.go\<close>

definition GetDeliveryLogsForEvent :: "env \<Rightarrow> string \<Rightarrow> ('x db_scheme, event_delivery_log list result) state" where
  "GetDeliveryLogsForEvent E i = db_query E (\<lambda>now w.
    Inr (sort_key (\<lambda>l. sint (dl_attempt l)) (filter (\<lambda>l. dl_event_id l = i) (delivery_logs w))))"

record upsert_delivery_log_params =
  up_event_id :: string
  up_status :: string
  up_attempt :: "32 word"
  up_error_message :: "string option"

definition new_log :: "int \<Rightarrow> upsert_delivery_log_params \<Rightarrow> event_delivery_log" where
  "new_log now p = \<lparr>
    dl_event_id = up_event_id p, dl_status = up_status p, dl_attempt = up_attempt p,
    dl_error_message = up_error_message p, dl_created_at = Some now, dl_updated_at = Some now \<rparr>"

definition excluded_log :: "int \<Rightarrow> upsert_delivery_log_params \<Rightarrow> event_delivery_log \<Rightarrow> event_delivery_log" where
  "excluded_log now p l = l\<lparr>
    dl_status := up_status p, dl_attempt := up_attempt p,
    dl_error_message := up_error_message p, dl_updated_at := Some now \<rparr>"

definition UpsertDeliveryLog :: "env \<Rightarrow> upsert_delivery_log_params \<Rightarrow> ('x db_scheme, unit result) state" where
  "UpsertDeliveryLog E p = db_exec E (\<lambda>now w. Inr ((), w\<lparr> delivery_logs :=
    (if up_event_id p \<in> dl_event_id ` set (delivery_logs w)
     then update_rows (\<lambda>l. dl_event_id l = up_event_id p) (excluded_log now p) (delivery_logs w)
     else delivery_logs w @ [new_log now p]) \<rparr>))"

subsection \<open>idempotency.sql.go\<close>

record create_idempotency_key_params =
  ck_key :: string
  ck_event_id :: string
  ck_expires_at :: "gotime option"
  ck_metadata :: bytes

definition new_key :: "env \<Rightarrow> int \<Rightarrow> create_idempotency_key_params \<Rightarrow> idempotency_key" where
  "new_key E now p = \<lparr>
    ik_key = ck_key p, ik_event_id = ck_event_id p, ik_created_at = Some now,
    ik_expires_at = map_option (pg_time E) (ck_expires_at p), ik_metadata = ck_metadata p \<rparr>"

definition CreateIdempotencyKey :: "env \<Rightarrow> create_idempotency_key_params \<Rightarrow> ('x db_scheme, nat result) state" where
  "CreateIdempotencyKey E p = db_exec E (\<lambda>now w.
    if jparse (ck_metadata p) = None then Inl (ErrorString ''invalid input syntax for type json'')
    else if ck_expires_at p = None then
      Inl (ErrorString ''null value in column expires_at violates not-null constraint'')
    else if ck_key p \<in> ik_key ` set (idempotency_keys w) then Inr (0, w)
    else if ck_event_id p \<notin> ev_id ` set (events w) then
      Inl (ErrorString ''insert or update on table idempotency_keys violates foreign key constraint'')
    else Inr (1, w\<lparr> idempotency_keys := idempotency_keys w @ [new_key E now p] \<rparr>))"

text \<open>Strictly before now, strictly after now: a key that expires now is neither.\<close>

definition key_expired :: "int \<Rightarrow> idempotency_key \<Rightarrow> bool" where
  "key_expired now k \<longleftrightarrow> (case ik_expires_at k of None \<Rightarrow> False | Some x \<Rightarrow> x < now)"

definition key_active :: "int \<Rightarrow> idempotency_key \<Rightarrow> bool" where
  "key_active now k \<longleftrightarrow> (case ik_expires_at k of None \<Rightarrow> False | Some x \<Rightarrow> now < x)"

definition key_past :: "int \<Rightarrow> idempotency_key \<Rightarrow> bool" where
  "key_past now k \<longleftrightarrow> (case ik_expires_at k of None \<Rightarrow> False | Some x \<Rightarrow> x \<le> now)"

definition DeleteExpiredIdempotencyKeys :: "env \<Rightarrow> ('x db_scheme, nat result) state" where
  "DeleteExpiredIdempotencyKeys E = db_exec E (\<lambda>now w.
    Inr (count_rows (key_expired now) (idempotency_keys w),
      w\<lparr> idempotency_keys := filter (\<lambda>k. \<not> key_expired now k) (idempotency_keys w) \<rparr>))"

definition DeleteIdempotencyKey :: "env \<Rightarrow> string \<Rightarrow> ('x db_scheme, unit result) state" where
  "DeleteIdempotencyKey E k = db_exec E (\<lambda>now w. Inr ((),
    w\<lparr> idempotency_keys := filter (\<lambda>r. ik_key r \<noteq> k) (idempotency_keys w) \<rparr>))"

definition GetIdempotencyKey :: "env \<Rightarrow> string \<Rightarrow> ('x db_scheme, idempotency_key result) state" where
  "GetIdempotencyKey E k = db_query E (\<lambda>now w.
    case find (\<lambda>r. ik_key r = k \<and> key_active now r) (idempotency_keys w) of
      None \<Rightarrow> Inl ErrNoRows
    | Some r \<Rightarrow> Inr r)"

definition GetIdempotencyKeyStats :: "env \<Rightarrow> ('x db_scheme, (nat \<times> nat \<times> nat) result) state" where
  "GetIdempotencyKeyStats E = db_query E (\<lambda>now w.
    Inr (length (idempotency_keys w), count_rows (key_active now) (idempotency_keys w),
      count_rows (key_past now) (idempotency_keys w)))"

section \<open>One call\<close>

abbreviation next_state :: "'x ticking_scheme \<Rightarrow> 'x ticking_scheme" where
  "next_state w \<equiv> w\<lparr> tick := Suc (tick w) \<rparr>"

text \<open>The database answers the call that starts in a state.\<close>

definition answers :: "env \<Rightarrow> 'x ticking_scheme \<Rightarrow> bool" where
  "answers E w \<longleftrightarrow> db_fault E (tick w) = None"

text \<open>A database that answers every call.\<close>

definition db_up :: "env \<Rightarrow> bool" where
  "db_up E \<longleftrightarrow> (\<forall>t. db_fault E t = None)"

lemma db_up_answers [simp]: "db_up E \<Longrightarrow> answers E w"
  by (simp add: db_up_def answers_def)

lemma final_query [simp]: "final (db_query E f) w = next_state w"
  by (simp add: db_query_def)

lemma value_query:
  "value_of (db_query E f) w = (case db_fault E (tick w) of
     Some (applied, m) \<Rightarrow> Inl (ErrorString m) | None \<Rightarrow> f (db_now E (tick w)) (next_state w))"
  by (simp add: db_query_def split: option.split)

lemma value_query_ok [simp]:
  "answers E w \<Longrightarrow> value_of (db_query E f) w = f (db_now E (tick w)) (next_state w)"
  by (simp add: answers_def value_query)

lemma exec_unfold:
  "run_state (db_exec E f) w = (let w1 = next_state w in
     case f (db_now E (tick w)) w1 of
       Inl e \<Rightarrow> (case db_fault E (tick w) of Some (applied, m) \<Rightarrow> Inl (ErrorString m) | None \<Rightarrow> Inl e, w1)
     | Inr (a, w') \<Rightarrow> (case db_fault E (tick w) of
           None \<Rightarrow> (Inr a, w')
         | Some (applied, m) \<Rightarrow> (Inl (ErrorString m), if applied then w' else w1)))"
  by (auto simp: db_exec_def next_tick_def Let_def split: sum.split option.split prod.split)

lemma exec_ok:
  assumes "answers E w"
  shows "run_state (db_exec E f) w = (case f (db_now E (tick w)) (next_state w) of
     Inl e \<Rightarrow> (Inl e, next_state w) | Inr (a, w') \<Rightarrow> (Inr a, w'))"
  using assms by (simp add: exec_unfold answers_def Let_def split: sum.split prod.split)

lemma final_exec_ok [simp]:
  "answers E w \<Longrightarrow> final (db_exec E f) w = (case f (db_now E (tick w)) (next_state w) of
     Inl e \<Rightarrow> next_state w | Inr (a, w') \<Rightarrow> w')"
  by (simp add: final_def exec_ok split: sum.split prod.split)

lemma value_exec_ok [simp]:
  "answers E w \<Longrightarrow> value_of (db_exec E f) w = (case f (db_now E (tick w)) (next_state w) of
     Inl e \<Rightarrow> Inl e | Inr (a, w') \<Rightarrow> Inr a)"
  by (simp add: value_of_def exec_ok split: sum.split prod.split)

text \<open>A statement ends where it began, one tick later, or where it leads when applied.\<close>

lemma final_exec_cases:
  "final (db_exec E f) w = next_state w
    \<or> (\<exists>a. f (db_now E (tick w)) (next_state w) = Inr (a, final (db_exec E f) w))"
  by (auto simp: final_def exec_unfold Let_def split: sum.split option.split prod.split)

lemma value_exec_Inr:
  assumes "value_of (db_exec E f) w = Inr a"
  shows "answers E w \<and> f (db_now E (tick w)) (next_state w) = Inr (a, final (db_exec E f) w)"
  using assms
  by (auto simp: value_of_def final_def exec_unfold answers_def Let_def
      split: sum.splits option.splits prod.splits)

lemma value_query_Inr:
  "value_of (db_query E f) w = Inr a \<Longrightarrow> answers E w \<and> f (db_now E (tick w)) (next_state w) = Inr a"
  by (auto simp: value_query answers_def split: option.splits prod.splits)

lemma keeps_query [wf_intros]:
  "(\<And>w t. P w \<Longrightarrow> P (w\<lparr> tick := t \<rparr>)) \<Longrightarrow> keeps P (db_query E f)"
  by (simp add: keeps_def)

lemma keeps_exec:
  assumes "\<And>w t. P w \<Longrightarrow> P (w\<lparr> tick := t \<rparr>)"
    and "\<And>now w a w'. P w \<Longrightarrow> f now w = Inr (a, w') \<Longrightarrow> P w'"
  shows "keeps P (db_exec E f)"
proof (rule keepsI)
  fix w :: "'a db_scheme"
  assume "P w"
  then show "P (final (db_exec E f) w)"
    using final_exec_cases [of E f w] assms(1) [of w] assms(2) [OF assms(1)] by metis
qed

lemma frames_query [frame]: "(\<And>w t. g (w\<lparr> tick := t \<rparr>) = g w) \<Longrightarrow> frames g (db_query E f)"
  by (simp add: frames_def)

lemma frames_exec:
  assumes "\<And>w t. g (w\<lparr> tick := t \<rparr>) = g w"
    and "\<And>now w a w'. f now w = Inr (a, w') \<Longrightarrow> g w' = g w"
  shows "frames g (db_exec E f)"
  unfolding frames_def
proof
  fix w :: "'a db_scheme"
  show "g (final (db_exec E f) w) = g w"
    using final_exec_cases [of E f w] assms by metis
qed

section \<open>Guarded updates\<close>

text \<open>
  The updates of \<open>events\<close> share a shape: rows that pass a guard are rewritten, the guard names
  one identifier, the rewriting keeps it. An update is one-shot when no row it wrote passes
  the guard again; then of two calls in a row, the second finds nothing.
\<close>

locale row_update =
  fixes i :: string and guard :: "event \<Rightarrow> bool" and rewrite :: "event \<Rightarrow> event"
  assumes guard_id: "guard e \<Longrightarrow> ev_id e = i"
    and rewrite_id: "ev_id (rewrite e) = ev_id e"
begin

lemma ids_kept: "map ev_id (update_rows guard rewrite es) = map ev_id es"
  by (rule map_update_rows) (rule rewrite_id)

lemma lookup_same:
  "find_row ev_id i (update_rows guard rewrite es)
    = map_option (\<lambda>e. if guard e then rewrite e else e) (find_row ev_id i es)"
  by (rule find_row_update) (rule rewrite_id)

lemma lookup_other:
  assumes "j \<noteq> i"
  shows "find_row ev_id j (update_rows guard rewrite es) = find_row ev_id j es"
proof -
  have "find_row ev_id j (update_rows guard rewrite es)
      = map_option (\<lambda>e. if guard e then rewrite e else e) (find_row ev_id j es)"
    by (rule find_row_update) (rule rewrite_id)
  also have "\<dots> = find_row ev_id j es"
    using assms guard_id find_row_SomeD [of ev_id j es]
    by (cases "find_row ev_id j es") auto
  finally show ?thesis .
qed

lemma affected:
  assumes "distinct (map ev_id es)"
  shows "count_rows guard es = (case find_row ev_id i es of Some e \<Rightarrow> if guard e then 1 else 0 | None \<Rightarrow> 0)"
proof -
  have "count_rows guard es = count_rows (\<lambda>e. ev_id e = i \<and> guard e) es"
    using guard_id by (metis (mono_tags, lifting))
  then show ?thesis using count_rows_key [OF assms] by simp
qed

lemma found:
  assumes "distinct (map ev_id es)"
  shows "find guard es = (case find_row ev_id i es of Some e \<Rightarrow> if guard e then Some e else None | None \<Rightarrow> None)"
  using assms
proof (induction es)
  case (Cons e es)
  have none: "find guard es = None" if "ev_id e = i"
    using Cons.prems that guard_id by (fastforce simp: find_None_iff image_iff)
  show ?case
    using Cons none guard_id [of e] by (auto simp: find_row_Cons)
qed simp

end

locale one_shot = row_update +
  assumes done_once: "\<not> guard (rewrite e)"
begin

lemma none_left: "count_rows guard (update_rows guard rewrite es) = 0"
  using done_once by (auto simp: count_rows_def update_rows_def filter_empty_conv)

lemma find_none_left: "find guard (update_rows guard rewrite es) = None"
  using done_once by (auto simp: find_None_iff update_rows_def)

lemma repeat_nothing: "update_rows guard rewrite (update_rows guard rewrite es) = update_rows guard rewrite es"
  using done_once by (intro update_rows_none) (auto simp: update_rows_def)

end

interpretation cancel: one_shot i "pending_row i" "cancel_row now" for i now
  by unfold_locales (auto simp: pending_row_def cancel_row_def stamp_def)

interpretation reset: one_shot i "retryable_row i" "reset_row now" for i now
  by unfold_locales (auto simp: retryable_row_def reset_row_def stamp_def)

interpretation set_status: row_update i "has_id i" "status_row now st" for i now st
  by unfold_locales (auto simp: has_id_def status_row_def stamp_def)

interpretation set_result: row_update i "has_id i" "result_row now r" for i now r
  by unfold_locales (auto simp: has_id_def result_row_def stamp_def)

section \<open>The invariant of the tables\<close>

definition db_ok :: "'x db_scheme \<Rightarrow> bool" where
  "db_ok w \<longleftrightarrow>
    distinct (map ev_id (events w)) \<and> distinct (map dl_event_id (delivery_logs w))
    \<and> distinct (map ik_key (idempotency_keys w))
    \<and> (\<forall>k\<in>set (idempotency_keys w). ik_event_id k \<in> ev_id ` set (events w))
    \<and> (\<forall>e\<in>set (events w). ev_created_at e \<noteq> None)
    \<and> (\<forall>k\<in>set (idempotency_keys w). ik_expires_at k \<noteq> None)"

lemma db_ok_tick [simp]: "db_ok (w\<lparr> tick := t \<rparr>) = db_ok w"
  by (simp add: db_ok_def)

lemma db_ok_ids: "db_ok w \<Longrightarrow> distinct (map ev_id (events w))"
  by (simp add: db_ok_def)

text \<open>A rewriting that keeps identifiers and creation times keeps the invariant.\<close>

lemma db_ok_update:
  assumes "db_ok w" "\<And>e. ev_id (f e) = ev_id e" "\<And>e. ev_created_at (f e) = ev_created_at e"
  shows "db_ok (w\<lparr> events := update_rows P f (events w) \<rparr>)"
proof -
  have ids: "map ev_id (update_rows P f (events w)) = map ev_id (events w)"
    by (rule map_update_rows) (rule assms(2))
  then have "ev_id ` set (update_rows P f (events w)) = ev_id ` set (events w)"
    by (metis list.set_map)
  moreover have "\<forall>e\<in>set (update_rows P f (events w)). ev_created_at e \<noteq> None"
    using assms by (auto simp: db_ok_def update_rows_def)
  ultimately show ?thesis using assms(1) ids by (simp add: db_ok_def)
qed

lemma row_fields [simp]:
  "ev_id (cancel_row now e) = ev_id e" "ev_created_at (cancel_row now e) = ev_created_at e"
  "ev_id (reset_row now e) = ev_id e" "ev_created_at (reset_row now e) = ev_created_at e"
  "ev_id (status_row now st e) = ev_id e" "ev_created_at (status_row now st e) = ev_created_at e"
  "ev_id (result_row now r e) = ev_id e" "ev_created_at (result_row now r e) = ev_created_at e"
  by (simp_all add: cancel_row_def reset_row_def status_row_def result_row_def stamp_def)

lemma row_values [simp]:
  "ev_status (cancel_row now e) = Some ''cancelled''" "ev_status (reset_row now e) = Some ''pending''"
  "ev_status (status_row now st e) = st" "ev_status (result_row now r e) = ev_status e"
  "ev_result (cancel_row now e) = ev_result e" "ev_result (reset_row now e) = ev_result e"
  "ev_result (status_row now st e) = ev_result e" "ev_result (result_row now r e) = r"
  "ev_payload (cancel_row now e) = ev_payload e" "ev_payload (reset_row now e) = ev_payload e"
  "ev_payload (status_row now st e) = ev_payload e" "ev_payload (result_row now r e) = ev_payload e"
  "ev_type (cancel_row now e) = ev_type e" "ev_type (reset_row now e) = ev_type e"
  "ev_type (status_row now st e) = ev_type e" "ev_type (result_row now r e) = ev_type e"
  "ev_priority (cancel_row now e) = ev_priority e" "ev_priority (reset_row now e) = ev_priority e"
  "ev_priority (status_row now st e) = ev_priority e" "ev_priority (result_row now r e) = ev_priority e"
  "ev_parentid (cancel_row now e) = ev_parentid e" "ev_parentid (reset_row now e) = ev_parentid e"
  "ev_parentid (status_row now st e) = ev_parentid e" "ev_parentid (result_row now r e) = ev_parentid e"
  by (simp_all add: cancel_row_def reset_row_def status_row_def result_row_def stamp_def)

named_theorems statements \<open>the definitions of the statements\<close>

lemmas statement_defs [statements] =
  CancelEventIfPending_def CountEventsFiltered_def GetEventByID_def GetEventStatusCounts_def
  GetRecentProcessedCount_def InsertEvent_def ListEvents_def ListEventsByParentID_def
  ListEventsFiltered_def ResetTaskForRetry_def UpdateEventResult_def UpdateEventStatus_def
  GetDeliveryLogsForEvent_def UpsertDeliveryLog_def CreateIdempotencyKey_def
  DeleteExpiredIdempotencyKeys_def DeleteIdempotencyKey_def GetIdempotencyKey_def
  GetIdempotencyKeyStats_def

lemma ok_queries [wf_intros]:
  "keeps db_ok (CountEventsFiltered E f)" "keeps db_ok (GetEventByID E i)"
  "keeps db_ok (GetEventStatusCounts E)" "keeps db_ok (GetRecentProcessedCount E)"
  "keeps db_ok (ListEvents E)" "keeps db_ok (ListEventsByParentID E p)"
  "keeps db_ok (ListEventsFiltered E f off lim)" "keeps db_ok (GetDeliveryLogsForEvent E i)"
  "keeps db_ok (GetIdempotencyKey E k)" "keeps db_ok (GetIdempotencyKeyStats E)"
  by (simp_all add: statements keeps_query)

lemma ok_updates [wf_intros]:
  "keeps db_ok (CancelEventIfPending E i)" "keeps db_ok (ResetTaskForRetry E i)"
  "keeps db_ok (UpdateEventResult E i r)" "keeps db_ok (UpdateEventStatus E i st)"
  unfolding statements
  by (rule keeps_exec; auto intro!: db_ok_update split: option.splits)+

lemma ok_insert [wf_intros]: "keeps db_ok (InsertEvent E p)"
  unfolding statements
  by (rule keeps_exec) (auto simp: db_ok_def new_event_def split: if_splits)

lemma ok_log [wf_intros]: "keeps db_ok (UpsertDeliveryLog E p)"
  unfolding statements
  by (rule keeps_exec)
    (auto simp: db_ok_def new_log_def excluded_log_def map_update_rows split: if_splits)

lemma ok_keys [wf_intros]:
  "keeps db_ok (CreateIdempotencyKey E p)" "keeps db_ok (DeleteExpiredIdempotencyKeys E)"
  "keeps db_ok (DeleteIdempotencyKey E k)"
  unfolding statements
  by (rule keeps_exec; auto simp: db_ok_def new_key_def distinct_map_filter split: if_splits)+

section \<open>Each task as the statements leave it\<close>

definition lookup :: "'x db_scheme \<Rightarrow> string \<Rightarrow> event option" where
  "lookup w i = find_row ev_id i (events w)"

definition task_status :: "'x db_scheme \<Rightarrow> string \<Rightarrow> string option" where
  "task_status w i = Option.bind (lookup w i) ev_status"

lemma lookup_tick [simp]: "lookup (w\<lparr> tick := t \<rparr>) i = lookup w i"
  by (simp add: lookup_def)

lemma lookup_update:
  assumes "row_update i guard rewrite"
  shows "lookup (w\<lparr> events := update_rows guard rewrite (events w) \<rparr>) j
    = (if j = i then map_option (\<lambda>e. if guard e then rewrite e else e) (lookup w i) else lookup w j)"
  using row_update.lookup_same [OF assms] row_update.lookup_other [OF assms]
  by (simp add: lookup_def)

end
