(* ===== verification/Repository.thy ===== *)
theory Repository
  imports Database
begin

text \<open>
  \<open>internal/repository\<close>: the SQLC repository behind \<open>EventRepository\<close>, the admin repository,
  and \<open>EventStore\<close>, the adapter the worker pool reads its tasks through. The contract of the
  repository is the locale \<open>event_repository\<close>, interpreted on the SQLC functions.
\<close>

definition opt_text :: "string \<Rightarrow> string option" where
  "opt_text s = (if s = [] then None else Some s)"

section \<open>SQLCEventRepository\<close>

definition ErrNotCancellable :: goerr where
  "ErrNotCancellable = Sentinel ''repository.ErrNotCancellable''
     ''task cannot be cancelled: not found or not in pending state''"

text \<open>The \<open>status\<close> argument is not used: a saved task is pending.\<close>

definition SaveProcessedEvent ::
  "env \<Rightarrow> string \<Rightarrow> string \<Rightarrow> string \<Rightarrow> string \<Rightarrow> string \<Rightarrow> string \<Rightarrow> string \<Rightarrow> gotime option
    \<Rightarrow> ('x db_scheme, unit result) state" where
  "SaveProcessedEvent E i event_type payload status trace_id priority parent_id scheduled_at = do {
    created \<leftarrow> time_now E;
    updated \<leftarrow> time_now E;
    InsertEvent E \<lparr> in_id = i, in_payload = payload, in_status = Some ''pending'',
      in_created_at = Some created, in_updated_at = Some updated, in_type = event_type,
      in_trace_id = trace_id, in_priority = opt_text priority, in_parentid = opt_text parent_id,
      in_scheduled_at = scheduled_at \<rparr>
  }"

definition ListProcessedEvents :: "env \<Rightarrow> ('x db_scheme, event list result) state" where
  "ListProcessedEvents E = ListEvents E"

definition LogDeliveryStatus :: "env \<Rightarrow> string \<Rightarrow> string \<Rightarrow> int \<Rightarrow> string \<Rightarrow> ('x db_scheme, unit result) state" where
  "LogDeliveryStatus E i status attempt err_text = UpsertDeliveryLog E \<lparr> up_event_id = i,
    up_status = status, up_attempt = word_of_int attempt, up_error_message = opt_text err_text \<rparr>"

definition RepoUpdateEventStatus :: "env \<Rightarrow> string \<Rightarrow> string \<Rightarrow> ('x db_scheme, unit result) state" where
  "RepoUpdateEventStatus E i status = UpdateEventStatus E i (Some status)"

definition RepoUpdateEventResult :: "env \<Rightarrow> string \<Rightarrow> string \<Rightarrow> ('x db_scheme, unit result) state" where
  "RepoUpdateEventResult E i r = UpdateEventResult E i (Some r)"

definition CancelTask :: "env \<Rightarrow> string \<Rightarrow> ('x db_scheme, unit result) state" where
  "CancelTask E i = do {
    r \<leftarrow> CancelEventIfPending E i;
    (case r of
       Inl e \<Rightarrow> State_Monad.return (Inl e)
     | Inr affected \<Rightarrow> State_Monad.return (if affected = 0 then Inl ErrNotCancellable else Inr ()))
  }"

section \<open>AdminRepository\<close>

definition ErrNotRetryable :: goerr where
  "ErrNotRetryable = Sentinel ''repository.ErrNotRetryable''
     ''task cannot be retried: not found or not in a failed/cancelled state''"

record list_events_params =
  lp_status :: string
  lp_type :: string
  lp_priority :: string
  lp_search :: string
  lp_page :: int
  lp_page_size :: int

definition filter_of :: "list_events_params \<Rightarrow> events_filter" where
  "filter_of p = \<lparr> f_status = opt_text (lp_status p), f_type = opt_text (lp_type p),
    f_priority = opt_text (lp_priority p), f_search = opt_text (lp_search p) \<rparr>"

text \<open>\<open>int32((p.Page - 1) * p.PageSize)\<close>: a product of 64 bits, then cut to 32.\<close>

definition page_offset :: "int \<Rightarrow> int \<Rightarrow> 32 word" where
  "page_offset page page_size = ucast (word_of_int (page - 1) * word_of_int page_size :: 64 word)"

definition AdminListEvents :: "env \<Rightarrow> list_events_params \<Rightarrow> ('x db_scheme, (event list \<times> nat) result) state" where
  "AdminListEvents E p =
    (let page_size = (if lp_page_size p \<le> 0 then 20 else lp_page_size p);
         page = (if lp_page p \<le> 0 then 1 else lp_page p)
     in do {
      r \<leftarrow> CountEventsFiltered E (filter_of p);
      (case r of
         Inl e \<Rightarrow> State_Monad.return (Inl e)
       | Inr n \<Rightarrow> do {
           r \<leftarrow> ListEventsFiltered E (filter_of p) (page_offset page page_size) (word_of_int page_size);
           (case r of
              Inl e \<Rightarrow> State_Monad.return (Inl e)
            | Inr evs \<Rightarrow> State_Monad.return (Inr (evs, n)))
         })
    })"

definition GetChildTasks :: "env \<Rightarrow> string \<Rightarrow> ('x db_scheme, event list result) state" where
  "GetChildTasks E parent_id = ListEventsByParentID E (opt_text parent_id)"

definition GetStatusCounts :: "env \<Rightarrow> ('x db_scheme, (string \<times> nat) list result) state" where
  "GetStatusCounts E = do {
    r \<leftarrow> GetEventStatusCounts E;
    (case r of Inl e \<Rightarrow> State_Monad.return (Inl e) | Inr rows \<Rightarrow> State_Monad.return (Inr rows))
  }"

definition GetRetryHistory :: "env \<Rightarrow> string \<Rightarrow> ('x db_scheme, event_delivery_log list result) state" where
  "GetRetryHistory E i = GetDeliveryLogsForEvent E i"

definition AdminResetTaskForRetry :: "env \<Rightarrow> string \<Rightarrow> ('x db_scheme, string result) state" where
  "AdminResetTaskForRetry E i = do {
    r \<leftarrow> ResetTaskForRetry E i;
    State_Monad.return (case r of
      Inl e \<Rightarrow> if err_is e ErrNoRows then Inl ErrNotRetryable else Inl e
    | Inr priority \<Rightarrow> Inr (case priority of None \<Rightarrow> ''medium''
        | Some p \<Rightarrow> if p = [] then ''medium'' else p))
  }"

section \<open>EventStore\<close>

record request_wrapper =
  rw_payload :: string
  rw_trace_context :: string
  rw_next :: string

definition empty_wrapper :: request_wrapper where
  "empty_wrapper = \<lparr> rw_payload = [], rw_trace_context = [], rw_next = [] \<rparr>"

definition wrapper_names :: "string list" where
  "wrapper_names = [''payload'', ''trace_context'', ''next'']"

definition store_wrapper :: "request_wrapper store" where
  "store_wrapper v n t j =
    (if n = ''payload'' then (v\<lparr> rw_payload := t \<rparr>, NoErr)
     else if n = ''trace_context'' then
       map_prod (\<lambda>x. v\<lparr> rw_trace_context := x \<rparr>) (\<lambda>e. e) (decode_string (rw_trace_context v) j)
     else (v\<lparr> rw_next := t \<rparr>, NoErr))"

definition decode_wrapper :: "request_wrapper \<Rightarrow> json \<Rightarrow> request_wrapper \<times> decode_error" where
  "decode_wrapper = decode_struct wrapper_names store_wrapper"

text \<open>\<open>worker.Task\<close>, the value pulse hands to a handler.\<close>

record worker_task =
  wt_id :: string
  wt_type :: string
  wt_payload :: string
  wt_priority :: string
  wt_status :: string
  wt_metadata :: "(string, string) map"

definition text_or_empty :: "string option \<Rightarrow> string" where
  "text_or_empty v = (case v of None \<Rightarrow> [] | Some s \<Rightarrow> s)"

definition task_meta :: "event \<Rightarrow> request_wrapper \<Rightarrow> (string, string) map" where
  "task_meta e w =
    (let m0 = Map.empty;
         m1 = (if rw_trace_context w \<noteq> [] then m0(''trace_context'' \<mapsto> rw_trace_context w) else m0);
         m2 = (if ev_trace_id e \<noteq> [] then m1(''trace_id'' \<mapsto> ev_trace_id e) else m1);
         m3 = (if rw_next w \<noteq> [] then m2(''next'' \<mapsto> rw_next w) else m2)
     in m3(''root_task_id'' \<mapsto>
          (if text_or_empty (ev_parentid e) \<noteq> [] then text_or_empty (ev_parentid e) else ev_id e)))"

definition task_of :: "event \<Rightarrow> worker_task" where
  "task_of e = (case unmarshal decode_wrapper empty_wrapper (ev_payload e) of (w, ok) \<Rightarrow>
    \<lparr> wt_id = ev_id e, wt_type = ev_type e,
      wt_payload = (if ok \<and> rw_payload w \<noteq> [] then rw_payload w else ev_payload e),
      wt_priority = text_or_empty (ev_priority e), wt_status = text_or_empty (ev_status e),
      wt_metadata = task_meta e w \<rparr>)"

definition GetTask :: "env \<Rightarrow> string \<Rightarrow> ('x db_scheme, worker_task result) state" where
  "GetTask E i = do {
    r \<leftarrow> GetEventByID E i;
    State_Monad.return (case r of Inl e \<Rightarrow> Inl e | Inr ev \<Rightarrow> Inr (task_of ev))
  }"

definition UpdateStatus :: "env \<Rightarrow> string \<Rightarrow> string \<Rightarrow> ('x db_scheme, unit result) state" where
  "UpdateStatus E i status = RepoUpdateEventStatus E i status"

definition RecordAttempt :: "env \<Rightarrow> string \<Rightarrow> string \<Rightarrow> int \<Rightarrow> string \<Rightarrow> ('x db_scheme, unit result) state" where
  "RecordAttempt E i status attempt err_text = LogDeliveryStatus E i status attempt err_text"

section \<open>What the operations do to the tasks\<close>

lemma task_status_tick [simp]: "task_status (w\<lparr> tick := t \<rparr>) i = task_status w i"
  by (simp add: task_status_def)

lemma task_status_Some: "task_status w i = Some st \<longleftrightarrow> (\<exists>e. lookup w i = Some e \<and> ev_status e = Some st)"
  by (cases "lookup w i") (simp_all add: task_status_def)

lemma pending_affected:
  assumes "db_ok w"
  shows "count_rows (pending_row i) (events w) = (if task_status w i = Some ''pending'' then 1 else 0)"
  using cancel.affected [OF db_ok_ids [OF assms], of i] find_row_SomeD [of ev_id i "events w"]
  by (auto simp: task_status_def lookup_def pending_row_def split: option.splits)

lemma retryable_found:
  assumes "db_ok w"
  shows "find (retryable_row i) (events w)
    = (case lookup w i of None \<Rightarrow> None
       | Some e \<Rightarrow> if ev_status e = Some ''failed'' \<or> ev_status e = Some ''cancelled'' then Some e else None)"
  using reset.found [OF db_ok_ids [OF assms], of i] find_row_SomeD [of ev_id i "events w"]
  by (auto simp: lookup_def retryable_row_def split: option.splits)

lemma lookup_id: "lookup w i = Some e \<Longrightarrow> ev_id e = i"
  by (auto simp: lookup_def dest: find_row_SomeD)

subsection \<open>Cancelling\<close>

lemma cancel_value:
  assumes "db_ok w" "answers E w"
  shows "value_of (CancelTask E i) w
    = (if task_status w i = Some ''pending'' then Inr () else Inl ErrNotCancellable)"
  using assms by (simp add: CancelTask_def CancelEventIfPending_def pending_affected)

lemma cancel_lookup:
  assumes "answers E w"
  shows "lookup (final (CancelTask E i) w) j
    = (if j = i \<and> task_status w i = Some ''pending''
       then map_option (cancel_row (db_now E (tick w))) (lookup w i) else lookup w j)"
proof -
  have "final (CancelTask E i) w
      = (next_state w)\<lparr> events := update_rows (pending_row i) (cancel_row (db_now E (tick w))) (events (next_state w)) \<rparr>"
    using assms by (simp add: CancelTask_def CancelEventIfPending_def)
  then show ?thesis
    using lookup_update [OF cancel.row_update_axioms, of i "db_now E (tick w)" "next_state w" j]
      lookup_id [of w i]
    by (cases "lookup w i") (auto simp: task_status_def pending_row_def)
qed

lemma cancel_Inr:
  assumes "value_of (CancelTask E i) w = Inr ()"
  shows "answers E w"
  using assms
  by (auto simp: CancelTask_def CancelEventIfPending_def split: sum.splits if_splits
      dest: value_exec_Inr)

subsection \<open>Retrying\<close>

definition retryable :: "'x db_scheme \<Rightarrow> string \<Rightarrow> bool" where
  "retryable w i \<longleftrightarrow> task_status w i = Some ''failed'' \<or> task_status w i = Some ''cancelled''"

definition retry_priority :: "'x db_scheme \<Rightarrow> string \<Rightarrow> string" where
  "retry_priority w i = (case lookup w i of None \<Rightarrow> ''medium''
     | Some e \<Rightarrow> if text_or_empty (ev_priority e) = [] then ''medium'' else text_or_empty (ev_priority e))"

lemma err_is_refl [simp]: "err_is ErrNoRows ErrNoRows" "err_is ErrNotRetryable ErrNotRetryable"
  "err_is ErrNotCancellable ErrNotCancellable"
  by (simp_all add: ErrNoRows_def ErrNotRetryable_def ErrNotCancellable_def)

lemma reset_value:
  assumes "db_ok w" "answers E w"
  shows "value_of (AdminResetTaskForRetry E i) w
    = (if retryable w i then Inr (retry_priority w i) else Inl ErrNotRetryable)"
  using assms retryable_found [of "next_state w" i]
  by (auto simp: AdminResetTaskForRetry_def ResetTaskForRetry_def retryable_def task_status_def
      retry_priority_def text_or_empty_def split: option.splits)

lemma reset_lookup:
  assumes "db_ok w" "answers E w"
  shows "lookup (final (AdminResetTaskForRetry E i) w) j
    = (if j = i \<and> retryable w i then map_option (reset_row (db_now E (tick w))) (lookup w i)
       else lookup w j)"
proof (cases "find (retryable_row i) (events w)")
  case None
  then have "\<not> retryable w i"
    using retryable_found [OF assms(1), of i]
    by (auto simp: retryable_def task_status_def split: option.splits if_splits)
  with None assms(2) show ?thesis by (simp add: AdminResetTaskForRetry_def ResetTaskForRetry_def)
next
  case (Some e)
  then have r: "retryable w i" and e: "lookup w i = Some e"
    using retryable_found [OF assms(1), of i]
    by (auto simp: retryable_def task_status_def split: option.splits if_splits)
  have "final (AdminResetTaskForRetry E i) w
      = (next_state w)\<lparr> events := update_rows (retryable_row i) (reset_row (db_now E (tick w))) (events (next_state w)) \<rparr>"
    using Some assms(2) by (simp add: AdminResetTaskForRetry_def ResetTaskForRetry_def)
  then show ?thesis
    using lookup_update [OF reset.row_update_axioms, of i "db_now E (tick w)" "next_state w" j]
      lookup_id [OF e] r e
    by (auto simp: retryable_def task_status_def retryable_row_def)
qed

lemma reset_Inr: "value_of (AdminResetTaskForRetry E i) w = Inr p \<Longrightarrow> answers E w"
  using value_exec_Inr [of E _ w]
  by (fastforce simp: AdminResetTaskForRetry_def ResetTaskForRetry_def split: sum.splits if_splits)

subsection \<open>Reading, status and result\<close>

lemma get_event_value:
  "answers E w \<Longrightarrow> value_of (GetEventByID E i) w
    = (case lookup w i of None \<Rightarrow> Inl ErrNoRows | Some e \<Rightarrow> Inr e)"
  by (simp add: GetEventByID_def lookup_def)

lemma get_event_Inr: "value_of (GetEventByID E i) w = Inr e \<Longrightarrow> answers E w \<and> lookup w i = Some e"
  unfolding GetEventByID_def
  by (drule value_query_Inr) (auto simp: lookup_def split: option.splits)

lemma get_event_final [simp]: "final (GetEventByID E i) w = next_state w"
  by (simp add: GetEventByID_def)

lemma status_lookup:
  assumes "answers E w"
  shows "lookup (final (RepoUpdateEventStatus E i st) w) j
    = (if j = i then map_option (status_row (db_now E (tick w)) (Some st)) (lookup w i) else lookup w j)"
proof -
  have "final (RepoUpdateEventStatus E i st) w
      = (next_state w)\<lparr> events := update_rows (has_id i) (status_row (db_now E (tick w)) (Some st)) (events (next_state w)) \<rparr>"
    using assms by (simp add: RepoUpdateEventStatus_def UpdateEventStatus_def)
  then show ?thesis
    using lookup_update [OF set_status.row_update_axioms, of i "db_now E (tick w)" "Some st" "next_state w" j]
      lookup_id [of w i]
    by (cases "lookup w i") (auto simp: has_id_def)
qed

lemma result_lookup:
  assumes "answers E w"
  shows "lookup (final (RepoUpdateEventResult E i r) w) j
    = (if j = i then map_option (result_row (db_now E (tick w)) (Some r)) (lookup w i) else lookup w j)"
proof -
  have "final (RepoUpdateEventResult E i r) w
      = (next_state w)\<lparr> events := update_rows (has_id i) (result_row (db_now E (tick w)) (Some r)) (events (next_state w)) \<rparr>"
    using assms by (simp add: RepoUpdateEventResult_def UpdateEventResult_def)
  then show ?thesis
    using lookup_update [OF set_result.row_update_axioms, of i "db_now E (tick w)" "Some r" "next_state w" j]
      lookup_id [of w i]
    by (cases "lookup w i") (auto simp: has_id_def)
qed

lemma status_Inr: "value_of (RepoUpdateEventStatus E i st) w = Inr () \<Longrightarrow> answers E w"
  and result_Inr: "value_of (RepoUpdateEventResult E i r) w = Inr () \<Longrightarrow> answers E w"
  unfolding RepoUpdateEventStatus_def UpdateEventStatus_def RepoUpdateEventResult_def UpdateEventResult_def
  by (blast dest: value_exec_Inr)+

subsection \<open>Saving\<close>

text \<open>The row a save writes, given the two readings of the clock.\<close>

definition saved_event :: "env \<Rightarrow> nat \<Rightarrow> string \<Rightarrow> string \<Rightarrow> string \<Rightarrow> string \<Rightarrow> string \<Rightarrow> string
    \<Rightarrow> gotime option \<Rightarrow> event" where
  "saved_event E t i event_type payload trace_id priority parent_id scheduled_at = \<lparr>
    ev_id = i, ev_type = event_type, ev_payload = payload,
    ev_created_at = Some (pg_time E (clock E t)), ev_status = Some ''pending'',
    ev_updated_at = Some (pg_time E (clock E (Suc t))), ev_trace_id = trace_id,
    ev_priority = opt_text priority, ev_parentid = opt_text parent_id,
    ev_scheduled_at = map_option (pg_time E) scheduled_at, ev_result = None \<rparr>"

lemma lookup_None: "lookup w i = None \<longleftrightarrow> i \<notin> ev_id ` set (events w)"
  by (simp add: lookup_def find_row_None_iff)

lemma lookup_append:
  "lookup (w\<lparr> events := events w @ [e] \<rparr>) j
    = (case lookup w j of Some r \<Rightarrow> Some r | None \<Rightarrow> if ev_id e = j then Some e else None)"
  by (simp add: lookup_def find_row_append find_row_Cons split: option.split)

lemma save_Inr:
  assumes "value_of (SaveProcessedEvent E i ty pl st tr pr pa sch) w = Inr ()"
  shows "lookup w i = None
    \<and> final (SaveProcessedEvent E i ty pl st tr pr pa sch) w
      = w\<lparr> tick := Suc (Suc (Suc (tick w))), events := events w @ [saved_event E (tick w) i ty pl tr pr pa sch] \<rparr>"
proof -
  obtain p where p: "p = \<lparr> in_id = i, in_payload = pl, in_status = Some ''pending'',
      in_created_at = Some (clock E (tick w)), in_updated_at = Some (clock E (Suc (tick w))),
      in_type = ty, in_trace_id = tr, in_priority = opt_text pr, in_parentid = opt_text pa,
      in_scheduled_at = sch \<rparr>" by blast
  define w2 where "w2 = w\<lparr> tick := Suc (Suc (tick w)) \<rparr>"
  have "value_of (InsertEvent E p) w2 = Inr ()"
    using assms by (simp add: SaveProcessedEvent_def p w2_def)
  then have "lookup w i = None \<and> final (InsertEvent E p) w2
      = w\<lparr> tick := Suc (Suc (Suc (tick w))), events := events w @ [new_event E p] \<rparr>"
    unfolding InsertEvent_def
    by (auto dest!: value_exec_Inr simp: lookup_None w2_def p split: if_splits)
  moreover have "new_event E p = saved_event E (tick w) i ty pl tr pr pa sch"
    by (simp add: new_event_def saved_event_def p)
  moreover have "final (SaveProcessedEvent E i ty pl st tr pr pa sch) w = final (InsertEvent E p) w2"
    by (simp add: SaveProcessedEvent_def p w2_def)
  ultimately show ?thesis by (simp only:)
qed

lemma save_value:
  assumes "answers E (w\<lparr> tick := Suc (Suc (tick w)) \<rparr>)" "lookup w i = None"
  shows "value_of (SaveProcessedEvent E i ty pl st tr pr pa sch) w = Inr ()"
  using assms by (simp add: SaveProcessedEvent_def InsertEvent_def lookup_None)

lemma save_lookup:
  assumes "value_of (SaveProcessedEvent E i ty pl st tr pr pa sch) w = Inr ()"
  shows "lookup (final (SaveProcessedEvent E i ty pl st tr pr pa sch) w) j
    = (if j = i then Some (saved_event E (tick w) i ty pl tr pr pa sch) else lookup w j)"
  using save_Inr [OF assms]
  by (auto simp: lookup_def find_row_append find_row_Cons saved_event_def split: option.split)

subsection \<open>The invariant\<close>

lemma keeps_tick [wf_intros]: "keeps db_ok next_tick"
  by (simp add: keeps_def)

lemma keeps_time_now [wf_intros]: "keeps db_ok (time_now E)"
  by (simp add: keeps_def)

lemma ok_repository [wf_intros]:
  "keeps db_ok (SaveProcessedEvent E i ty pl st tr pr pa sch)" "keeps db_ok (ListProcessedEvents E)"
  "keeps db_ok (LogDeliveryStatus E i st att err)" "keeps db_ok (RepoUpdateEventStatus E i st)"
  "keeps db_ok (RepoUpdateEventResult E i r)" "keeps db_ok (CancelTask E i)"
  "keeps db_ok (GetChildTasks E i)" "keeps db_ok (GetStatusCounts E)"
  "keeps db_ok (GetRetryHistory E i)" "keeps db_ok (AdminResetTaskForRetry E i)"
  "keeps db_ok (GetTask E i)" "keeps db_ok (UpdateStatus E i st)" "keeps db_ok (RecordAttempt E i st att err)"
  unfolding SaveProcessedEvent_def ListProcessedEvents_def LogDeliveryStatus_def
    RepoUpdateEventStatus_def RepoUpdateEventResult_def CancelTask_def GetChildTasks_def
    GetStatusCounts_def GetRetryHistory_def AdminResetTaskForRetry_def GetTask_def UpdateStatus_def
    RecordAttempt_def
  by (intro wf_intros)+

lemma ok_admin_list [wf_intros]: "keeps db_ok (AdminListEvents E p)"
  unfolding AdminListEvents_def Let_def by (intro wf_intros)

section \<open>The contract of the repository\<close>

text \<open>
  What a client of \<open>EventRepository\<close> may rely on, over the view \<open>id \<mapsto> task\<close>: a successful
  operation has its effect on the task it names and on no other, whatever the database does.
\<close>

locale event_repository =
  fixes inv :: "'s \<Rightarrow> bool" and view :: "'s \<Rightarrow> string \<Rightarrow> event option"
    and get :: "string \<Rightarrow> ('s, event result) state"
    and set_status :: "string \<Rightarrow> string \<Rightarrow> ('s, unit result) state"
    and set_result :: "string \<Rightarrow> string \<Rightarrow> ('s, unit result) state"
    and cancel :: "string \<Rightarrow> ('s, unit result) state"
  assumes inv_kept: "keeps inv (get i)" "keeps inv (set_status i x)" "keeps inv (set_result i x)"
      "keeps inv (cancel i)"
    and get_law: "value_of (get i) s = Inr e \<Longrightarrow> view s i = Some e"
    and get_frame: "view (final (get i) s) = view s"
    and status_law: "value_of (set_status i x) s = Inr () \<Longrightarrow> view s i = Some e \<Longrightarrow>
      \<exists>e'. view (final (set_status i x) s) = (view s)(i \<mapsto> e') \<and> ev_status e' = Some x \<and> ev_result e' = ev_result e"
    and result_law: "value_of (set_result i x) s = Inr () \<Longrightarrow> view s i = Some e \<Longrightarrow>
      \<exists>e'. view (final (set_result i x) s) = (view s)(i \<mapsto> e') \<and> ev_result e' = Some x \<and> ev_status e' = ev_status e"
    and cancel_law: "inv s \<Longrightarrow> value_of (cancel i) s = Inr () \<Longrightarrow>
      \<exists>e e'. view s i = Some e \<and> ev_status e = Some ''pending'' \<and>
        view (final (cancel i) s) = (view s)(i \<mapsto> e') \<and> ev_status e' = Some ''cancelled'' \<and> ev_result e' = ev_result e"
begin

lemma cancelled_once:
  assumes "inv s" "value_of (cancel i) s = Inr ()"
  shows "value_of (cancel i) (final (cancel i) s) \<noteq> Inr ()"
proof
  assume again: "value_of (cancel i) (final (cancel i) s) = Inr ()"
  have "inv (final (cancel i) s)" using keepsD inv_kept(4) assms(1) .
  from cancel_law [OF this again] cancel_law [OF assms] show False by auto
qed

lemma get_after_status:
  assumes "value_of (set_status i x) s = Inr ()" "view s i = Some e0"
    and "value_of (get i) (final (set_status i x) s) = Inr e"
  shows "ev_status e = Some x \<and> ev_result e = ev_result e0"
  using status_law [OF assms(1,2)] get_law [OF assms(3)] by auto

lemma result_survives_status:
  assumes "value_of (set_result i r) s = Inr ()" "view s i = Some e0"
    and "value_of (set_status i x) (final (set_result i r) s) = Inr ()"
    and "value_of (get i) (final (set_status i x) (final (set_result i r) s)) = Inr e"
  shows "ev_result e = Some r \<and> ev_status e = Some x"
proof -
  obtain e1 where "view (final (set_result i r) s) = (view s)(i \<mapsto> e1)" "ev_result e1 = Some r"
    using result_law [OF assms(1,2)] by blast
  then show ?thesis using get_after_status [OF assms(3) _ assms(4), of e1] by simp
qed

end

interpretation sqlc: event_repository "db_ok :: 'x db_scheme \<Rightarrow> bool" lookup "GetEventByID E"
  "RepoUpdateEventStatus E" "RepoUpdateEventResult E" "CancelTask E" for E
proof (unfold_locales, goal_cases)
  case (7 i x s e)
  then show ?case
    using status_lookup [OF status_Inr [OF 7(1)], of i x]
    by (intro exI [of _ "status_row (db_now E (tick s)) (Some x) e"]) (auto simp: fun_eq_iff)
next
  case (8 i x s e)
  then show ?case
    using result_lookup [OF result_Inr [OF 8(1)], of i x]
    by (intro exI [of _ "result_row (db_now E (tick s)) (Some x) e"]) (auto simp: fun_eq_iff)
next
  case (9 s i)
  then have a: "answers E s" by (intro cancel_Inr)
  with 9 have "task_status s i = Some ''pending''"
    using cancel_value [of s E i] by (simp split: if_splits)
  then obtain e where "lookup s i = Some e" "ev_status e = Some ''pending''"
    by (auto simp: task_status_Some)
  then show ?case
    using cancel_lookup [OF a, of i] \<open>task_status s i = _\<close>
    by (intro exI [of _ e] exI [of _ "cancel_row (db_now E (tick s)) e"]) (auto simp: fun_eq_iff)
qed (auto intro: wf_intros dest: get_event_Inr simp: fun_eq_iff)

end
