(* ===== verification/Validator.thy ===== *)
theory Validator
  imports Go_Decode
begin

text \<open>
  \<open>internal/service/task_validator.go\<close>: which payloads are accepted for which task type. The
  anonymous structs the payload is decoded into are records; \<open>None\<close> is the nil error.
\<close>

section \<open>The payload structs\<close>

record resize_params =
  rp_image_url :: string
  rp_width :: int
  rp_height :: int
  rp_mode :: string
  rp_output_format :: string
  rp_quality :: int

definition empty_resize :: resize_params where
  "empty_resize = \<lparr> rp_image_url = [], rp_width = 0, rp_height = 0, rp_mode = [],
    rp_output_format = [], rp_quality = 0 \<rparr>"

definition resize_names :: "string list" where
  "resize_names = [''image_url'', ''width'', ''height'', ''mode'', ''output_format'', ''quality'']"

definition store_resize :: "resize_params store" where
  "store_resize p n t j =
    (if n = ''image_url'' then map_prod (\<lambda>x. p\<lparr> rp_image_url := x \<rparr>) (\<lambda>e. e) (decode_string (rp_image_url p) j)
     else if n = ''width'' then map_prod (\<lambda>x. p\<lparr> rp_width := x \<rparr>) (\<lambda>e. e) (decode_int (rp_width p) j)
     else if n = ''height'' then map_prod (\<lambda>x. p\<lparr> rp_height := x \<rparr>) (\<lambda>e. e) (decode_int (rp_height p) j)
     else if n = ''mode'' then map_prod (\<lambda>x. p\<lparr> rp_mode := x \<rparr>) (\<lambda>e. e) (decode_string (rp_mode p) j)
     else if n = ''output_format'' then
       map_prod (\<lambda>x. p\<lparr> rp_output_format := x \<rparr>) (\<lambda>e. e) (decode_string (rp_output_format p) j)
     else map_prod (\<lambda>x. p\<lparr> rp_quality := x \<rparr>) (\<lambda>e. e) (decode_int (rp_quality p) j))"

definition decode_resize :: "resize_params \<Rightarrow> json \<Rightarrow> resize_params \<times> decode_error" where
  "decode_resize = decode_struct resize_names store_resize"

text \<open>\<open>scrape_url\<close> has one field, a string.\<close>

definition decode_url :: "string \<Rightarrow> json \<Rightarrow> string \<times> decode_error" where
  "decode_url = decode_struct [''url''] (\<lambda>v n t j. decode_string v j)"

text \<open>\<open>map[string]json.RawMessage\<close> takes any object, and null.\<close>

definition decode_raw_map :: "unit \<Rightarrow> json \<Rightarrow> unit \<times> decode_error" where
  "decode_raw_map v j = (v, case j of JObj ms \<Rightarrow> NoErr | JNull \<Rightarrow> NoErr | _ \<Rightarrow> Saved)"

section \<open>Validate\<close>

definition check_resize :: "resize_params \<Rightarrow> goerr option" where
  "check_resize p =
    (if rp_image_url p = [] then Some (ErrorString ''image_url is required'')
     else if rp_width p \<le> 0 \<or> rp_height p \<le> 0 then Some (ErrorString ''width and height must be > 0'')
     else if rp_mode p \<noteq> [] \<and> rp_mode p \<noteq> ''fit'' \<and> rp_mode p \<noteq> ''fill'' \<and> rp_mode p \<noteq> ''stretch''
       then Some (ErrorString ''mode must be fit, fill, or stretch'')
     else if rp_output_format p \<noteq> [] \<and> rp_output_format p \<noteq> ''jpeg'' \<and> rp_output_format p \<noteq> ''png''
       then Some (ErrorString ''output_format must be jpeg or png'')
     else if rp_quality p < 0 \<or> rp_quality p > 100 then Some (ErrorString ''quality must be between 0 and 100'')
     else None)"

definition Validate :: "string \<Rightarrow> string \<Rightarrow> goerr option" where
  "Validate task_type payload =
    (if task_type = ''resize_image'' then
       (case unmarshal decode_resize empty_resize payload of
          (p, ok) \<Rightarrow> if \<not> ok then Some (ErrorString ''invalid payload format for resize_image'')
                    else check_resize p)
     else if task_type = ''scrape_url'' then
       (case unmarshal decode_url [] payload of
          (url, ok) \<Rightarrow> if \<not> ok then Some (ErrorString ''invalid payload format for scrape_url'')
                      else if url = [] then Some (ErrorString ''url is required'') else None)
     else if task_type = ''generate_report'' then
       (if \<not> snd (unmarshal decode_raw_map () payload)
        then Some (ErrorString ''invalid payload format for generate_report'') else None)
     else Some (ErrorString ''unsupported task type''))"

section \<open>What an accepted payload guarantees\<close>

text \<open>The parameters a worker will read, when the payload was accepted.\<close>

definition resize_ok :: "resize_params \<Rightarrow> bool" where
  "resize_ok p \<longleftrightarrow> rp_image_url p \<noteq> [] \<and> 0 < rp_width p \<and> 0 < rp_height p
    \<and> rp_mode p \<in> {[], ''fit'', ''fill'', ''stretch''} \<and> rp_output_format p \<in> {[], ''jpeg'', ''png''}
    \<and> 0 \<le> rp_quality p \<and> rp_quality p \<le> 100"

lemma check_resize_None: "check_resize p = None \<longleftrightarrow> resize_ok p"
  by (auto simp: check_resize_def resize_ok_def)

lemma unmarshal_ok: "snd (unmarshal d v s) \<longleftrightarrow> (\<exists>j. jparse s = Some j \<and> snd (d v j) = NoErr)"
  by (simp add: unmarshal_def split: option.split prod.split)

lemma Validate_type: "Validate ty s = None \<Longrightarrow> ty \<in> {''resize_image'', ''scrape_url'', ''generate_report''}"
  by (auto simp: Validate_def split: if_splits)

lemma Validate_parses: "Validate ty s = None \<Longrightarrow> \<exists>j. jparse s = Some j"
  using unmarshal_ok [of decode_resize empty_resize s] unmarshal_ok [of decode_url "[]" s]
    unmarshal_ok [of decode_raw_map "()" s]
  by (auto simp: Validate_def split: if_splits prod.splits)

section \<open>The stored form of a payload is judged alike\<close>

lemma decode_resize_hesc: "jwf j \<Longrightarrow> decode_resize p (jhesc j) = decode_resize p j"
  unfolding decode_resize_def
  by (rule decode_struct_hesc) (simp_all add: stable_def store_resize_def)

lemma decode_url_hesc: "jwf j \<Longrightarrow> decode_url v (jhesc j) = decode_url v j"
  unfolding decode_url_def by (rule decode_struct_hesc) (simp_all add: stable_def)

lemma decode_raw_map_hesc: "decode_raw_map v (jhesc j) = decode_raw_map v j"
  by (cases j) (simp_all add: decode_raw_map_def)

lemma Validate_compact:
  assumes "compact s = Some t"
  shows "Validate ty t = Validate ty s"
  using unmarshal_compact [OF assms, of decode_resize] unmarshal_compact [OF assms, of decode_url]
    unmarshal_compact [OF assms, of decode_raw_map]
  by (simp add: Validate_def decode_resize_hesc decode_url_hesc decode_raw_map_hesc)

end
