(* ===== verification/Task_Request.thy ===== *)
theory Task_Request
  imports Repository Validator
begin

text \<open>
  \<open>TaskRequest\<close> of \<open>internal/handler/task_handler.go\<close>: the value a client submits, the text that
  is stored for it, and what the worker side reads of that text. Main results: a stored request
  is read back (locale \<open>json_codec\<close>), and \<open>EventStore\<close> hands the worker the payload, the next
  step and the trace context that were stored.
\<close>

section \<open>Requests\<close>

datatype task_request = TaskRequest
  (tr_type: string) (tr_payload: string) (tr_priority: string)
  (tr_execute_at: "gotime option") (tr_next: "task_request option") (tr_trace: string)

text \<open>A nil \<open>RawMessage\<close> is the empty text; decoding never stores an empty one.\<close>

definition empty_request :: task_request where
  "empty_request = TaskRequest [] [] [] None None []"

definition request_names :: "string list" where
  "request_names = [''type'', ''payload'', ''priority'', ''execute_at'', ''next'', ''trace_context'']"

section \<open>Reading\<close>

definition store_request :: "(task_request \<Rightarrow> json \<Rightarrow> task_request \<times> decode_error) \<Rightarrow> task_request store" where
  "store_request next_step r n t j = (case r of TaskRequest ty pl pr ex nx tc \<Rightarrow>
    if n = ''type'' then map_prod (\<lambda>x. TaskRequest x pl pr ex nx tc) (\<lambda>e. e) (decode_string ty j)
    else if n = ''payload'' then (TaskRequest ty t pr ex nx tc, NoErr)
    else if n = ''priority'' then map_prod (\<lambda>x. TaskRequest ty pl x ex nx tc) (\<lambda>e. e) (decode_string pr j)
    else if n = ''execute_at'' then map_prod (\<lambda>x. TaskRequest ty pl pr x nx tc) (\<lambda>e. e) (decode_time ex j)
    else if n = ''next'' then
      (if j = JNull then (TaskRequest ty pl pr ex None tc, NoErr)
       else map_prod (\<lambda>x. TaskRequest ty pl pr ex (Some x) tc) (\<lambda>e. e)
         (next_step (case nx of None \<Rightarrow> empty_request | Some x \<Rightarrow> x) j))
    else map_prod (\<lambda>x. TaskRequest ty pl pr ex nx x) (\<lambda>e. e) (decode_string tc j))"

lemma store_request_cong [fundef_cong]:
  assumes "r = r'" "n = n'" "t = t'" "j = j'" "\<And>v. f v j' = f' v j'"
  shows "store_request f r n t j = store_request f' r' n' t' j'"
  using assms by (cases r') (simp add: store_request_def)

lemma decode_members_cong [fundef_cong]:
  assumes "names = names'" "v = v'" "ms = ms'"
    and "\<And>v n k t j. (k, t, j) \<in> set ms' \<Longrightarrow> st v n t j = st' v n t j"
  shows "decode_members names st v ms = decode_members names' st' v' ms'"
  unfolding assms(1-3) using assms(4)
proof (induction ms' arbitrary: v')
  case (Cons m ms)
  obtain k t j where m: "m = (k, t, j)" by (cases m)
  have "st u n t j = st' u n t j" for u n using Cons.prems [of k] by (simp add: m)
  moreover have "decode_members names' st u ms = decode_members names' st' u ms" for u
    using Cons.prems by (intro Cons.IH) (meson list.set_intros(2))
  ultimately show ?case by (simp add: m split: option.split prod.split)
qed simp

lemma decode_struct_cong [fundef_cong]:
  assumes "names = names'" "v = v'" "j = j'"
    and "\<And>v n k t i ms. j' = JObj ms \<Longrightarrow> (k, t, i) \<in> set ms \<Longrightarrow> st v n t i = st' v n t i"
  shows "decode_struct names st v j = decode_struct names' st' v' j'"
  using assms by (auto simp: decode_struct_def split: json.split intro: decode_members_cong)

lemma member_size: "(k, t, i) \<in> set ms \<Longrightarrow> size i < size (JObj ms)"
  by (induction ms) auto

function decode_request :: "task_request \<Rightarrow> json \<Rightarrow> task_request \<times> decode_error" where
  "decode_request r j =
    decode_struct request_names (\<lambda>v n t i. store_request (\<lambda>v i. decode_request v i) v n t i) r j"
  by pat_completeness auto
termination
  by (relation "measure (\<lambda>(r, j). size j)") (auto dest: member_size)

declare decode_request.simps [simp del]

section \<open>Writing\<close>

text \<open>\<open>RawMessage.MarshalJSON\<close> gives null for nil; the encoder compacts what it gets.\<close>

definition raw_json :: "string \<Rightarrow> json option" where
  "raw_json s = (if s = [] then Some JNull else map_option jhesc (jparse s))"

definition time_member :: "gotime option \<Rightarrow> (string \<times> string \<times> json) list option" where
  "time_member t = (case t of None \<Rightarrow> Some []
    | Some t \<Rightarrow> map_option (\<lambda>s. [member ''execute_at'' (JStr s)]) (time_json t))"

definition trace_member :: "string \<Rightarrow> (string \<times> string \<times> json) list" where
  "trace_member tc = (if tc = [] then [] else [member ''trace_context'' (jstring tc)])"

fun request_json :: "task_request \<Rightarrow> json option" where
  "request_json (TaskRequest ty pl pr ex nx tc) = do {
    p \<leftarrow> raw_json pl;
    t \<leftarrow> time_member ex;
    n \<leftarrow> (case nx of None \<Rightarrow> Some [] | Some r \<Rightarrow> map_option (\<lambda>j. [member ''next'' j]) (request_json r));
    Some (JObj ([member ''type'' (jstring ty), member ''payload'' p, member ''priority'' (jstring pr)]
      @ t @ n @ trace_member tc))
  }"

text \<open>\<open>json.Marshal\<close>; \<open>None\<close> is its error.\<close>

definition marshal_request :: "task_request \<Rightarrow> string option" where
  "marshal_request r = map_option jprint (request_json r)"

text \<open>What a written request is read back as.\<close>

definition normal_raw :: "string \<Rightarrow> string" where
  "normal_raw s = (case raw_json s of None \<Rightarrow> s | Some j \<Rightarrow> jprint j)"

fun normal_request :: "task_request \<Rightarrow> task_request" where
  "normal_request (TaskRequest ty pl pr ex nx tc) =
    TaskRequest (utf8_sanitize ty) (normal_raw pl) (utf8_sanitize pr) ex
      (map_option normal_request nx) (utf8_sanitize tc)"

fun valid_times :: "task_request \<Rightarrow> bool" where
  "valid_times (TaskRequest ty pl pr ex nx tc) =
    ((case ex of None \<Rightarrow> True | Some t \<Rightarrow> valid_time t) \<and> (case nx of None \<Rightarrow> True | Some r \<Rightarrow> valid_times r))"

section \<open>A stored request is read back\<close>

lemma decode_request_obj [simp]:
  "decode_request r (JObj ms) = decode_members request_names (store_request decode_request) r ms"
  by (subst decode_request.simps) simp

lemma decode_request_null [simp]: "decode_request r JNull = (r, NoErr)"
  by (subst decode_request.simps) (simp add: decode_struct_def)

lemma decode_members_skip:
  "plain k \<Longrightarrow> field_of names k = None \<Longrightarrow>
    decode_members names st v (member k j # ms) = decode_members names st v ms"
  by (simp add: member_def)

lemma plain_names [simp]: "plain ''type''" "plain ''payload''" "plain ''priority''" "plain ''execute_at''"
  "plain ''next''" "plain ''trace_context''" "plain ''kind''" "plain ''key''" "plain ''file''"
  by (simp_all add: plain_simps plain_char_def is_html_def byte_def)

lemma request_name_members [simp]:
  "''type'' \<in> set request_names" "''payload'' \<in> set request_names" "''priority'' \<in> set request_names"
  "''execute_at'' \<in> set request_names" "''next'' \<in> set request_names" "''trace_context'' \<in> set request_names"
  "''payload'' \<in> set wrapper_names" "''next'' \<in> set wrapper_names" "''trace_context'' \<in> set wrapper_names"
  by (simp_all add: request_names_def wrapper_names_def)

lemma wrapper_ignores:
  "field_of wrapper_names ''type'' = None" "field_of wrapper_names ''priority'' = None"
  "field_of wrapper_names ''execute_at'' = None"
  by (simp_all add: field_of_def wrapper_names_def fold_name.simps upper_def byte_def chr_def)

lemma raw_json_canon: "raw_json s = Some j \<Longrightarrow> jcanon j"
  using jparse_wf [of s] by (auto simp: raw_json_def jcanon_jhesc split: if_splits)

lemma jprint_not_Nil [simp]: "jwf j \<Longrightarrow> jprint j \<noteq> []"
  by (cases j) (auto dest: valid_num_nonempty)

lemma time_member_canon: "time_member t = Some ms \<Longrightarrow> m \<in> set ms \<Longrightarrow>
    raw_ok (fst m) \<and> fst (snd m) = jprint (snd (snd m)) \<and> jcanon (snd (snd m))"
  by (auto simp: time_member_def raw_ok_plain_text dest!: plain_time_json split: option.splits)

lemma trace_member_canon: "m \<in> set (trace_member tc) \<Longrightarrow>
    raw_ok (fst m) \<and> fst (snd m) = jprint (snd (snd m)) \<and> jcanon (snd (snd m))"
  by (auto simp: trace_member_def raw_ok_plain_text split: if_splits)

lemma request_json_Some:
  assumes "request_json (TaskRequest ty pl pr ex nx tc) = Some j"
  obtains p t n where "raw_json pl = Some p" "time_member ex = Some t"
    and "(nx = None \<and> n = []) \<or> (\<exists>r i. nx = Some r \<and> request_json r = Some i \<and> n = [member ''next'' i])"
    and "j = JObj ([member ''type'' (jstring ty), member ''payload'' p, member ''priority'' (jstring pr)]
      @ t @ n @ trace_member tc)"
  using assms by (auto split: bind_splits option.splits)

lemma request_json_canon: "request_json r = Some j \<Longrightarrow> jcanon j"
proof (induction r arbitrary: j rule: request_json.induct)
  case (1 ty pl pr ex nx tc)
  from "1.prems" show ?case
  proof (rule request_json_Some)
    fix p t n
    assume f: "raw_json pl = Some p" "time_member ex = Some t"
      "(nx = None \<and> n = []) \<or> (\<exists>r i. nx = Some r \<and> request_json r = Some i \<and> n = [member ''next'' i])"
      and j: "j = JObj ([member ''type'' (jstring ty), member ''payload'' p, member ''priority'' (jstring pr)]
        @ t @ n @ trace_member tc)"
    have "\<forall>m\<in>set n. raw_ok (fst m) \<and> fst (snd m) = jprint (snd (snd m)) \<and> jcanon (snd (snd m))"
      using f(3) "1.IH" f(1,2) by (auto simp: raw_ok_plain_text)
    then show ?thesis
      using raw_json_canon [OF f(1)] time_member_canon [OF f(2)] trace_member_canon [of _ tc]
      by (auto simp: j raw_ok_plain_text)
  qed
qed

lemma decode_time_member:
  assumes "time_member ex = Some t" "case ex of None \<Rightarrow> True | Some u \<Rightarrow> valid_time u"
  shows "decode_members request_names (store_request d) (TaskRequest ty pl pr None nx tc) (t @ ms)
    = decode_members request_names (store_request d) (TaskRequest ty pl pr ex nx tc) ms"
  using assms
  by (cases ex) (auto simp: time_member_def store_request_def decode_time_def time_json_round
      split: prod.split)

theorem decode_request_json:
  "request_json r = Some j \<Longrightarrow> valid_times r \<Longrightarrow> decode_request empty_request j = (normal_request r, NoErr)"
proof (induction r arbitrary: j rule: request_json.induct)
  case (1 ty pl pr ex nx tc)
  from "1.prems"(1) show ?case
  proof (rule request_json_Some)
    fix p t n
    assume f: "raw_json pl = Some p" "time_member ex = Some t"
      "(nx = None \<and> n = []) \<or> (\<exists>r i. nx = Some r \<and> request_json r = Some i \<and> n = [member ''next'' i])"
      and j: "j = JObj ([member ''type'' (jstring ty), member ''payload'' p, member ''priority'' (jstring pr)]
        @ t @ n @ trace_member tc)"
    define st where "st = store_request decode_request"
    have tr: "decode_members request_names st (TaskRequest a b c ex nx' []) (trace_member tc)
        = (TaskRequest a b c ex nx' (utf8_sanitize tc), NoErr)" for a b c nx'
      by (simp add: trace_member_def st_def store_request_def)
    have nxt: "decode_members request_names st (TaskRequest a b c ex None []) (n @ trace_member tc)
        = (TaskRequest a b c ex (map_option normal_request nx) (utf8_sanitize tc), NoErr)" for a b c
      using f(3)
    proof (elim disjE exE conjE)
      fix r i assume r: "nx = Some r" "request_json r = Some i" "n = [member ''next'' i]"
      have "decode_request empty_request i = (normal_request r, NoErr)"
        using "1.IH" [OF f(1,2) r(1,2)] "1.prems"(2) r(1) by simp
      moreover have "i \<noteq> JNull" using r(2) by (cases r) (auto split: bind_splits option.splits)
      ultimately show ?thesis using tr r by (simp add: st_def store_request_def)
    qed (simp add: tr)
    have "decode_request empty_request j
      = decode_members request_names st (TaskRequest (utf8_sanitize ty) (jprint p) (utf8_sanitize pr) None None [])
          (t @ n @ trace_member tc)"
      by (simp add: j empty_request_def st_def store_request_def split: prod.split)
    also have "\<dots> = (normal_request (TaskRequest ty pl pr ex nx tc), NoErr)"
      using decode_time_member [OF f(2), of decode_request] "1.prems"(2) nxt f(1)
      by (simp add: st_def normal_raw_def)
    finally show ?thesis .
  qed
qed

definition request_ok :: "task_request \<Rightarrow> bool" where
  "request_ok r \<longleftrightarrow> valid_times r \<and> (\<exists>j. request_json r = Some j \<and> jdepth j \<le> max_depth)"

interpretation request: json_codec "\<lambda>r. the (request_json r)" decode_request empty_request
  normal_request request_ok
  by unfold_locales (auto simp: request_ok_def request_json_canon decode_request_json)

lemma marshal_request_json: "marshal_request r = Some s \<Longrightarrow> s = jprint (the (request_json r))"
  by (auto simp: marshal_request_def)

section \<open>What a decoder keeps\<close>

lemma decode_members_inv:
  assumes "\<And>v n k t j. (k, t, j) \<in> set ms \<Longrightarrow> P v \<Longrightarrow> P (fst (st v n t j))" and "P v"
  shows "P (fst (decode_members names st v ms))"
  using assms
proof (induction ms arbitrary: v)
  case (Cons m ms)
  obtain k t j where m: "m = (k, t, j)" by (cases m)
  have step: "P (fst (st u n t j))" if "P u" for u n using Cons.prems(1) [of k t j u n] m that by simp
  have rest: "P (fst (decode_members names st u ms))" if "P u" for u
    using Cons.IH [OF _ that] Cons.prems(1) by (meson list.set_intros(2))
  show ?case
  proof (cases "field_of names (unquote k)")
    case None
    then show ?thesis using rest [OF Cons.prems(2)] by (simp add: m)
  next
    case (Some n)
    obtain v' e where v': "st v n t j = (v', e)" by fastforce
    obtain v'' e' where v'': "decode_members names st v' ms = (v'', e')" by fastforce
    show ?thesis
      using Some step [OF Cons.prems(2), of n] rest [of v'] by (simp add: m v' v'')
  qed
qed simp

lemma zero_time_valid: "valid_time zero_time"
  unfolding valid_time_def
  by (intro exI [of _ 1] exI [of _ 1] exI [of _ 1] exI [of _ 0] exI [of _ 0] exI [of _ 0])
    (simp add: zero_time_def civil_time_def from_wall_def valid_date_def days_in_def)

lemma decode_time_valid:
  assumes "case v of None \<Rightarrow> True | Some t \<Rightarrow> valid_time t"
  shows "case fst (decode_time v j) of None \<Rightarrow> True | Some t \<Rightarrow> valid_time t"
  using assms parse_valid
  by (auto simp: decode_time_def time_unmarshal_def zero_time_valid split: json.split option.splits)

lemma decode_request_valid: "valid_times r \<Longrightarrow> valid_times (fst (decode_request r j))"
proof (induction r j rule: decode_request.induct)
  case (1 r j)
  show ?case
  proof (cases j)
    case (JObj ms)
    have "valid_times (fst (store_request decode_request v n t i))"
      if m: "(k, t, i) \<in> set ms" and v: "valid_times v" for v n k t i
    proof -
      obtain ty pl pr ex nx tc where r: "v = TaskRequest ty pl pr ex nx tc" by (cases v)
      have ih: "valid_times (fst (decode_request u i))" if "valid_times u" for u
        using "1.IH" [OF JObj m that] .
      have nx: "valid_times (case nx of None \<Rightarrow> empty_request | Some x \<Rightarrow> x)"
        using v by (simp add: r empty_request_def split: option.splits)
      show ?thesis
        using v decode_time_valid [of ex i] ih [OF nx]
        by (simp add: r store_request_def split: prod.split)
    qed
    then show ?thesis
      using decode_members_inv [of ms valid_times "store_request decode_request" r] "1.prems"
      by (simp add: JObj)
  qed (use "1.prems" in \<open>simp_all add: decode_request.simps decode_struct_def\<close>)
qed

section \<open>What the worker side reads\<close>

text \<open>The next step as it is stored, empty when there is none.\<close>

definition next_text :: "task_request option \<Rightarrow> string" where
  "next_text nx = (case nx of None \<Rightarrow> [] | Some r \<Rightarrow> (case marshal_request r of None \<Rightarrow> [] | Some s \<Rightarrow> s))"

lemma wrapper_skip_time:
  "time_member ex = Some t \<Longrightarrow>
    decode_members wrapper_names st v (t @ ms) = decode_members wrapper_names st v ms"
  by (cases ex) (auto simp: time_member_def decode_members_skip wrapper_ignores)

lemma decode_wrapper_request:
  assumes "request_json (TaskRequest ty pl pr ex nx tc) = Some j"
  shows "decode_wrapper empty_wrapper j = (\<lparr> rw_payload = normal_raw pl,
    rw_trace_context = utf8_sanitize tc, rw_next = next_text nx \<rparr>, NoErr)"
  using assms
proof (rule request_json_Some)
  fix p t n
  assume f: "raw_json pl = Some p" "time_member ex = Some t"
    "(nx = None \<and> n = []) \<or> (\<exists>r i. nx = Some r \<and> request_json r = Some i \<and> n = [member ''next'' i])"
    and j: "j = JObj ([member ''type'' (jstring ty), member ''payload'' p, member ''priority'' (jstring pr)]
      @ t @ n @ trace_member tc)"
  have tr: "decode_members wrapper_names store_wrapper \<lparr> rw_payload = a, rw_trace_context = [], rw_next = c \<rparr> (trace_member tc)
      = (\<lparr> rw_payload = a, rw_trace_context = utf8_sanitize tc, rw_next = c \<rparr>, NoErr)" for a c
    by (simp add: trace_member_def store_wrapper_def)
  have nxt: "decode_members wrapper_names store_wrapper \<lparr> rw_payload = a, rw_trace_context = [], rw_next = [] \<rparr> (n @ trace_member tc)
      = (\<lparr> rw_payload = a, rw_trace_context = utf8_sanitize tc, rw_next = next_text nx \<rparr>, NoErr)" for a
    using f(3) tr by (auto simp: store_wrapper_def next_text_def marshal_request_def)
  show ?thesis
    using f(1) nxt
    by (simp add: decode_wrapper_def empty_wrapper_def j decode_members_skip wrapper_ignores
        store_wrapper_def wrapper_skip_time [OF f(2)] normal_raw_def)
qed

text \<open>The task a worker gets for a row that holds a stored request.\<close>

lemma task_of_request:
  assumes "request_json (TaskRequest ty pl pr ex nx tc) = Some j" "jdepth j \<le> max_depth"
    and "ev_payload e = jprint j"
  shows "wt_payload (task_of e) = normal_raw pl
    \<and> wt_metadata (task_of e) = task_meta e
        \<lparr> rw_payload = normal_raw pl, rw_trace_context = utf8_sanitize tc, rw_next = next_text nx \<rparr>"
proof -
  obtain p where p: "raw_json pl = Some p" using assms(1) by (rule request_json_Some)
  then have "jwf p" using raw_json_canon jcanon_jwf by blast
  with p have "normal_raw pl \<noteq> []" by (simp add: normal_raw_def)
  moreover have "unmarshal decode_wrapper empty_wrapper (ev_payload e)
      = (\<lparr> rw_payload = normal_raw pl, rw_trace_context = utf8_sanitize tc, rw_next = next_text nx \<rparr>, True)"
    using unmarshal_print [OF request_json_canon [OF assms(1)] assms(2), of decode_wrapper empty_wrapper]
    by (simp add: assms(3) decode_wrapper_request [OF assms(1)])
  ultimately show ?thesis by (simp add: task_of_def)
qed

lemma task_reads_request:
  assumes "request_ok r" "marshal_request r = Some s" "ev_payload e = s"
  shows "wt_id (task_of e) = ev_id e \<and> wt_type (task_of e) = ev_type e
    \<and> wt_payload (task_of e) = normal_raw (tr_payload r)
    \<and> wt_metadata (task_of e) ''next'' =
        (case tr_next r of None \<Rightarrow> None | Some n \<Rightarrow> marshal_request n)
    \<and> wt_metadata (task_of e) ''root_task_id'' =
        Some (if text_or_empty (ev_parentid e) = [] then ev_id e else text_or_empty (ev_parentid e))"
proof -
  obtain ty pl pr ex nx tc where r: "r = TaskRequest ty pl pr ex nx tc" by (cases r)
  obtain j where j: "request_json r = Some j" "jdepth j \<le> max_depth" "s = jprint j"
    using assms(1,2) by (auto simp: request_ok_def marshal_request_def)
  have "next_text nx = (case nx of None \<Rightarrow> [] | Some n \<Rightarrow> the (marshal_request n))
      \<and> (\<forall>n. nx = Some n \<longrightarrow> (\<exists>t. marshal_request n = Some t \<and> t \<noteq> []))"
    using j(1) request_json_canon jcanon_jwf
    by (auto simp: r next_text_def marshal_request_def split: option.splits bind_splits)
  then show ?thesis
    using task_of_request [of ty pl pr ex nx tc j e] j assms(3)
    by (auto simp: r task_meta_def Let_def task_of_def split: option.split prod.split)
qed

end
