(* ===== verification/Go_Sha256.thy ===== *)
theory Go_Sha256
  imports Go_Time
begin

text \<open>
  SHA-256 as in Go's \<open>crypto/sha256\<close> (FIPS 180-4), on words of 32 bits, and
  \<open>hex.EncodeToString\<close>. The digest always has 32 bytes (\<open>length_sha256\<close>).
\<close>

unbundle bit_operations_syntax

type_synonym w32 = "32 word"

text \<open>
  The constants are the first 32 bits of the fractional parts of roots of the first primes, as the
  standard defines them: cube roots of 64 of them for the rounds, square roots of 8 for the initial
  state. A root is searched bit by bit, from above.
\<close>

definition root_bit :: "nat \<Rightarrow> nat \<Rightarrow> nat \<Rightarrow> nat \<Rightarrow> nat" where
  "root_bit k n b r = (if (r + 2 ^ b) ^ k \<le> n then r + 2 ^ b else r)"

definition integer_root :: "nat \<Rightarrow> nat \<Rightarrow> nat" where
  "integer_root k n = fold (root_bit k n) (rev [0..<36]) 0"

definition primes_below :: "nat \<Rightarrow> nat list" where
  "primes_below n = filter (\<lambda>p. list_all (\<lambda>d. p mod d \<noteq> 0) [2..<p]) [2..<n]"

definition root_fraction :: "nat \<Rightarrow> nat \<Rightarrow> w32" where
  "root_fraction k p = word_of_nat (integer_root k (p * 2 ^ (32 * k)))"

definition sha_k :: "w32 list" where
  "sha_k = map (root_fraction 3) (primes_below 312)"

definition sha_h0 :: "w32 list" where
  "sha_h0 = map (root_fraction 2) (primes_below 20)"

definition ch :: "w32 \<Rightarrow> w32 \<Rightarrow> w32 \<Rightarrow> w32" where
  "ch x y z = (x AND y) XOR (NOT x AND z)"

definition maj :: "w32 \<Rightarrow> w32 \<Rightarrow> w32 \<Rightarrow> w32" where
  "maj x y z = (x AND y) XOR (x AND z) XOR (y AND z)"

definition rotr :: "nat \<Rightarrow> w32 \<Rightarrow> w32" where
  "rotr n x = drop_bit n x OR push_bit (32 - n) x"

definition Sigma0 :: "w32 \<Rightarrow> w32" where
  "Sigma0 x = rotr 2 x XOR rotr 13 x XOR rotr 22 x"

definition Sigma1 :: "w32 \<Rightarrow> w32" where
  "Sigma1 x = rotr 6 x XOR rotr 11 x XOR rotr 25 x"

definition sigma0 :: "w32 \<Rightarrow> w32" where
  "sigma0 x = rotr 7 x XOR rotr 18 x XOR drop_bit 3 x"

definition sigma1 :: "w32 \<Rightarrow> w32" where
  "sigma1 x = rotr 17 x XOR rotr 19 x XOR drop_bit 10 x"

text \<open>The message schedule, kept with the newest word first.\<close>

definition schedule_step :: "w32 list \<Rightarrow> w32 list" where
  "schedule_step ws = (sigma1 (ws ! 1) + ws ! 6 + sigma0 (ws ! 14) + ws ! 15) # ws"

definition schedule :: "w32 list \<Rightarrow> w32 list" where
  "schedule block = rev ((schedule_step ^^ 48) (rev block))"

text \<open>One round on the working variables \<open>a\<close> to \<open>h\<close>.\<close>

fun sha_round :: "w32 \<times> w32 \<Rightarrow> w32 list \<Rightarrow> w32 list" where
  "sha_round (k, w) [a, b, c, d, e, f, g, h] =
    (let t1 = h + Sigma1 e + ch e f g + k + w;
         t2 = Sigma0 a + maj a b c
     in [t1 + t2, a, b, c, d + t1, e, f, g])"
| "sha_round kw st = st"

definition compress :: "w32 list \<Rightarrow> w32 list \<Rightarrow> w32 list" where
  "compress st block = map2 (+) st (fold sha_round (zip sha_k (schedule block)) st)"

text \<open>Padding: a bit, zeros, and the length in bits on 64 bits.\<close>

definition be_bytes :: "nat \<Rightarrow> nat \<Rightarrow> bytes" where
  "be_bytes n v = map (\<lambda>i. chr (v div 256 ^ (n - 1 - i) mod 256)) [0..<n]"

definition padded :: "bytes \<Rightarrow> bytes" where
  "padded m = m @ [CHR 0x80] @ replicate ((119 - length m mod 64) mod 64) (CHR 0x00)
    @ be_bytes 8 (8 * length m)"

fun words_of :: "bytes \<Rightarrow> w32 list" where
  "words_of (a # b # c # d # r) =
    word_of_nat (((byte a * 256 + byte b) * 256 + byte c) * 256 + byte d) # words_of r"
| "words_of _ = []"

fun blocks :: "nat \<Rightarrow> w32 list \<Rightarrow> w32 list list" where
  "blocks 0 ws = []"
| "blocks (Suc n) ws = take 16 ws # blocks n (drop 16 ws)"

definition sha256 :: "bytes \<Rightarrow> bytes" where
  "sha256 m = concat (map (\<lambda>w. be_bytes 4 (unat w))
    (fold (\<lambda>b st. compress st b) (blocks (length (padded m) div 64) (words_of (padded m))) sha_h0))"

definition hex_encode :: "bytes \<Rightarrow> string" where
  "hex_encode bs = concat (map (\<lambda>c. [hex_char (byte c div 16), hex_char (byte c mod 16)]) bs)"

section \<open>Sizes\<close>

lemma length_sha_round: "length (sha_round kw st) = length st"
  by (cases "(kw, st)" rule: sha_round.cases) (simp_all add: Let_def)

lemma length_rounds: "length (fold sha_round kws st) = length st"
  by (induction kws arbitrary: st) (simp_all add: length_sha_round)

lemma length_compress [simp]: "length (compress st b) = length st"
  by (simp add: compress_def length_rounds)

lemma length_folded: "length (fold (\<lambda>b st. compress st b) bs st) = length st"
  by (induction bs arbitrary: st) simp_all

lemma length_be_bytes [simp]: "length (be_bytes n v) = n"
  by (simp add: be_bytes_def)

lemma eight_primes: "length (primes_below 20) = 8"
  by code_simp

lemma length_sha256 [simp]: "length (sha256 m) = 32"
proof -
  have "length (concat (map (\<lambda>w. be_bytes 4 (unat w)) ws)) = 4 * length ws" for ws :: "w32 list"
    by (induction ws) simp_all
  then show ?thesis by (simp add: sha256_def length_folded sha_h0_def eight_primes)
qed

lemma length_hex_encode [simp]: "length (hex_encode bs) = 2 * length bs"
  by (induction bs) (simp_all add: hex_encode_def)

lemma plain_charI:
  "0x20 \<le> byte c \<Longrightarrow> byte c < 0x80 \<Longrightarrow> byte c \<notin> {34, 38, 60, 62, 92} \<Longrightarrow> plain_char c"
  by (auto simp: plain_char_def is_html_def byte_def)

lemma plain_hex_char: "n < 16 \<Longrightarrow> plain_char (hex_char n)"
  by (rule plain_charI) (auto simp: hex_char_def byte_chr)

lemma plain_hex_encode [simp]: "plain (hex_encode bs)"
  by (induction bs)
    (simp_all add: hex_encode_def plain_simps plain_hex_char byte_lt_256 less_mult_imp_div_less)

end
