(* ===== verification/Idempotency.thy ===== *)
theory Idempotency
  imports Repository Go_Sha256
begin

text \<open>
  \<open>internal/service/idempotency.go\<close>: the keys under which submissions are recorded, over the
  statements of \<open>idempotency.sql.go\<close>. The contract the submission handler relies on is the
  locale \<open>dedup_store\<close>; it holds of the model, and it says what the code delivers: a key is
  recorded once and seen until it expires, and an expired key that was not cleaned up blocks
  a new record.
\<close>

section \<open>The service\<close>

record idempotency_metadata =
  md_command :: string
  md_source :: string

definition metadata_json :: "idempotency_metadata \<Rightarrow> json" where
  "metadata_json m = JObj (
    (if md_command m = [] then [] else [member ''command'' (jstring (md_command m))]) @
    (if md_source m = [] then [] else [member ''source'' (jstring (md_source m))]))"

definition wrap_result :: "string \<Rightarrow> 'a result \<Rightarrow> 'a result" where
  "wrap_result prefix r = (case r of Inl e \<Rightarrow> Inl (WrapError prefix e) | Inr a \<Rightarrow> Inr a)"

lemma wrap_result_Inr [simp]: "wrap_result p r = Inr x \<longleftrightarrow> r = Inr x"
  by (cases r) (simp_all add: wrap_result_def)

abbreviation thirty_days :: int where "thirty_days \<equiv> 30 * 24 * 3600 * second"

text \<open>\<open>true\<close> when the key was there already. Marshalling two strings does not fail.\<close>

definition CheckAndRecordToDB ::
  "env \<Rightarrow> string \<Rightarrow> string \<Rightarrow> idempotency_metadata option \<Rightarrow> ('x db_scheme, bool result) state" where
  "CheckAndRecordToDB E key event_id meta = do {
    now \<leftarrow> time_now E;
    r \<leftarrow> CreateIdempotencyKey E \<lparr> ck_key = key, ck_event_id = event_id,
      ck_expires_at = Some (time_add now thirty_days),
      ck_metadata = (case meta of None \<Rightarrow> ''{}'' | Some m \<Rightarrow> jprint (metadata_json m)) \<rparr>;
    State_Monad.return (case r of
      Inl e \<Rightarrow> Inl (WrapError ''failed to insert idempotency key: '' e)
    | Inr affected \<Rightarrow> Inr (affected = 0))
  }"

text \<open>The comparison with \<open>pgx.ErrNoRows\<close> is by identity, without unwrapping.\<close>

definition Isprocessed :: "env \<Rightarrow> string \<Rightarrow> ('x db_scheme, (bool \<times> string) result) state" where
  "Isprocessed E key = do {
    r \<leftarrow> GetIdempotencyKey E key;
    State_Monad.return (case r of
      Inl e \<Rightarrow> if e = ErrNoRows then Inr (False, []) else Inl (WrapError ''failed to check idempotency: '' e)
    | Inr k \<Rightarrow> Inr (True, ik_event_id k))
  }"

definition CleanupExpired :: "env \<Rightarrow> ('x db_scheme, nat result) state" where
  "CleanupExpired E = do {
    r \<leftarrow> DeleteExpiredIdempotencyKeys E;
    State_Monad.return (wrap_result ''failed to cleanup expired keys: '' r)
  }"

definition GetStats :: "env \<Rightarrow> ('x db_scheme, (nat \<times> nat \<times> nat) result) state" where
  "GetStats E = do {
    r \<leftarrow> GetIdempotencyKeyStats E;
    State_Monad.return (wrap_result ''failed to get stats: '' r)
  }"

definition DeleteKey :: "env \<Rightarrow> string \<Rightarrow> ('x db_scheme, unit result) state" where
  "DeleteKey E key = DeleteIdempotencyKey E key"

definition GenerateIdempotencyKey :: "string list \<Rightarrow> string" where
  "GenerateIdempotencyKey parts =
    ''key_'' @ take 32 (hex_encode (sha256 (concat (map (\<lambda>p. p @ '':'') parts))))"

lemma key_length: "length (GenerateIdempotencyKey parts) = 36"
  by (simp add: GenerateIdempotencyKey_def)

lemma metadata_canon: "jcanon (metadata_json m)" "jdepth (metadata_json m) \<le> max_depth"
  by (auto simp: metadata_json_def raw_ok_plain_text plain_simps plain_char_def is_html_def byte_def max_depth_def)

lemma metadata_parses: "jparse (jprint (metadata_json m)) = Some (metadata_json m)"
  by (rule jparse_jprint) (rule metadata_canon)+

lemma jparse_empty_object: "jparse ''{}'' = Some (JObj [])"
  using jparse_jprint [of "JObj []"] by (simp add: max_depth_def)

section \<open>The keys of the table\<close>

definition key_row :: "'x db_scheme \<Rightarrow> string \<Rightarrow> idempotency_key option" where
  "key_row w k = find_row ik_key k (idempotency_keys w)"

lemma key_row_tick [simp]: "key_row (w\<lparr> tick := t \<rparr>) k = key_row w k"
  by (simp add: key_row_def)

lemma key_row_None: "key_row w k = None \<longleftrightarrow> k \<notin> ik_key ` set (idempotency_keys w)"
  by (simp add: key_row_def find_row_None_iff)

text \<open>A row seen by the active query is the row of that key.\<close>

lemma find_guarded_row:
  assumes "distinct (map key rs)"
  shows "find (\<lambda>r. key r = k \<and> P r) rs
    = (case find_row key k rs of None \<Rightarrow> None | Some r \<Rightarrow> if P r then Some r else None)"
  using assms
proof (induction rs)
  case (Cons r rs)
  have "find (\<lambda>r. key r = k \<and> P r) rs = None" if "key r = k"
    using Cons.prems that by (fastforce simp: find_None_iff image_iff)
  then show ?case using Cons by (simp add: find_row_Cons)
qed simp

lemma active_value:
  assumes "db_ok w" "answers E w"
  shows "value_of (Isprocessed E k) w = Inr (case key_row w k of
      None \<Rightarrow> (False, [])
    | Some r \<Rightarrow> if key_active (db_now E (tick w)) r then (True, ik_event_id r) else (False, []))"
  using assms find_guarded_row [of ik_key "idempotency_keys w" k "key_active (db_now E (tick w))"]
  by (auto simp: Isprocessed_def GetIdempotencyKey_def db_ok_def key_row_def split: option.split)

lemma isprocessed_final [simp]: "final (Isprocessed E k) w = next_state w"
  by (simp add: Isprocessed_def GetIdempotencyKey_def)

lemma isprocessed_Inr: "value_of (Isprocessed E k) w = Inr r \<Longrightarrow> answers E w"
  by (auto simp: Isprocessed_def GetIdempotencyKey_def value_query answers_def ErrNoRows_def
      split: option.splits sum.splits if_splits)

text \<open>What recording does: a new row when the key is free, nothing otherwise.\<close>

definition recorded_key :: "env \<Rightarrow> nat \<Rightarrow> string \<Rightarrow> string \<Rightarrow> bytes \<Rightarrow> idempotency_key" where
  "recorded_key E t k i meta = \<lparr> ik_key = k, ik_event_id = i, ik_created_at = Some (db_now E (Suc t)),
    ik_expires_at = Some (pg_time E (time_add (clock E t) thirty_days)), ik_metadata = meta \<rparr>"

definition metadata_text :: "idempotency_metadata option \<Rightarrow> bytes" where
  "metadata_text meta = (case meta of None \<Rightarrow> ''{}'' | Some m \<Rightarrow> jprint (metadata_json m))"

lemma metadata_text_parses: "\<exists>j. jparse (metadata_text meta) = Some j"
  by (cases meta) (simp_all add: metadata_text_def jparse_empty_object metadata_parses)

lemma record_value:
  assumes "answers E (next_state w)"
  shows "value_of (CheckAndRecordToDB E k i meta) w =
    (if key_row w k \<noteq> None then Inr True
     else if lookup w i = None then Inl (WrapError ''failed to insert idempotency key: ''
       (ErrorString ''insert or update on table idempotency_keys violates foreign key constraint''))
     else Inr False)"
proof -
  obtain j where "jparse (metadata_text meta) = Some j" using metadata_text_parses by blast
  with assms show ?thesis
    by (simp add: CheckAndRecordToDB_def CreateIdempotencyKey_def metadata_text_def [symmetric]
        key_row_None lookup_None)
qed

lemma record_final:
  assumes "answers E (next_state w)"
  shows "final (CheckAndRecordToDB E k i meta) w =
    (if key_row w k = None \<and> lookup w i \<noteq> None
     then w\<lparr> tick := Suc (Suc (tick w)), idempotency_keys := idempotency_keys w
       @ [recorded_key E (tick w) k i (metadata_text meta)] \<rparr>
     else w\<lparr> tick := Suc (Suc (tick w)) \<rparr>)"
proof -
  obtain j where "jparse (metadata_text meta) = Some j" using metadata_text_parses by blast
  with assms show ?thesis
    by (simp add: CheckAndRecordToDB_def CreateIdempotencyKey_def metadata_text_def [symmetric]
        key_row_None lookup_None new_key_def recorded_key_def)
qed

lemma record_Inr:
  "value_of (CheckAndRecordToDB E k i meta) w = Inr b \<Longrightarrow> answers E (next_state w)"
  by (auto simp: CheckAndRecordToDB_def CreateIdempotencyKey_def split: sum.splits
      dest!: value_exec_Inr)

lemma ok_idempotency [wf_intros]:
  "keeps db_ok (CheckAndRecordToDB E k i meta)" "keeps db_ok (Isprocessed E k)"
  "keeps db_ok (CleanupExpired E)" "keeps db_ok (GetStats E)" "keeps db_ok (DeleteKey E k)"
  unfolding CheckAndRecordToDB_def Isprocessed_def CleanupExpired_def GetStats_def DeleteKey_def
  by (intro wf_intros)+

section \<open>The contract of the store of keys\<close>

text \<open>
  Over the owner of each key: a check only reports an owner there is, recording either takes a
  free key or leaves everything as it was, and says which.
\<close>

locale dedup_store =
  fixes inv :: "'s \<Rightarrow> bool" and owner :: "'s \<Rightarrow> string \<Rightarrow> string option"
    and check :: "string \<Rightarrow> ('s, (bool \<times> string) result) state"
    and record_key :: "string \<Rightarrow> string \<Rightarrow> ('s, bool result) state"
  assumes inv_kept: "keeps inv (check k)" "keeps inv (record_key k i)"
    and check_law: "inv s \<Longrightarrow> value_of (check k) s = Inr (True, i) \<Longrightarrow> owner s k = Some i"
    and check_frame: "owner (final (check k) s) = owner s"
    and record_new: "inv s \<Longrightarrow> value_of (record_key k i) s = Inr False \<Longrightarrow>
      owner s k = None \<and> owner (final (record_key k i) s) = (owner s)(k \<mapsto> i)"
    and record_old: "inv s \<Longrightarrow> value_of (record_key k i) s = Inr True \<Longrightarrow>
      owner s k \<noteq> None \<and> owner (final (record_key k i) s) = owner s"
begin

lemma taken_once:
  assumes "inv s" "value_of (record_key k i) s = Inr False"
  shows "value_of (record_key k j) (final (record_key k i) s) \<noteq> Inr False"
  using assms record_new [of s k i] record_new [of "final (record_key k i) s" k j]
    keepsD [OF inv_kept(2)] by fastforce

lemma reported_owner:
  assumes "inv s" "value_of (record_key k i) s = Inr False"
    and "value_of (check k) (final (record_key k i) s) = Inr (True, j)"
  shows "j = i"
  using assms record_new [of s k i] check_law [of "final (record_key k i) s" k j]
    keepsD [OF inv_kept(2)] by fastforce

end

definition key_owner :: "'x db_scheme \<Rightarrow> string \<Rightarrow> string option" where
  "key_owner w k = map_option ik_event_id (key_row w k)"

lemma key_owner_append:
  assumes "key_row w k = None" "ik_key r = k"
  shows "key_owner (w\<lparr> tick := t, idempotency_keys := idempotency_keys w @ [r] \<rparr>)
    = (key_owner w)(k \<mapsto> ik_event_id r)"
  using assms by (auto simp: fun_eq_iff key_owner_def key_row_def find_row_append find_row_Cons
      split: option.split)

interpretation keys: dedup_store "db_ok :: 'x db_scheme \<Rightarrow> bool" key_owner "Isprocessed E"
  "\<lambda>k i. CheckAndRecordToDB E k i meta" for E meta
proof (unfold_locales, goal_cases)
  case (3 s k i)
  with isprocessed_Inr [OF 3(2)] active_value [of s E k] show ?case
    by (auto simp: key_owner_def split: option.splits if_splits)
next
  case (5 s k i)
  note a = record_Inr [OF 5(2)]
  with 5 have "key_row s k = None" "lookup s i \<noteq> None"
    using record_value [OF a, of k i meta] by (auto split: if_splits)
  then show ?case
    using record_final [OF a, of k i meta] key_owner_append [of s k "recorded_key E (tick s) k i (metadata_text meta)"]
    by (auto simp: key_owner_def recorded_key_def)
next
  case (6 s k i)
  note a = record_Inr [OF 6(2)]
  with 6 have "key_row s k \<noteq> None"
    using record_value [OF a, of k i meta] by (auto split: if_splits)
  then show ?case
    using record_final [OF a, of k i meta] by (auto simp: key_owner_def key_row_def fun_eq_iff)
qed (auto intro: wf_intros simp: key_owner_def fun_eq_iff)

end
