(* ===== verification/World.thy ===== *)
theory World
  imports Task_Request Idempotency "HOL-Library.List_Lexorder" "HOL-Library.Char_ord"
begin

text \<open>
  The state the HTTP handlers and the task handlers run on: the tables, the trace of the calls to
  the queue, the objects uploaded, and the log context of the request in progress. Of
  \<open>internal/middleware\<close> it holds the log context and the values of the request context, of
  \<open>internal/storage\<close> the client's operations. The queue (pulse over Redis) and the object store
  (MinIO) are not in the repository: a call to them is recorded with its outcome, and the
  outcome is the environment's.
\<close>

section \<open>Calls to the queue\<close>

datatype queue_call =
    EnqueueCall string string "goerr option"
  | ScheduleCall string string gotime "goerr option"
  | RemoveFromDLQCall string "goerr option"
  | GetQueueDepthsCall
  | GetDLQItemsCall

text \<open>An object put into the bucket: key, content type, body.\<close>

record stored_object =
  so_key :: string
  so_content_type :: string
  so_body :: bytes

section \<open>The log context\<close>

record log_event =
  le_step :: string
  le_status :: string
  le_error :: string
  le_timestamp :: string

record log_context =
  lc_event_id :: string
  lc_worker_id :: "int option"
  lc_task_type :: string
  lc_priority :: string
  lc_status :: string
  lc_events :: "log_event list"
  lc_error :: "goerr option"

definition empty_log :: log_context where
  "empty_log = \<lparr> lc_event_id = [], lc_worker_id = None, lc_task_type = [], lc_priority = [],
    lc_status = [], lc_events = [], lc_error = None \<rparr>"

record world = db +
  queue_log :: "queue_call list"
  objects :: "stored_object list"
  req_log :: log_context
  sender_log :: "goerr option"

text \<open>
  A request context maps keys to values. A key is a value of a Go type, so two packages that
  each declare \<open>type contextKey string\<close> have different keys for the same text. The log context
  is a pointer; the one value it can point to here is \<open>req_log\<close>, or \<open>sender_log\<close> for a pointer to
  the \<open>LogContext\<close> of package \<open>sender\<close>.
\<close>

datatype ctx_key = MiddlewareKey string | SenderKey string

datatype ctx_value = LogPtr | SenderLogPtr | TextValue string

type_synonym ctx = "ctx_key \<Rightarrow> ctx_value option"

definition has_log :: "ctx \<Rightarrow> bool" where
  "has_log ctx \<longleftrightarrow> ctx (MiddlewareKey ''log_context'') = Some LogPtr"

definition ctx_trace_id :: "ctx \<Rightarrow> string" where
  "ctx_trace_id ctx = (case ctx (MiddlewareKey ''trace_id'') of Some (TextValue s) \<Rightarrow> s | _ \<Rightarrow> [])"

text \<open>
  \<open>GetLogContext\<close> gives the request's log context, or a fresh one that nobody reads; changes
  to the latter are dropped.
\<close>

definition with_log :: "ctx \<Rightarrow> (log_context \<Rightarrow> log_context) \<Rightarrow> ('x world_scheme, unit) state" where
  "with_log ctx f = State_Monad.update (\<lambda>w. if has_log ctx then w\<lparr> req_log := f (req_log w) \<rparr> else w)"

definition add_event :: "gotime \<Rightarrow> string \<Rightarrow> string \<Rightarrow> goerr option \<Rightarrow> log_context \<Rightarrow> log_context" where
  "add_event now step status err l = l\<lparr> lc_events := lc_events l @
    [\<lparr> le_step = step, le_status = status, le_error = (case err of None \<Rightarrow> [] | Some e \<Rightarrow> err_msg e),
       le_timestamp = rfc3339 now \<rparr>] \<rparr>"

definition AddEvent :: "env \<Rightarrow> ctx \<Rightarrow> string \<Rightarrow> string \<Rightarrow> goerr option \<Rightarrow> ('x world_scheme, unit) state" where
  "AddEvent E ctx step status err = do {
    now \<leftarrow> time_now E;
    with_log ctx (add_event now step status err)
  }"

section \<open>Operations of the queue\<close>

definition log_call :: "queue_call \<Rightarrow> 'x world_scheme \<Rightarrow> 'x world_scheme" where
  "log_call c w = w\<lparr> queue_log := queue_log w @ [c] \<rparr>"

definition outcome :: "goerr option \<Rightarrow> unit result" where
  "outcome err = (case err of None \<Rightarrow> Inr () | Some e \<Rightarrow> Inl e)"

definition EnqueueWithPriority :: "env \<Rightarrow> string \<Rightarrow> string \<Rightarrow> ('x world_scheme, unit result) state" where
  "EnqueueWithPriority E i priority = do {
    t \<leftarrow> next_tick;
    State_Monad.update (log_call (EnqueueCall i priority (queue_fault E t)));
    State_Monad.return (outcome (queue_fault E t))
  }"

definition Schedule :: "env \<Rightarrow> string \<Rightarrow> string \<Rightarrow> gotime \<Rightarrow> ('x world_scheme, unit result) state" where
  "Schedule E i priority at = do {
    t \<leftarrow> next_tick;
    State_Monad.update (log_call (ScheduleCall i priority at (queue_fault E t)));
    State_Monad.return (outcome (queue_fault E t))
  }"

definition RemoveFromDLQ :: "env \<Rightarrow> string \<Rightarrow> ('x world_scheme, unit result) state" where
  "RemoveFromDLQ E i = do {
    t \<leftarrow> next_tick;
    State_Monad.update (log_call (RemoveFromDLQCall i (queue_fault E t)));
    State_Monad.return (outcome (queue_fault E t))
  }"

definition GetQueueDepths :: "env \<Rightarrow> ('x world_scheme, (string \<times> int) list result) state" where
  "GetQueueDepths E = do {
    t \<leftarrow> next_tick;
    State_Monad.update (log_call GetQueueDepthsCall);
    State_Monad.return (queue_depths E t)
  }"

definition GetDLQItems :: "env \<Rightarrow> ('x world_scheme, string list result) state" where
  "GetDLQItems E = do {
    t \<leftarrow> next_tick;
    State_Monad.update (log_call GetDLQItemsCall);
    State_Monad.return (dlq_items E t)
  }"

section \<open>internal/storage\<close>

text \<open>\<open>Upload\<close>, \<open>Download\<close> and \<open>PresignedURL\<close> of the client; \<open>PutObject\<close> may fail, before or
  after the object was stored.\<close>

definition Upload :: "env \<Rightarrow> string \<Rightarrow> string \<Rightarrow> bytes \<Rightarrow> ('x world_scheme, string result) state" where
  "Upload E key content_type body = do {
    t \<leftarrow> next_tick;
    (case put_object E t of
       Some (stored, e) \<Rightarrow> do {
         State_Monad.update (\<lambda>w. if stored then w\<lparr> objects := objects w @
           [\<lparr> so_key = key, so_content_type = content_type, so_body = body \<rparr>] \<rparr> else w);
         State_Monad.return (Inl (WrapError (''minio: upload '' @ key @ '': '') e))
       }
     | None \<Rightarrow> do {
         State_Monad.update (\<lambda>w. w\<lparr> objects := objects w @
           [\<lparr> so_key = key, so_content_type = content_type, so_body = body \<rparr>] \<rparr>);
         State_Monad.return (Inr key)
       })
  }"

definition Download :: "env \<Rightarrow> string \<Rightarrow> ('x world_scheme, (bytes \<times> goerr option) result) state" where
  "Download E key = do {
    t \<leftarrow> next_tick;
    State_Monad.return (wrap_result (''minio: download '' @ key @ '': '') (get_object E t key))
  }"

definition PresignedURL :: "env \<Rightarrow> string \<Rightarrow> ('x world_scheme, string result) state" where
  "PresignedURL E key = do {
    t \<leftarrow> next_tick;
    State_Monad.return (wrap_result (''minio: presign '' @ key @ '': '') (presign E t key))
  }"

section \<open>Facts about one call\<close>

lemma final_with_log [simp]:
  "final (with_log ctx f) w = (if has_log ctx then w\<lparr> req_log := f (req_log w) \<rparr> else w)"
  by (simp add: with_log_def)

lemma final_enqueue [simp]:
  "final (EnqueueWithPriority E i p) w = log_call (EnqueueCall i p (queue_fault E (tick w))) (next_state w)"
  and value_enqueue [simp]: "value_of (EnqueueWithPriority E i p) w = outcome (queue_fault E (tick w))"
  by (simp_all add: EnqueueWithPriority_def)

lemma final_schedule [simp]:
  "final (Schedule E i p at) w = log_call (ScheduleCall i p at (queue_fault E (tick w))) (next_state w)"
  and value_schedule [simp]: "value_of (Schedule E i p at) w = outcome (queue_fault E (tick w))"
  by (simp_all add: Schedule_def)

lemma final_remove [simp]:
  "final (RemoveFromDLQ E i) w = log_call (RemoveFromDLQCall i (queue_fault E (tick w))) (next_state w)"
  and value_remove [simp]: "value_of (RemoveFromDLQ E i) w = outcome (queue_fault E (tick w))"
  by (simp_all add: RemoveFromDLQ_def)

lemma outcome_cases [simp]: "outcome None = Inr ()" "outcome (Some e) = Inl e"
  "outcome r = Inr () \<longleftrightarrow> r = None"
  by (auto simp: outcome_def split: option.split prod.split)

definition queue_up :: "env \<Rightarrow> bool" where
  "queue_up E \<longleftrightarrow> (\<forall>t. queue_fault E t = None)"

definition queue_down :: "env \<Rightarrow> bool" where
  "queue_down E \<longleftrightarrow> (\<forall>t. queue_fault E t \<noteq> None)"

lemma log_call_frame [simp]:
  "tick (log_call c w) = tick w" "events (log_call c w) = events w"
  "delivery_logs (log_call c w) = delivery_logs w" "idempotency_keys (log_call c w) = idempotency_keys w"
  "objects (log_call c w) = objects w" "req_log (log_call c w) = req_log w"
  "sender_log (log_call c w) = sender_log w" "queue_log (log_call c w) = queue_log w @ [c]"
  "lookup (log_call c w) i = lookup w i" "key_row (log_call c w) k = key_row w k"
  by (simp_all add: log_call_def lookup_def key_row_def)

lemma db_ok_world [simp]:
  "db_ok (log_call c w) = db_ok w" "db_ok (w\<lparr> req_log := l \<rparr>) = db_ok w"
  "db_ok (w\<lparr> objects := os \<rparr>) = db_ok w" "db_ok (w\<lparr> sender_log := e \<rparr>) = db_ok w"
  by (simp_all add: db_ok_def log_call_def)

lemma ok_services [wf_intros]:
  "keeps db_ok (with_log ctx f)" "keeps db_ok (AddEvent E ctx step st err)"
  "keeps db_ok (EnqueueWithPriority E i p)" "keeps db_ok (Schedule E i p at)"
  "keeps db_ok (RemoveFromDLQ E i)" "keeps db_ok (GetQueueDepths E)" "keeps db_ok (GetDLQItems E)"
  "keeps db_ok (Upload E key ct body)" "keeps db_ok (Download E key)" "keeps db_ok (PresignedURL E key)"
  by (simp_all add: keeps_def AddEvent_def GetQueueDepths_def GetDLQItems_def Upload_def
      Download_def PresignedURL_def split: option.split prod.split)

text \<open>Only the queue operations write the trace of the queue; logging touches nothing else.\<close>

lemma queue_frames [frame]:
  "frames queue_log next_tick" "frames queue_log (time_now E)" "frames queue_log (with_log ctx f)"
  "frames queue_log (AddEvent E ctx step st err)" "frames queue_log (Upload E key ct body)"
  "frames queue_log (Download E key)" "frames queue_log (PresignedURL E key)"
  by (simp_all add: frames_def AddEvent_def Upload_def Download_def PresignedURL_def split: option.split prod.split)

lemma event_frames [frame]:
  "frames events next_tick" "frames events (time_now E)"
  "frames events (with_log ctx f)" "frames events (AddEvent E ctx step st err)"
  "frames events (EnqueueWithPriority E i p)" "frames events (Schedule E i p at)"
  "frames events (RemoveFromDLQ E i)" "frames events (GetQueueDepths E)" "frames events (GetDLQItems E)"
  "frames events (Upload E key ct body)" "frames events (Download E key)" "frames events (PresignedURL E key)"
  by (simp_all add: frames_def AddEvent_def GetQueueDepths_def GetDLQItems_def Upload_def
      Download_def PresignedURL_def split: option.split prod.split)

text \<open>The statements of the database touch their own table and nothing outside the tables.\<close>

lemma statement_frames:
  assumes "\<And>w t. g (w\<lparr> tick := t \<rparr>) = g w"
  shows "(\<And>w es. g (w\<lparr> events := es \<rparr>) = g w) \<Longrightarrow> frames g (InsertEvent E p)"
    and "(\<And>w es. g (w\<lparr> events := es \<rparr>) = g w) \<Longrightarrow> frames g (UpdateEventStatus E i st)"
    and "(\<And>w es. g (w\<lparr> events := es \<rparr>) = g w) \<Longrightarrow> frames g (UpdateEventResult E i r)"
    and "(\<And>w es. g (w\<lparr> events := es \<rparr>) = g w) \<Longrightarrow> frames g (CancelEventIfPending E i)"
    and "(\<And>w es. g (w\<lparr> events := es \<rparr>) = g w) \<Longrightarrow> frames g (ResetTaskForRetry E i)"
    and "(\<And>w ks. g (w\<lparr> idempotency_keys := ks \<rparr>) = g w) \<Longrightarrow> frames g (CreateIdempotencyKey E c)"
    and "(\<And>w ks. g (w\<lparr> idempotency_keys := ks \<rparr>) = g w) \<Longrightarrow> frames g (DeleteExpiredIdempotencyKeys E)"
    and "(\<And>w ls. g (w\<lparr> delivery_logs := ls \<rparr>) = g w) \<Longrightarrow> frames g (UpsertDeliveryLog E u)"
  unfolding statements
  by (rule frames_exec; use assms in \<open>auto split: option.splits if_splits\<close>)+

lemma query_frames [frame]:
  assumes "\<And>w t. g (w\<lparr> tick := t \<rparr>) = g w"
  shows "frames g (GetEventByID E i)" "frames g (GetIdempotencyKey E k)" "frames g (Isprocessed E k)"
    "frames g (CountEventsFiltered E f)" "frames g (ListEventsFiltered E f off lim)"
    "frames g (ListEventsByParentID E q)" "frames g (GetEventStatusCounts E)"
    "frames g (GetRecentProcessedCount E)" "frames g (GetDeliveryLogsForEvent E i)"
  using assms by (simp_all add: frames_def statements Isprocessed_def)

lemma save_frames:
  assumes "\<And>w t. g (w\<lparr> tick := t \<rparr>) = g w" "\<And>w es. g (w\<lparr> events := es \<rparr>) = g w"
  shows "frames g (SaveProcessedEvent E i ty pl st tr pr pa sch)" "frames g (RepoUpdateEventStatus E i x)"
    "frames g (RepoUpdateEventResult E i r)" "frames g (CancelTask E i)" "frames g (AdminResetTaskForRetry E i)"
  using statement_frames(1-5) [of g, OF assms(1,2)] assms(1)
  by (simp_all add: frames_def SaveProcessedEvent_def RepoUpdateEventStatus_def
      RepoUpdateEventResult_def CancelTask_def AdminResetTaskForRetry_def split: sum.split)

lemma key_frames:
  assumes "\<And>w t. g (w\<lparr> tick := t \<rparr>) = g w" "\<And>w ks. g (w\<lparr> idempotency_keys := ks \<rparr>) = g w"
  shows "frames g (CheckAndRecordToDB E k i meta)" "frames g (CleanupExpired E)"
  using statement_frames(6,7) [of g, OF assms(1,2)] assms(1)
  by (simp_all add: frames_def CheckAndRecordToDB_def CleanupExpired_def)

lemmas queue_statement_frames [frame] =
  save_frames [of queue_log, simplified] key_frames [of queue_log, simplified]
  query_frames [of queue_log, simplified]

lemmas event_key_frames [frame] =
  key_frames [of events, simplified] query_frames [of events, simplified]

end
