(* ===== verification/Threads.thy ===== *)
theory Threads
  imports World "HOL-Library.Multiset"
begin

text \<open>
  Programs that run side by side. A thread is a program cut at its accesses to what it shares with
  others: a statement, a call to the queue or to the object store. Between two accesses any other
  thread may have its turn. What a thread has for itself, the log context of its request, is kept
  beside it.

  Main results: run without interruption a thread is the program it was cut from (\<open>exec\<close>), and the
  locale \<open>interference\<close>: threads that each keep an invariant and a guarantee, on what they know of
  the shared state and no other thread can take away, keep both however their turns are ordered,
  and what a thread promises at its end holds from then on.
\<close>

section \<open>Programs cut at their accesses\<close>

datatype ('s, 'a) prog = Done 'a | Call "'s \<Rightarrow> 's" "'s \<Rightarrow> ('s, 'a) prog"

text \<open>An access, then the rest on its value.\<close>

definition Then :: "('s, 'a) state \<Rightarrow> ('a \<Rightarrow> ('s, 'b) prog) \<Rightarrow> ('s, 'b) prog" where
  "Then m k = Call (final m) (\<lambda>s. k (value_of m s))"

definition atomic :: "('s, 'a) state \<Rightarrow> ('s, 'a) prog" where
  "atomic m = Then m Done"

primrec andThen :: "('s, 'a) prog \<Rightarrow> ('a \<Rightarrow> ('s, 'b) prog) \<Rightarrow> ('s, 'b) prog" where
  "andThen (Done a) q = q a"
| "andThen (Call g k) q = Call g (\<lambda>s. andThen (k s) q)"

text \<open>Without interruption.\<close>

primrec exec :: "('s, 'a) prog \<Rightarrow> ('s, 'a) state" where
  "exec (Done a) = State_Monad.return a"
| "exec (Call g k) = State (\<lambda>s. run_state (exec (k s)) (g s))"

named_theorems exec_rules \<open>the program a thread was cut from\<close>

lemma state_eqI: "(\<And>s. run_state m s = run_state m' s) \<Longrightarrow> m = m'"
  by (cases m; cases m') auto

lemma exec_Then [exec_rules]: "exec (Then m k) = State_Monad.bind m (\<lambda>a. exec (k a))"
  by (rule state_eqI) (simp add: Then_def final_def value_of_def split_def)

lemma exec_Done [exec_rules]: "exec (Done a) = State_Monad.return a"
  by simp

lemma exec_atomic [exec_rules]: "exec (atomic m) = m"
  by (rule state_eqI) (simp add: atomic_def exec_Then)

lemma exec_andThen [exec_rules]: "exec (andThen p q) = State_Monad.bind (exec p) (\<lambda>a. exec (q a))"
  by (induction p) (auto intro!: state_eqI simp: split_def)

lemma exec_cases [exec_rules]:
  "exec (if b then p else p') = (if b then exec p else exec p')"
  "exec (case r of Inl e \<Rightarrow> f e | Inr a \<Rightarrow> g a) = (case r of Inl e \<Rightarrow> exec (f e) | Inr a \<Rightarrow> exec (g a))"
  "exec (case c of None \<Rightarrow> p | Some a \<Rightarrow> h a) = (case c of None \<Rightarrow> exec p | Some a \<Rightarrow> exec (h a))"
  "exec (case d of (x, y) \<Rightarrow> t x y) = (case d of (x, y) \<Rightarrow> exec (t x y))"
  by (simp_all split: sum.split option.split prod.split)

lemma bind_assoc [exec_rules]:
  "State_Monad.bind (State_Monad.bind m f) g = State_Monad.bind m (\<lambda>a. State_Monad.bind (f a) g)"
  by (rule state_eqI) (simp add: split_def)

lemma bind_return [exec_rules]: "State_Monad.bind (State_Monad.return a) f = f a"
  by (rule state_eqI) simp

text \<open>How far a program has come by itself.\<close>

inductive reaches :: "('s, 'r) prog \<Rightarrow> 's \<Rightarrow> ('s, 'r) prog \<Rightarrow> 's \<Rightarrow> bool" where
  here: "reaches p s p s"
| ahead: "reaches (k s) (g s) p' s' \<Longrightarrow> reaches (Call g k) s p' s'"

lemma reaches_trans: "reaches p s p' s' \<Longrightarrow> reaches p' s' p'' s'' \<Longrightarrow> reaches p s p'' s''"
  by (induction rule: reaches.induct) (auto intro: reaches.ahead)

lemma reaches_Then: "reaches (k (value_of m s)) (final m s) p' s' \<Longrightarrow> reaches (Then m k) s p' s'"
  by (simp add: Then_def reaches.ahead)

lemma reaches_andThen: "reaches p s p' s' \<Longrightarrow> reaches (andThen p q) s (andThen p' q) s'"
  by (induction rule: reaches.induct) (auto intro: reaches.intros)

lemma reaches_end: "reaches p s (Done (value_of (exec p) s)) (final (exec p) s)"
proof (induction p arbitrary: s)
  case (Call g k)
  from Call.IH [OF rangeI, of s "g s"] show ?case
    by (auto simp: value_of_def final_def intro: reaches.ahead)
qed (simp add: value_of_def final_def reaches.here)

section \<open>Turns\<close>

text \<open>A thread: what it was started for, the rest of its program, its log context.\<close>

record ('k, 's, 'r) thread =
  th_task :: 'k
  th_rest :: "('s, 'r) prog"
  th_log :: log_context

type_synonym ('k, 'x, 'r) pool = "'x world_scheme \<times> ('k, 'x world_scheme, 'r) thread list"

text \<open>One access: the thread sees its own log context, the others never do.\<close>

definition take_turn :: "'x world_scheme \<Rightarrow> ('k, 'x world_scheme, 'r) thread
    \<Rightarrow> 'x world_scheme \<times> ('k, 'x world_scheme, 'r) thread" where
  "take_turn w t = (case th_rest t of
      Done r \<Rightarrow> (w, t)
    | Call g k \<Rightarrow> (let v = w\<lparr> req_log := th_log t \<rparr>; v' = g v in
        (v'\<lparr> req_log := req_log w \<rparr>, t\<lparr> th_rest := k v, th_log := req_log v' \<rparr>)))"

definition finished :: "('k, 's, 'r) thread \<Rightarrow> bool" where
  "finished t \<longleftrightarrow> (case th_rest t of Done r \<Rightarrow> True | Call g k \<Rightarrow> False)"

inductive turn :: "('k, 'x, 'r) pool \<Rightarrow> nat \<Rightarrow> ('k, 'x, 'r) pool \<Rightarrow> bool" where
  turn: "i < length ts \<Longrightarrow> \<not> finished (ts ! i) \<Longrightarrow> take_turn w (ts ! i) = (w', t)
    \<Longrightarrow> turn (w, ts) i (w', ts[i := t])"

inductive_cases turn_cases: "turn (w, ts) i c"

text \<open>What holds of every access a thread can make.\<close>

primrec every_call :: "(('s \<Rightarrow> 's) \<Rightarrow> bool) \<Rightarrow> ('s, 'a) prog \<Rightarrow> bool" where
  "every_call C (Done a) \<longleftrightarrow> True"
| "every_call C (Call g k) \<longleftrightarrow> C g \<and> (\<forall>s. every_call C (k s))"

named_theorems call_rules \<open>programs all of whose accesses have a property\<close>

lemma every_Done [call_rules]: "every_call C (Done a)"
  by simp

lemma every_Then [call_rules]: "C (final m) \<Longrightarrow> (\<And>a. every_call C (k a)) \<Longrightarrow> every_call C (Then m k)"
  by (simp add: Then_def)

lemma every_atomic [call_rules]: "C (final m) \<Longrightarrow> every_call C (atomic m)"
  by (simp add: atomic_def Then_def)

lemma every_andThen [call_rules]: "every_call C p \<Longrightarrow> (\<And>a. every_call C (q a)) \<Longrightarrow> every_call C (andThen p q)"
  by (induction p) (auto simp: rangeI)

lemma every_cases [call_rules]:
  "every_call C p \<Longrightarrow> every_call C p' \<Longrightarrow> every_call C (if b then p else p')"
  "(\<And>e. every_call C (f e)) \<Longrightarrow> (\<And>a. every_call C (g a)) \<Longrightarrow> every_call C (case r of Inl e \<Rightarrow> f e | Inr a \<Rightarrow> g a)"
  "every_call C p \<Longrightarrow> (\<And>a. every_call C (h a)) \<Longrightarrow> every_call C (case c of None \<Rightarrow> p | Some a \<Rightarrow> h a)"
  "(\<And>x y. every_call C (t x y)) \<Longrightarrow> every_call C (case d of (x, y) \<Rightarrow> t x y)"
  by (simp_all split: sum.split option.split prod.split)

text \<open>The branches, with what they are taken on.\<close>

lemma every_if: "(b \<Longrightarrow> every_call C p) \<Longrightarrow> (\<not> b \<Longrightarrow> every_call C p') \<Longrightarrow> every_call C (if b then p else p')"
  by simp

lemma every_option: "(c = None \<Longrightarrow> every_call C p) \<Longrightarrow> (\<And>a. c = Some a \<Longrightarrow> every_call C (h a)) \<Longrightarrow>
    every_call C (case c of None \<Rightarrow> p | Some a \<Rightarrow> h a)"
  by (simp split: option.split)

lemma every_prod: "(\<And>x y. d = (x, y) \<Longrightarrow> every_call C (t x y)) \<Longrightarrow> every_call C (case d of (x, y) \<Rightarrow> t x y)"
  by (simp split: prod.split)

section \<open>What interference leaves\<close>

definition stable :: "('s \<Rightarrow> 's \<Rightarrow> bool) \<Rightarrow> ('s \<Rightarrow> bool) \<Rightarrow> bool" where
  "stable G K \<longleftrightarrow> (\<forall>w w'. K w \<longrightarrow> G w w' \<longrightarrow> K w')"

text \<open>
  \<open>safe I G Q p K\<close>: from states of the invariant \<open>I\<close> in which the thread knows \<open>K\<close>, every access of
  \<open>p\<close> keeps \<open>I\<close> and is a change of \<open>G\<close>, and the end of \<open>p\<close> has \<open>Q\<close>; what it knows in between is
  stable under \<open>G\<close>.
\<close>

primrec safe :: "('s \<Rightarrow> bool) \<Rightarrow> ('s \<Rightarrow> 's \<Rightarrow> bool) \<Rightarrow> ('r \<Rightarrow> 's \<Rightarrow> bool) \<Rightarrow> ('s, 'r) prog \<Rightarrow> ('s \<Rightarrow> bool) \<Rightarrow> bool" where
  "safe I G Q (Done r) K \<longleftrightarrow> stable G K \<and> (\<forall>w. I w \<longrightarrow> K w \<longrightarrow> Q r w)"
| "safe I G Q (Call g k) K \<longleftrightarrow> stable G K \<and>
    (\<forall>w. I w \<longrightarrow> K w \<longrightarrow> I (g w) \<and> G w (g w) \<and> (\<exists>L. L (g w) \<and> safe I G Q (k w) L))"

text \<open>One access with what must hold before and what is known after it.\<close>

definition access :: "('s \<Rightarrow> bool) \<Rightarrow> ('s \<Rightarrow> 's \<Rightarrow> bool) \<Rightarrow> ('s \<Rightarrow> bool) \<Rightarrow> ('s, 'a) state \<Rightarrow> ('a \<Rightarrow> 's \<Rightarrow> bool) \<Rightarrow> bool" where
  "access I G K m L \<longleftrightarrow> (\<forall>w. I w \<longrightarrow> K w \<longrightarrow> I (final m w) \<and> G w (final m w) \<and> L (value_of m w) (final m w))"

lemma safe_stable: "safe I G Q p K \<Longrightarrow> stable G K"
  by (cases p) simp_all

lemma safe_Done: "stable G K \<Longrightarrow> (\<And>w. I w \<Longrightarrow> K w \<Longrightarrow> Q r w) \<Longrightarrow> safe I G Q (Done r) K"
  by simp

lemma safe_Then:
  assumes "stable G K" "access I G K m L" "\<And>a. safe I G Q (k a) (L a)"
  shows "safe I G Q (Then m k) K"
  using assms by (auto simp: Then_def access_def)

lemma safe_weaken: "safe I G Q p L \<Longrightarrow> stable G K \<Longrightarrow> (\<And>w. I w \<Longrightarrow> K w \<Longrightarrow> L w) \<Longrightarrow> safe I G Q p K"
  by (cases p) simp_all

text \<open>Accesses that keep an invariant whatever is known.\<close>

lemma every_safe: "every_call (\<lambda>g. \<forall>w. I w \<longrightarrow> I (g w)) p \<Longrightarrow> safe I (\<lambda>w w'. True) (\<lambda>r w. True) p (\<lambda>w. True)"
proof (induction p)
  case (Call g k)
  show ?case
    unfolding safe.simps using Call.prems Call.IH [OF rangeI] by (auto simp: stable_def intro: exI [of _ "\<lambda>w. True"])
qed (simp add: stable_def)

lemma safe_never: "(\<And>w. \<not> K w) \<Longrightarrow> safe I G Q p K"
  by (cases p) (simp_all add: stable_def)

lemma safe_andThen: "safe I G R p K \<Longrightarrow> (\<And>a. safe I G Q (q a) (R a)) \<Longrightarrow> safe I G Q (andThen p q) K"
proof (induction p arbitrary: K)
  case (Done a)
  then show ?case by (auto intro: safe_weaken [of I G Q "q a" "R a" K])
next
  case (Call g k)
  then show ?case by (simp add: rangeI) blast
qed

lemma safe_mono:
  "safe I G R p K \<Longrightarrow> (\<And>r w. I w \<Longrightarrow> R r w \<Longrightarrow> Q r w) \<Longrightarrow> safe I G Q p K"
proof (induction p arbitrary: K)
  case (Call g k)
  show ?case unfolding safe.simps
  proof (intro conjI allI impI)
    show "stable G K" using Call.prems(1) by simp
    fix w assume w: "I w" "K w"
    then obtain L where L: "I (g w)" "G w (g w)" "L (g w)" "safe I G R (k w) L"
      using Call.prems(1) by auto
    show "I (g w)" "G w (g w)" by (rule L)+
    have "safe I G Q (k w) L" using Call.IH [OF rangeI L(4)] Call.prems(2) by blast
    then show "\<exists>L. L (g w) \<and> safe I G Q (k w) L" using L(3) by blast
  qed
qed auto

lemma safe_if: "(b \<Longrightarrow> safe I G Q p K) \<Longrightarrow> (\<not> b \<Longrightarrow> safe I G Q p' K) \<Longrightarrow> safe I G Q (if b then p else p') K"
  by simp

lemma safe_sum: "(\<And>e. r = Inl e \<Longrightarrow> safe I G Q (f e) K) \<Longrightarrow> (\<And>a. r = Inr a \<Longrightarrow> safe I G Q (g a) K) \<Longrightarrow>
    safe I G Q (case r of Inl e \<Rightarrow> f e | Inr a \<Rightarrow> g a) K"
  by (simp split: sum.split)

lemma safe_option: "(r = None \<Longrightarrow> safe I G Q p K) \<Longrightarrow> (\<And>a. r = Some a \<Longrightarrow> safe I G Q (g a) K) \<Longrightarrow>
    safe I G Q (case r of None \<Rightarrow> p | Some a \<Rightarrow> g a) K"
  by (simp split: option.split)

lemma safe_prod: "(\<And>a b. r = (a, b) \<Longrightarrow> safe I G Q (f a b) K) \<Longrightarrow> safe I G Q (case r of (a, b) \<Rightarrow> f a b) K"
  by (simp split: prod.split)

locale interference =
  fixes I :: "'x world_scheme \<Rightarrow> bool" and G :: "'x world_scheme \<Rightarrow> 'x world_scheme \<Rightarrow> bool"
  assumes no_change: "G w w"
    and changes: "G w w' \<Longrightarrow> G w' w'' \<Longrightarrow> G w w''"
    and own_log: "G w (w\<lparr> req_log := l \<rparr>)" "I w \<Longrightarrow> I (w\<lparr> req_log := l \<rparr>)"
begin

text \<open>All threads of a pool are safe, each with a promise about its end.\<close>

definition all_safe :: "(nat \<Rightarrow> 'k \<Rightarrow> 'r \<Rightarrow> 'x world_scheme \<Rightarrow> bool) \<Rightarrow> ('k, 'x, 'r) pool \<Rightarrow> bool" where
  "all_safe Q c \<longleftrightarrow> I (fst c) \<and>
    (\<forall>j<length (snd c). \<exists>K. K (fst c) \<and> safe I G (Q j (th_task (snd c ! j))) (th_rest (snd c ! j)) K)"

lemma known_kept: "safe I G Q p K \<Longrightarrow> K w \<Longrightarrow> G w w' \<Longrightarrow> K w'"
  using safe_stable unfolding stable_def by blast

lemma take_turn_safe:
  assumes "I w" "K w" "safe I G Q (th_rest t) K" "\<not> finished t" "take_turn w t = (w', t')"
  shows "I w' \<and> G w w' \<and> th_task t' = th_task t \<and> (\<exists>L. L w' \<and> safe I G Q (th_rest t') L)"
proof (cases "th_rest t")
  case (Done r)
  then show ?thesis using assms(4) by (simp add: finished_def)
next
  case (Call g k)
  define v where "v = w\<lparr> req_log := th_log t \<rparr>"
  have w': "w' = (g v)\<lparr> req_log := req_log w \<rparr>" "t' = t\<lparr> th_rest := k v, th_log := req_log (g v) \<rparr>"
    using assms(5) Call by (auto simp: take_turn_def Let_def v_def)
  have v: "I v" "G w v" using assms(1) own_log by (simp_all add: v_def)
  then have "K v" using assms(2,3) known_kept by blast
  then obtain L where L: "I (g v)" "G v (g v)" "L (g v)" "safe I G Q (k v) L"
    using assms(3) v(1) Call by auto
  have "G (g v) w'" "I w'" using own_log L(1) by (simp_all add: w'(1))
  moreover have "L w'" using L(3,4) calculation(1) known_kept by blast
  moreover have "G w w'" using v(2) L(2) calculation(1) changes by blast
  ultimately show ?thesis using L(4) by (auto simp: w'(2))
qed

theorem turn_safe:
  assumes "all_safe Q c" "turn c i c'"
  shows "all_safe Q c' \<and> G (fst c) (fst c')"
proof -
  obtain w ts w' t where c: "c = (w, ts)" "c' = (w', ts[i := t])" "i < length ts" "\<not> finished (ts ! i)"
      "take_turn w (ts ! i) = (w', t)"
    using assms(2) by (auto elim: turn.cases)
  have each: "\<exists>K. K w \<and> safe I G (Q j (th_task (ts ! j))) (th_rest (ts ! j)) K" if "j < length ts" for j
    using assms(1) that by (auto simp: all_safe_def c)
  obtain K where K: "K w" "safe I G (Q i (th_task (ts ! i))) (th_rest (ts ! i)) K"
    using each [OF c(3)] by auto
  have "I w" using assms(1) by (simp add: all_safe_def c)
  from take_turn_safe [OF this K c(4,5)] have s: "I w'" "G w w'" "th_task t = th_task (ts ! i)"
    "\<exists>L. L w' \<and> safe I G (Q i (th_task (ts ! i))) (th_rest t) L" by auto
  have "\<exists>L. L w' \<and> safe I G (Q j (th_task (ts[i := t] ! j))) (th_rest (ts[i := t] ! j)) L" if j: "j < length ts" for j
  proof (cases "j = i")
    case False
    obtain L where L: "L w" "safe I G (Q j (th_task (ts ! j))) (th_rest (ts ! j)) L" using each [OF j] by blast
    then have "L w'" using s(2) known_kept by blast
    then show ?thesis using L(2) False by (intro exI [of _ L]) simp
  qed (use s c(3) in simp)
  then show ?thesis using s by (simp add: all_safe_def c)
qed

text \<open>A thread that has ended has kept its promise, and whatever it promised still holds.\<close>

theorem promise_kept:
  assumes "all_safe Q (w, ts)" "j < length ts" "th_rest (ts ! j) = Done r"
  shows "Q j (th_task (ts ! j)) r w"
  using assms by (force simp: all_safe_def)

lemma all_safe_start:
  assumes "all_safe Q (w, ts)" "safe I G (Q (length ts) k) p K" "K w"
  shows "all_safe Q (w, ts @ [\<lparr> th_task = k, th_rest = p, th_log = l \<rparr>])"
  using assms by (auto simp: all_safe_def nth_append less_Suc_eq)

lemma all_safe_mono:
  assumes "all_safe Q c" "\<And>j k r w. j < length (snd c) \<Longrightarrow> Q j k r w \<Longrightarrow> Q' j k r w"
  shows "all_safe Q' c"
proof -
  have "\<exists>K. K (fst c) \<and> safe I G (Q' j (th_task (snd c ! j))) (th_rest (snd c ! j)) K" if j: "j < length (snd c)" for j
  proof -
    obtain K where K: "K (fst c)" "safe I G (Q j (th_task (snd c ! j))) (th_rest (snd c ! j)) K"
      using assms(1) j unfolding all_safe_def by blast
    have "safe I G (Q' j (th_task (snd c ! j))) (th_rest (snd c ! j)) K"
      by (rule safe_mono [OF K(2)]) (rule assms(2) [OF j])
    then show ?thesis using K(1) by blast
  qed
  then show ?thesis using assms(1) unfolding all_safe_def by blast
qed

lemma all_safe_none: "I w \<Longrightarrow> all_safe Q (w, [])"
  by (simp add: all_safe_def)

end

section \<open>Turns end\<close>

text \<open>A thread has finitely many turns, so a pool in which nothing arrives comes to rest.\<close>

definition rest_of :: "(('s, 'r) prog \<times> ('s, 'r) prog) set" where
  "rest_of = {(k s, Call g k) | g k s. True}"

lemma wf_rest: "wf rest_of"
proof (rule wfUNIVI)
  fix P :: "('s, 'r) prog \<Rightarrow> bool" and p
  assume step: "\<forall>p. (\<forall>q. (q, p) \<in> rest_of \<longrightarrow> P q) \<longrightarrow> P p"
  show "P p"
  proof (induction p)
    case (Done a)
    show ?case using step by (auto simp: rest_of_def)
  next
    case (Call g k)
    then have "\<forall>q. (q, Call g k) \<in> rest_of \<longrightarrow> P q" by (auto simp: rest_of_def)
    then show ?case using step by blast
  qed
qed

definition rests :: "('k, 'x, 'r) pool \<Rightarrow> ('x world_scheme, 'r) prog multiset" where
  "rests c = mset (map th_rest (snd c))"

lemma turn_rests:
  assumes "turn c i c'"
  shows "(rests c', rests c) \<in> mult rest_of"
proof -
  obtain w ts w' t where c: "c = (w, ts)" "c' = (w', ts[i := t])" "i < length ts" "\<not> finished (ts ! i)"
      "take_turn w (ts ! i) = (w', t)"
    using assms by (auto elim: turn.cases)
  obtain g k where gk: "th_rest (ts ! i) = Call g k" using c(4) by (cases "th_rest (ts ! i)") (auto simp: finished_def)
  define xs where "xs = map th_rest (take i ts) @ map th_rest (drop (Suc i) ts)"
  have "(th_rest t, th_rest (ts ! i)) \<in> rest_of"
    using c(5) gk by (auto simp: take_turn_def Let_def rest_of_def)
  then have "(add_mset (th_rest t) (mset xs), add_mset (th_rest (ts ! i)) (mset xs)) \<in> mult1 rest_of"
    by (intro mult1I [where K = "{#th_rest t#}"]) auto
  moreover have "mset (map th_rest ts) = add_mset (th_rest (ts ! i)) (mset xs)"
    by (subst id_take_nth_drop [OF c(3)]) (simp add: xs_def)
  moreover have "mset (map th_rest (ts[i := t])) = add_mset (th_rest t) (mset xs)"
    by (subst upd_conv_take_nth_drop [OF c(3)]) (simp add: xs_def)
  ultimately show ?thesis by (auto simp: rests_def c mult_def)
qed

lemma wf_turns: "wf {(c', c). \<exists>i. turn c i c'}"
proof (rule wf_subset)
  show "wf (inv_image (mult rest_of) rests)" by (intro wf_inv_image wf_mult wf_rest)
qed (auto simp: turn_rests)

end
