(* ===== verification/Sender.thy ===== *)
theory Sender
  imports World
begin

text \<open>
  \<open>internal/sender/response.go\<close>: the two ways a handler answers, and the JSON objects it builds
  from \<open>map[string]any\<close> (members in the order of their keys). Writing the line to the process log
  is left out.
\<close>

section \<open>Responses\<close>

record http_response =
  rs_status :: nat
  rs_content_type :: string
  rs_body :: bytes

definition status_text :: "nat \<Rightarrow> string" where
  "status_text n =
    (if n = 200 then ''OK'' else if n = 201 then ''Created'' else if n = 202 then ''Accepted''
     else if n = 204 then ''No Content'' else if n = 400 then ''Bad Request''
     else if n = 401 then ''Unauthorized'' else if n = 403 then ''Forbidden''
     else if n = 404 then ''Not Found'' else if n = 405 then ''Method Not Allowed''
     else if n = 409 then ''Conflict'' else if n = 500 then ''Internal Server Error''
     else if n = 503 then ''Service Unavailable'' else [])"

text \<open>\<open>http.Error\<close> writes the message and a newline as plain text.\<close>

definition http_error :: "string \<Rightarrow> nat \<Rightarrow> http_response" where
  "http_error message status = \<lparr> rs_status = status, rs_content_type = ''text/plain; charset=utf-8'',
    rs_body = message @ [CHR 0x0A] \<rparr>"

text \<open>
  The log context of this package is looked up under this package's own key; the stack that
  \<open>pkgErr.WithStack\<close> adds is not modelled further. The error can be nil.
\<close>

definition record_error :: "ctx \<Rightarrow> goerr option \<Rightarrow> ('x world_scheme, unit) state" where
  "record_error ctx err = State_Monad.update (\<lambda>w.
    if ctx (SenderKey ''log_context'') = Some SenderLogPtr
    then w\<lparr> sender_log := map_option (\<lambda>e. StackError e []) err \<rparr> else w)"

definition error_message :: "nat \<Rightarrow> goerr option \<Rightarrow> string" where
  "error_message status err =
    (if status = 401 \<or> status = 403 \<or> status = 500 then status_text status
     else (case err of Some e \<Rightarrow> err_msg e | None \<Rightarrow> status_text status))"

definition RespondWithError :: "ctx \<Rightarrow> nat \<Rightarrow> goerr \<Rightarrow> ('x world_scheme, http_response) state" where
  "RespondWithError ctx status err = do {
    record_error ctx (Some err);
    State_Monad.return (http_error (error_message status (Some err)) status)
  }"

text \<open>\<open>None\<close> is a payload that \<open>json.Marshal\<close> refuses.\<close>

definition RespondWithJSON :: "nat \<Rightarrow> json option \<Rightarrow> ('x world_scheme, http_response) state" where
  "RespondWithJSON code payload = State_Monad.return (case payload of
      None \<Rightarrow> http_error ''An error occured during marshalling'' 500
    | Some j \<Rightarrow> \<lparr> rs_status = code, rs_content_type = ''application/json'', rs_body = jprint j \<rparr>)"

section \<open>JSON payloads\<close>

definition jmap :: "(string \<times> json) list \<Rightarrow> json" where
  "jmap kvs = JObj (map (\<lambda>(k, v). member (quote k) v) (sort_key fst kvs))"

definition jint :: "int \<Rightarrow> json" where
  "jint i = JNum (dec_int i)"

definition jnat :: "nat \<Rightarrow> json" where
  "jnat n = JNum (dec n)"

text \<open>A struct field with \<open>omitempty\<close>.\<close>

definition text_field :: "string \<Rightarrow> string \<Rightarrow> (string \<times> string \<times> json) list" where
  "text_field k s = [member k (jstring s)]"

definition text_field_opt :: "string \<Rightarrow> string \<Rightarrow> (string \<times> string \<times> json) list" where
  "text_field_opt k s = (if s = [] then [] else [member k (jstring s)])"

section \<open>Facts\<close>

lemma final_respond_error [simp]:
  "final (RespondWithError ctx status err) w =
    (if ctx (SenderKey ''log_context'') = Some SenderLogPtr
     then w\<lparr> sender_log := Some (StackError err []) \<rparr> else w)"
  and value_respond_error [simp]:
  "value_of (RespondWithError ctx status err) w = http_error (error_message status (Some err)) status"
  by (simp_all add: RespondWithError_def record_error_def)

lemma final_respond_json [simp]: "final (RespondWithJSON code p) w = w"
  and value_respond_json [simp]: "value_of (RespondWithJSON code (Some j)) w
    = \<lparr> rs_status = code, rs_content_type = ''application/json'', rs_body = jprint j \<rparr>"
  and value_respond_json_None [simp]: "value_of (RespondWithJSON code None) w
    = http_error ''An error occured during marshalling'' 500"
  by (simp_all add: RespondWithJSON_def)

lemma status_http_error [simp]: "rs_status (http_error m s) = s"
  by (simp add: http_error_def)

lemma ok_respond [wf_intros]: "keeps db_ok (RespondWithError ctx status err)"
  "keeps db_ok (RespondWithJSON code p)"
  by (simp_all add: keeps_def)

lemma respond_frames [frame]:
  "frames queue_log (RespondWithError ctx status err)" "frames queue_log (RespondWithJSON code p)"
  "frames events (RespondWithError ctx status err)" "frames events (RespondWithJSON code p)"
  "frames req_log (RespondWithError ctx status err)" "frames req_log (RespondWithJSON code p)"
  by (simp_all add: frames_def)

text \<open>The statuses a handler can answer with.\<close>

definition status_in :: "nat set \<Rightarrow> ('s, http_response) state \<Rightarrow> bool" where
  "status_in S m \<longleftrightarrow> (\<forall>w. rs_status (value_of m w) \<in> S)"

named_theorems status_rules \<open>the statuses of composed handlers\<close>

lemma status_inD: "status_in S m \<Longrightarrow> rs_status (value_of m w) \<in> S"
  by (simp add: status_in_def)

lemma status_bind [status_rules]: "(\<And>a. status_in S (f a)) \<Longrightarrow> status_in S (State_Monad.bind m f)"
  by (simp add: status_in_def)

lemma status_if [status_rules]: "status_in S m \<Longrightarrow> status_in S m' \<Longrightarrow> status_in S (if b then m else m')"
  by simp

lemma status_sum [status_rules]:
  "(\<And>e. status_in S (f e)) \<Longrightarrow> (\<And>a. status_in S (g a)) \<Longrightarrow> status_in S (case r of Inl e \<Rightarrow> f e | Inr a \<Rightarrow> g a)"
  by (simp split: sum.split)

lemma status_option [status_rules]:
  "status_in S m \<Longrightarrow> (\<And>a. status_in S (g a)) \<Longrightarrow> status_in S (case r of None \<Rightarrow> m | Some a \<Rightarrow> g a)"
  by (simp split: option.split)

lemma status_prod [status_rules]: "(\<And>a b. status_in S (f a b)) \<Longrightarrow> status_in S (case r of (a, b) \<Rightarrow> f a b)"
  by (simp split: prod.split)

lemma status_error [status_rules]: "status \<in> S \<Longrightarrow> status_in S (RespondWithError ctx status err)"
  by (simp add: status_in_def)

lemma status_json [status_rules]: "code \<in> S \<Longrightarrow> 500 \<in> S \<Longrightarrow> status_in S (RespondWithJSON code p)"
  by (cases p) (simp_all add: status_in_def)

end
