(* ===== verification/Go_Raw.thy ===== *)
theory Go_Raw
  imports Go_Json
begin

text \<open>
  The text a raw message receives. A member of a document keeps the text of its value beside the
  value; that text is a document of its own, with that very value (\<open>jsrc\<close>), because the reader
  takes a value from the front of a text and looks no further.
\<close>

section \<open>The reader takes its value from the front\<close>

lemma skip_ws_parts: "skip_ws r = c # cs \<Longrightarrow> \<exists>b. r = b @ c # cs \<and> (\<forall>x\<in>set b. is_ws x) \<and> \<not> is_ws c"
proof (induction r)
  case (Cons x r)
  show ?case
  proof (cases "is_ws x")
    case True
    then obtain b where "r = b @ c # cs" "\<forall>y\<in>set b. is_ws y" "\<not> is_ws c"
      using Cons by (auto simp: skip_ws_Cons)
    then show ?thesis using True by (intro exI [of _ "x # b"]) auto
  next
    case False
    then show ?thesis using Cons.prems by (simp add: skip_ws_Cons)
  qed
qed simp

lemma skip_ws_front: "\<forall>x\<in>set b. is_ws x \<Longrightarrow> \<not> is_ws c \<Longrightarrow> skip_ws (b @ c # cs) = c # cs"
  by (induction b) (simp_all add: skip_ws_Cons)

lemma ws_not_num: "is_ws c \<Longrightarrow> \<not> num_char c"
  by (auto simp: is_ws_def num_char_def is_digit_def byte_def)

lemma ws_delim: "\<forall>x\<in>set b. is_ws x \<Longrightarrow> \<not> num_char c \<Longrightarrow> delim (b @ c # cs)"
  by (cases b) (simp_all add: delim_def ws_not_num)

lemma skip_ws_split: "\<exists>b. s = b @ skip_ws s \<and> (\<forall>x\<in>set b. is_ws x)"
  by (intro exI [of _ "takeWhile is_ws s"]) (auto simp: skip_ws_def dest: set_takeWhileD)

lemma skip_ws_ws: "\<forall>x\<in>set b. is_ws x \<Longrightarrow> skip_ws (b @ s) = skip_ws s"
  by (induction b) (simp_all add: skip_ws_Cons)

lemma skip_ws_append: "skip_ws u \<noteq> [] \<Longrightarrow> skip_ws (u @ x) = skip_ws u @ x"
  by (induction u) (auto simp: skip_ws_Cons split: if_splits)

lemma skip_ws_head: "skip_ws s = s \<Longrightarrow> s = u @ r \<Longrightarrow> u \<noteq> [] \<Longrightarrow> skip_ws (u @ x) = u @ x"
  using skip_ws_length [of "tl s"] by (cases u) (auto simp: skip_ws_Cons split: if_splits)

lemma skip_ws_idem [simp]: "skip_ws (skip_ws s) = skip_ws s"
  by (simp add: skip_ws_def)

lemma tail_delim: "skip_ws r = c # cs \<Longrightarrow> c = CHR '','' \<or> c = CHR '']'' \<or> c = CHR ''}'' \<Longrightarrow>
    \<exists>b. r = b @ c # cs \<and> (\<forall>xs. skip_ws (b @ c # xs) = c # xs \<and> delim (b @ c # xs))"
  using skip_ws_parts [of r c cs] skip_ws_front ws_delim [of _ c]
  by (auto simp: num_char_def is_digit_def byte_def)

lemma pmembers_parts:
  assumes "pmembers (Suc n) s = Some (ms, r)"
  obtains qs k r1 r1' v r3 c cs where
    "skip_ws s = DQUOTE # qs" and "scan_str qs = Some (k, r1)" and "skip_ws r1 = CHR '':'' # r1'"
    and "pvalue n (skip_ws r1') = Some (v, r3)" and "skip_ws r3 = c # cs"
    and "c = CHR '','' \<and> (\<exists>ms'. pmembers n cs = Some (ms', r)
        \<and> ms = (k, take (length (skip_ws r1') - length r3) (skip_ws r1'), v) # ms')
      \<or> c = CHR ''}'' \<and> ms = [(k, take (length (skip_ws r1') - length r3) (skip_ws r1'), v)] \<and> r = cs"
proof -
  obtain qs where q: "skip_ws s = DQUOTE # qs"
    using assms by (cases "skip_ws s") (auto simp: pmembers.simps split: if_splits)
  with assms obtain k r1 where k: "scan_str qs = Some (k, r1)"
    by (cases "scan_str qs") (auto simp: pmembers.simps)
  with q assms obtain r1' where d: "skip_ws r1 = CHR '':'' # r1'"
    by (cases "skip_ws r1") (auto simp: pmembers.simps split: if_splits)
  with q k assms obtain v r3 where v: "pvalue n (skip_ws r1') = Some (v, r3)"
    by (cases "pvalue n (skip_ws r1')") (auto simp: pmembers.simps)
  with q k d assms obtain c cs where c: "skip_ws r3 = c # cs"
    by (cases "skip_ws r3") (auto simp: pmembers.simps Let_def)
  show thesis
    using assms q k d v c
    by (intro that [of qs k r1 r1' v r3 c cs]) (auto simp: pmembers.simps Let_def split: if_splits)
qed

lemma pvalue_front_step:
  assumes E: "\<And>s vs r. pelems n s = Some (vs, r) \<Longrightarrow> \<exists>u. s = u @ r \<and> (\<forall>x. pelems n (u @ x) = Some (vs, x))"
    and M: "\<And>s ms r. pmembers n s = Some (ms, r) \<Longrightarrow> \<exists>u. s = u @ r \<and> (\<forall>x. pmembers n (u @ x) = Some (ms, x))"
    and p: "pvalue (Suc n) s = Some (j, r)"
  shows "\<exists>u. s = u @ r \<and> (\<forall>x. delim x \<longrightarrow> pvalue (Suc n) (u @ x) = Some (j, x))"
proof -
  obtain c cs where c: "skip_ws s = c # cs" using p by (cases "skip_ws s") (auto simp: pvalue.simps)
  obtain b where b: "s = b @ c # cs" "\<forall>x\<in>set b. is_ws x" "\<not> is_ws c" using skip_ws_parts [OF c] by blast
  have skip: "pvalue (Suc n) (b @ t) = pvalue (Suc n) t" for t
    by (simp add: pvalue.simps skip_ws_ws [OF b(2)])
  have q: "pvalue (Suc n) (c # cs) = Some (j, r)" using p skip b(1) by simp
  have "\<exists>u. c # cs = u @ r \<and> (\<forall>x. delim x \<longrightarrow> pvalue (Suc n) (u @ x) = Some (j, x))"
  proof -
    consider (obj) "c = CHR ''{''" | (arr) "c = CHR ''[''" | (str) "c = DQUOTE"
      | (lit) "c \<noteq> CHR ''{''" "c \<noteq> CHR ''[''" "c \<noteq> DQUOTE" by blast
    then show ?thesis
    proof cases
      case obj
      show ?thesis
      proof (cases "take 1 (skip_ws cs) = ''}''")
        case True
        then obtain cs' where e: "skip_ws cs = CHR ''}'' # cs'" by (cases "skip_ws cs") auto
        obtain b' where b': "cs = b' @ CHR ''}'' # cs'" "\<forall>xs. skip_ws (b' @ CHR ''}'' # xs) = CHR ''}'' # xs"
          using tail_delim [OF e] by auto
        from q obj e have "j = JObj []" "r = cs'" by (auto simp: pvalue_obj)
        with obj b' show ?thesis by (intro exI [of _ "c # b' @ ''}''"]) (simp add: pvalue_obj)
      next
        case False
        then obtain ms where ms: "pmembers n cs = Some (ms, r)" "j = JObj ms" using q obj by (auto simp: pvalue_obj)
        obtain u where u: "cs = u @ r" "\<forall>x. pmembers n (u @ x) = Some (ms, x)" using M [OF ms(1)] by blast
        have "skip_ws u \<noteq> []" using u(2) [rule_format, of "[]"] by (cases n) (auto simp: pmembers.simps)
        then have "take 1 (skip_ws (u @ x)) \<noteq> ''}''" for x
          using False u(1) skip_ws_append [of u] by (cases "skip_ws u") auto
        with obj u ms(2) show ?thesis by (intro exI [of _ "c # u"]) (simp add: pvalue_obj)
      qed
    next
      case arr
      show ?thesis
      proof (cases "take 1 (skip_ws cs) = '']''")
        case True
        then obtain cs' where e: "skip_ws cs = CHR '']'' # cs'" by (cases "skip_ws cs") auto
        obtain b' where b': "cs = b' @ CHR '']'' # cs'" "\<forall>xs. skip_ws (b' @ CHR '']'' # xs) = CHR '']'' # xs"
          using tail_delim [OF e] by auto
        from q arr e have "j = JArr []" "r = cs'" by (auto simp: pvalue_arr)
        with arr b' show ?thesis by (intro exI [of _ "c # b' @ '']''"]) (simp add: pvalue_arr)
      next
        case False
        then obtain vs where vs: "pelems n cs = Some (vs, r)" "j = JArr vs" using q arr by (auto simp: pvalue_arr)
        obtain u where u: "cs = u @ r" "\<forall>x. pelems n (u @ x) = Some (vs, x)" using E [OF vs(1)] by blast
        have "skip_ws u \<noteq> []"
        proof
          assume e: "skip_ws u = []"
          obtain m where m: "n = Suc m" using u(2) by (cases n) (auto simp: pelems.simps)
          have "pvalue m u = None" using e by (cases m) (auto simp: pvalue.simps)
          then show False using u(2) [rule_format, of "[]"] by (simp add: m pelems.simps)
        qed
        then have "take 1 (skip_ws (u @ x)) \<noteq> '']''" for x
          using False u(1) skip_ws_append [of u] by (cases "skip_ws u") auto
        with arr u vs(2) show ?thesis by (intro exI [of _ "c # u"]) (simp add: pvalue_arr)
      qed
    next
      case str
      have sc: "pvalue (Suc n) (DQUOTE # y) = map_option (apfst JStr) (scan_str y)" for y
        by (simp add: pvalue.simps skip_ws_Cons is_ws_def)
      then obtain k where k: "scan_str cs = Some (k, r)" "j = JStr k" using q str by auto
      from scan_str_Some [OF k(1)] have "cs = k @ DQUOTE # r" "raw_ok k" by auto
      then show ?thesis using str k sc scan_str_raw by (intro exI [of _ "DQUOTE # k @ [DQUOTE]"]) simp
    next
      case lit
      note pv = pvalue.simps(2) [of n "c # cs"]
      have sk: "skip_ws (c # cs) = c # cs" using b(3) by (simp add: skip_ws_Cons)
      consider (t) "take 4 (c # cs) = ''true''" "j = JBool True" "r = drop 4 (c # cs)"
        | (f) "take 5 (c # cs) = ''false''" "j = JBool False" "r = drop 5 (c # cs)"
        | (n) "take 4 (c # cs) = ''null''" "j = JNull" "r = drop 4 (c # cs)"
        | (num) "valid_num (takeWhile num_char (c # cs))" "j = JNum (takeWhile num_char (c # cs))"
            "r = dropWhile num_char (c # cs)"
        using q lit unfolding pv sk by (simp add: Let_def split: if_splits)
      then show ?thesis
      proof cases
        case t
        then show ?thesis using append_take_drop_id [of 4 "c # cs"]
          by (intro exI [of _ "''true''"]) (metis pvalue_lit(2) zero_less_Suc)
      next
        case f
        then show ?thesis using append_take_drop_id [of 5 "c # cs"]
          by (intro exI [of _ "''false''"]) (metis pvalue_lit(3) zero_less_Suc)
      next
        case n
        then show ?thesis using append_take_drop_id [of 4 "c # cs"]
          by (intro exI [of _ "''null''"]) (metis pvalue_lit(1) zero_less_Suc)
      next
        case num
        then show ?thesis
          by (intro exI [of _ "takeWhile num_char (c # cs)"])
            (simp add: pvalue_num del: takeWhile.simps dropWhile.simps)
      qed
    qed
  qed
  then obtain u where "c # cs = u @ r" "\<forall>x. delim x \<longrightarrow> pvalue (Suc n) (u @ x) = Some (j, x)" by blast
  then show ?thesis using b(1) skip by (intro exI [of _ "b @ u"]) simp
qed


lemma pvalue_front_aux:
  "(\<forall>s j r. pvalue n s = Some (j, r) \<longrightarrow> (\<exists>u. s = u @ r \<and> (\<forall>x. delim x \<longrightarrow> pvalue n (u @ x) = Some (j, x)))) \<and>
   (\<forall>s vs r. pelems n s = Some (vs, r) \<longrightarrow> (\<exists>u. s = u @ r \<and> (\<forall>x. pelems n (u @ x) = Some (vs, x)))) \<and>
   (\<forall>s ms r. pmembers n s = Some (ms, r) \<longrightarrow> (\<exists>u. s = u @ r \<and> (\<forall>x. pmembers n (u @ x) = Some (ms, x))))"
proof (induction n)
  case 0
  show ?case by (simp add: pvalue.simps pelems.simps pmembers.simps)
next
  case (Suc n)
  then have V: "\<And>s j r. pvalue n s = Some (j, r) \<Longrightarrow> \<exists>u. s = u @ r \<and> (\<forall>x. delim x \<longrightarrow> pvalue n (u @ x) = Some (j, x))"
    and E: "\<And>s vs r. pelems n s = Some (vs, r) \<Longrightarrow> \<exists>u. s = u @ r \<and> (\<forall>x. pelems n (u @ x) = Some (vs, x))"
    and M: "\<And>s ms r. pmembers n s = Some (ms, r) \<Longrightarrow> \<exists>u. s = u @ r \<and> (\<forall>x. pmembers n (u @ x) = Some (ms, x))"
    by blast+
  have "\<exists>u. s = u @ r \<and> (\<forall>x. pelems (Suc n) (u @ x) = Some (vs, x))"
    if p: "pelems (Suc n) s = Some (vs, r)" for s vs r
  proof -
    obtain v r1 where v: "pvalue n s = Some (v, r1)" using p by (auto simp: pelems.simps split: option.splits)
    obtain c cs where c: "skip_ws r1 = c # cs" using p v by (cases "skip_ws r1") (auto simp: pelems.simps)
    have c_in: "c = CHR '','' \<or> c = CHR '']''" using p v c by (auto simp: pelems.simps split: if_splits)
    obtain b where b: "r1 = b @ c # cs" "\<And>xs. skip_ws (b @ c # xs) = c # xs" "\<And>xs. delim (b @ c # xs)"
      using tail_delim [OF c] c_in by blast
    obtain u1 where u1: "s = u1 @ r1" "\<And>x. delim x \<Longrightarrow> pvalue n (u1 @ x) = Some (v, x)" using V [OF v] by blast
    have run: "pelems (Suc n) (u1 @ b @ c # xs) = (if c = CHR '','' then map_option (apfst (\<lambda>vs. v # vs)) (pelems n xs)
        else if c = CHR '']'' then Some ([v], xs) else None)" for xs
      by (simp add: pelems.simps u1(2) [OF b(3)] b(2))
    show ?thesis
    proof (cases "c = CHR '',''")
      case True
      then have "map_option (apfst ((#) v)) (pelems n cs) = Some (vs, r)" using p run [of cs] u1(1) b(1) by simp
      then obtain ws where ws: "pelems n cs = Some (ws, r)" "vs = v # ws" by (auto simp: apfst_def)
      obtain u2 where "cs = u2 @ r" "\<forall>x. pelems n (u2 @ x) = Some (ws, x)" using E [OF ws(1)] by blast
      then show ?thesis using run True ws(2) u1(1) b(1) by (intro exI [of _ "u1 @ b @ c # u2"]) simp
    next
      case False
      then have "vs = [v]" "r = cs" using p run [of cs] u1(1) b(1) c_in by auto
      then show ?thesis using run False c_in u1(1) b(1) by (intro exI [of _ "u1 @ b @ [c]"]) simp
    qed
  qed
  moreover have "\<exists>u. s = u @ r \<and> (\<forall>x. pmembers (Suc n) (u @ x) = Some (ms, x))"
    if p: "pmembers (Suc n) s = Some (ms, r)" for s ms r
    using p
  proof (rule pmembers_parts)
    fix qs k r1 r1' v r3 c cs
    assume a: "skip_ws s = DQUOTE # qs" "scan_str qs = Some (k, r1)" "skip_ws r1 = CHR '':'' # r1'"
      "pvalue n (skip_ws r1') = Some (v, r3)" "skip_ws r3 = c # cs"
      and z: "c = CHR '','' \<and> (\<exists>ms'. pmembers n cs = Some (ms', r)
          \<and> ms = (k, take (length (skip_ws r1') - length r3) (skip_ws r1'), v) # ms')
        \<or> c = CHR ''}'' \<and> ms = [(k, take (length (skip_ws r1') - length r3) (skip_ws r1'), v)] \<and> r = cs"
    obtain b1 where b1: "s = b1 @ DQUOTE # qs" "\<And>xs. skip_ws (b1 @ DQUOTE # xs) = DQUOTE # xs"
      using skip_ws_parts [OF a(1)] skip_ws_front by blast
    have k: "qs = k @ DQUOTE # r1" "\<And>xs. scan_str (k @ DQUOTE # xs) = Some (k, xs)"
      using scan_str_Some [OF a(2)] scan_str_raw by auto
    obtain b2 where b2: "r1 = b2 @ CHR '':'' # r1'" "\<And>xs. skip_ws (b2 @ CHR '':'' # xs) = CHR '':'' # xs"
      using skip_ws_parts [OF a(3)] skip_ws_front by blast
    obtain b3 where b3: "r1' = b3 @ skip_ws r1'" "\<forall>x\<in>set b3. is_ws x" using skip_ws_split by blast
    obtain u where u: "skip_ws r1' = u @ r3" "\<And>x. delim x \<Longrightarrow> pvalue n (u @ x) = Some (v, x)" using V [OF a(4)] by blast
    have "u \<noteq> []" using pvalue_length [OF a(4)] u(1) by auto
    then have sku: "skip_ws (b3 @ u @ x) = u @ x" for x
      using skip_ws_head [OF skip_ws_idem u(1)] skip_ws_ws [OF b3(2)] by simp
    have c_in: "c = CHR '','' \<or> c = CHR ''}''" using z by blast
    obtain b4 where b4: "r3 = b4 @ c # cs" "\<And>xs. skip_ws (b4 @ c # xs) = c # xs" "\<And>xs. delim (b4 @ c # xs)"
      using tail_delim [OF a(5)] c_in by blast
    define pre where "pre = b1 @ DQUOTE # k @ DQUOTE # b2 @ CHR '':'' # b3 @ u @ b4 @ [c]"
    have s: "s = pre @ cs" using b1(1) k(1) b2(1) b3(1) u(1) b4(1) by (simp add: pre_def)
    have run: "pmembers (Suc n) (pre @ xs) = (if c = CHR '','' then map_option (apfst (\<lambda>ms. (k, u, v) # ms)) (pmembers n xs)
        else if c = CHR ''}'' then Some ([(k, u, v)], xs) else None)" for xs
      by (simp add: pre_def pmembers.simps b1(2) k(2) b2(2) sku u(2) [OF b4(3)] b4(2) Let_def)
    have t: "take (length (skip_ws r1') - length r3) (skip_ws r1') = u" using u(1) by simp
    from z show ?thesis
    proof (elim disjE conjE exE)
      fix ms' assume m: "c = CHR '',''" "pmembers n cs = Some (ms', r)"
        "ms = (k, take (length (skip_ws r1') - length r3) (skip_ws r1'), v) # ms'"
      obtain u2 where "cs = u2 @ r" "\<forall>x. pmembers n (u2 @ x) = Some (ms', x)" using M [OF m(2)] by blast
      then show ?thesis using run m(1,3) s t by (intro exI [of _ "pre @ u2"]) simp
    next
      assume "c = CHR ''}''" "ms = [(k, take (length (skip_ws r1') - length r3) (skip_ws r1'), v)]" "r = cs"
      then show ?thesis using run s t by (intro exI [of _ pre]) simp
    qed
  qed
  ultimately show ?case using pvalue_front_step [OF E M] by blast
qed

text \<open>A value is a prefix of the text, and that prefix alone has that value.\<close>

lemma pvalue_front:
  assumes "pvalue n s = Some (j, r)"
  obtains u where "s = u @ r" "pvalue n u = Some (j, [])"
  using pvalue_front_aux [of n] assms by (metis append_Nil2 delim_def)

section \<open>The texts of the members\<close>

fun jsrc :: "json \<Rightarrow> bool" where
  "jsrc (JObj ms) = (\<forall>m\<in>set ms. (\<exists>n. pvalue n (fst (snd m)) = Some (snd (snd m), [])) \<and> jsrc (snd (snd m)))"
| "jsrc (JArr vs) = (\<forall>v\<in>set vs. jsrc v)"
| "jsrc _ = True"

lemma pvalue_src_aux:
  "(\<forall>s j r. pvalue n s = Some (j, r) \<longrightarrow> jsrc j) \<and>
   (\<forall>s vs r. pelems n s = Some (vs, r) \<longrightarrow> (\<forall>v\<in>set vs. jsrc v)) \<and>
   (\<forall>s ms r. pmembers n s = Some (ms, r) \<longrightarrow> jsrc (JObj ms))"
proof (induction n)
  case 0
  show ?case by (simp add: pvalue.simps pelems.simps pmembers.simps)
next
  case (Suc n)
  then have V: "\<And>s j r. pvalue n s = Some (j, r) \<Longrightarrow> jsrc j"
    and E: "\<And>s vs r. pelems n s = Some (vs, r) \<Longrightarrow> (\<forall>v\<in>set vs. jsrc v)"
    and M: "\<And>s ms r. pmembers n s = Some (ms, r) \<Longrightarrow> jsrc (JObj ms)"
    by blast+
  have "jsrc j" if "pvalue (Suc n) s = Some (j, r)" for s j r
    using that
  proof (rule pvalue_SucE, goal_cases)
    case (1 c cs)
    then show ?case using E [of cs] M [of cs] by fastforce
  qed
  moreover have "\<forall>v\<in>set vs. jsrc v" if "pelems (Suc n) s = Some (vs, r)" for s vs r
    using that by (rule pelems_SucE) (use V E in fastforce)
  moreover have "jsrc (JObj ms)" if p: "pmembers (Suc n) s = Some (ms, r)" for s ms r
    using p
  proof (rule pmembers_parts, goal_cases)
    case (1 qs k r1 r1' v r3 c cs)
    obtain u where u: "skip_ws r1' = u @ r3" "pvalue n u = Some (v, [])" using pvalue_front [OF 1(4)] .
    have t: "take (length (skip_ws r1') - length r3) (skip_ws r1') = u" using u(1) by simp
    have "jsrc v" using V [OF 1(4)] .
    then show ?case using 1(6) u(2) M [of cs] unfolding t by fastforce
  qed
  ultimately show ?case by blast
qed

lemma pvalue_src: "pvalue n s = Some (j, r) \<Longrightarrow> jsrc j"
  using pvalue_src_aux by blast

lemma jdecode_src: "jdecode s = Some j \<Longrightarrow> jsrc j"
  by (auto simp: jdecode_def dest: pvalue_src split: option.splits if_splits)

lemma jparse_src: "jparse s = Some j \<Longrightarrow> jsrc j"
  by (auto simp: jparse_def dest: pvalue_src split: option.splits if_splits)

lemma jparse_Nil: "jparse [] = None"
  by code_simp

lemma member_text: "pvalue n t = Some (j, []) \<Longrightarrow> jdepth j \<le> max_depth \<Longrightarrow> jparse t = Some j"
  using pvalue_enough by (simp add: jparse_def)

end
