(* ===== verification/Request_Depth.thy ===== *)
theory Request_Depth
  imports Task_Request Go_Raw
begin

text \<open>
  What is decoded can be encoded: a \<open>TaskRequest\<close> read from a body of the permitted depth has
  payloads that are documents, and its encoding nests no deeper than the body. Only a time with an
  offset of a day or more, which Go reads and does not write, keeps it from being encoded.
\<close>

fun fits :: "nat \<Rightarrow> task_request \<Rightarrow> bool" where
  "fits d (TaskRequest ty pl pr ex nx tc) \<longleftrightarrow> 1 \<le> d
    \<and> (\<exists>p. raw_json pl = Some p \<and> jdepth p < d)
    \<and> (case nx of None \<Rightarrow> True | Some n \<Rightarrow> fits (d - 1) n)"

lemma fits_empty: "1 \<le> d \<Longrightarrow> fits d empty_request"
  by (simp add: empty_request_def raw_json_def)

lemma fits_pos: "fits d r \<Longrightarrow> 1 \<le> d"
  by (cases r) simp

text \<open>Decoding into a value keeps a property when no error is reported.\<close>

lemma decode_members_ok:
  assumes "\<And>v n k t j v'. (k, t, j) \<in> set ms \<Longrightarrow> P v \<Longrightarrow> st v n t j = (v', NoErr) \<Longrightarrow> P v'"
    and "P v" "decode_members names st v ms = (v', NoErr)"
  shows "P v'"
  using assms
proof (induction ms arbitrary: v)
  case (Cons m ms)
  obtain k t j where m: "m = (k, t, j)" by (cases m)
  have later: "later e e' = NoErr \<longleftrightarrow> e = NoErr \<and> e' = NoErr" for e e'
    by (cases e; cases e') auto
  have rest: "P v'" if "P u" "decode_members names st u ms = (v', NoErr)" for u
    using Cons.IH [OF _ that] Cons.prems(1) by (meson list.set_intros(2))
  show ?case
  proof (cases "field_of names (unquote k)")
    case None
    then show ?thesis using rest [OF Cons.prems(2)] Cons.prems(3) by (simp add: m)
  next
    case (Some n)
    obtain u e where u: "st v n t j = (u, e)" by fastforce
    with Some Cons.prems(3) have "e = NoErr" "decode_members names st u ms = (v', NoErr)"
      by (auto simp: m later split: prod.splits if_splits)
    then show ?thesis using rest Cons.prems(1) [of k t j v n u] Cons.prems(2) u by (simp add: m)
  qed
qed simp

lemma member_depth: "(k, t, i) \<in> set ms \<Longrightarrow> jdepth i < jdepth (JObj ms)"
proof -
  have "(k, t, i) \<in> set ms \<Longrightarrow> jdepth i \<le> foldr (\<lambda>(k, t, v) m. max (jdepth v) m) ms 0"
    by (induction ms) auto
  then show "(k, t, i) \<in> set ms \<Longrightarrow> jdepth i < jdepth (JObj ms)" by simp
qed

lemma raw_member:
  assumes "pvalue n t = Some (i, [])" "jdepth i \<le> max_depth"
  shows "\<exists>p. raw_json t = Some p \<and> jdepth p = jdepth i"
proof -
  have "jparse t = Some i" using member_text [OF assms] .
  moreover from this have "t \<noteq> []" using jparse_Nil by auto
  ultimately show ?thesis by (simp add: raw_json_def)
qed

lemma decode_fits:
  "decode_request r j = (r', NoErr) \<Longrightarrow> jsrc j \<Longrightarrow> fits d r \<Longrightarrow> jdepth j \<le> d \<Longrightarrow> d \<le> max_depth \<Longrightarrow> fits d r'"
proof (induction r j arbitrary: r' d rule: decode_request.induct)
  case (1 r j)
  show ?case
  proof (cases j)
    case (JObj ms)
    have "fits d v'" if m: "(k, t, i) \<in> set ms" and v: "fits d v"
      and st: "store_request decode_request v n t i = (v', NoErr)" for v n k t i v'
    proof -
      obtain ty pl pr ex nx tc where r: "v = TaskRequest ty pl pr ex nx tc" by (cases v)
      have src: "\<exists>n. pvalue n t = Some (i, [])" "jsrc i" using "1.prems"(2) m by (force simp: JObj)+
      have dep: "jdepth i \<le> d - 1" "jdepth i < d" using member_depth [OF m] "1.prems"(4) by (simp_all add: JObj)
      show ?thesis
      proof (cases "n = ''next'' \<and> i \<noteq> JNull")
        case True
        then obtain x where x: "decode_request (case nx of None \<Rightarrow> empty_request | Some x \<Rightarrow> x) i = (x, NoErr)"
          "v' = TaskRequest ty pl pr ex (Some x) tc"
          using st by (auto simp: r store_request_def map_prod_def split: prod.splits)
        have "1 \<le> jdepth i" using x(1) True
          by (cases i) (auto simp: decode_request.simps decode_struct_def)
        then have "fits (d - 1) (case nx of None \<Rightarrow> empty_request | Some x \<Rightarrow> x)"
          using v dep fits_empty [of "d - 1"] by (simp add: r split: option.splits)
        then have "fits (d - 1) x" using "1.IH" [OF JObj m x(1) src(2)] dep "1.prems"(5) by simp
        then show ?thesis using v x(2) by (simp add: r)
      next
        case False
        have "\<exists>p. raw_json t = Some p \<and> jdepth p = jdepth i"
          using src(1) raw_member dep(1) "1.prems"(5) by (meson diff_le_self le_trans)
        then have raw: "\<exists>p. raw_json t = Some p \<and> jdepth p < d" using dep(2) by auto
        from st False show ?thesis
          using v raw by (auto simp: r store_request_def map_prod_def split: prod.splits if_splits)
      qed
    qed
    then show ?thesis
      using decode_members_ok [of ms "fits d" "store_request decode_request" r] "1.prems"(1,3)
      by (simp add: JObj)
  qed (use "1.prems" in \<open>auto simp: decode_request.simps decode_struct_def\<close>)
qed

text \<open>The encoding of what fits.\<close>

lemma foldr_depth_le: "foldr (\<lambda>(k, t, v) m. max (jdepth v) m) ms b \<le> d \<longleftrightarrow>
    b \<le> (d::nat) \<and> (\<forall>m\<in>set ms. jdepth (snd (snd m)) \<le> d)"
  by (induction ms) auto

lemma fits_depth: "fits d r \<Longrightarrow> request_json r = Some j \<Longrightarrow> jdepth j \<le> d"
proof (induction r arbitrary: d j rule: request_json.induct)
  case (1 ty pl pr ex nx tc)
  from "1.prems"(2) show ?case
  proof (rule request_json_Some)
    fix p t n
    assume f: "raw_json pl = Some p" "time_member ex = Some t"
      "(nx = None \<and> n = []) \<or> (\<exists>r i. nx = Some r \<and> request_json r = Some i \<and> n = [member ''next'' i])"
      and j: "j = JObj ([member ''type'' (jstring ty), member ''payload'' p, member ''priority'' (jstring pr)]
        @ t @ n @ trace_member tc)"
    have t: "\<forall>m\<in>set t. jdepth (snd (snd m)) = 0"
      using f(2) by (auto simp: time_member_def member_def split: option.splits)
    have n: "\<forall>m\<in>set n. jdepth (snd (snd m)) \<le> d - 1"
      using f(3) "1.IH" [OF f(1,2), of _ "d - 1"] "1.prems"(1) by (auto simp: member_def)
    have "jdepth p \<le> d - 1" "1 \<le> d" using f(1) "1.prems"(1) by auto
    then have "foldr (\<lambda>(k, t, v) m. max (jdepth v) m) ([member ''type'' (jstring ty), member ''payload'' p,
        member ''priority'' (jstring pr)] @ t @ n @ trace_member tc) 0 \<le> d - 1"
      unfolding foldr_depth_le using t n by (auto simp: member_def jstring_def trace_member_def)
    then have "Suc (foldr (\<lambda>(k, t, v) m. max (jdepth v) m) ([member ''type'' (jstring ty), member ''payload'' p,
        member ''priority'' (jstring pr)] @ t @ n @ trace_member tc) 0) \<le> d" using \<open>1 \<le> d\<close> by linarith
    then show ?thesis by (simp only: j jdepth.simps)
  qed
qed

text \<open>A time that can be written.\<close>

definition writable_time :: "gotime option \<Rightarrow> bool" where
  "writable_time t \<longleftrightarrow> time_member t \<noteq> None"

lemma writable_None [simp]: "writable_time None"
  by (simp add: writable_time_def time_member_def)

fun writable_times :: "task_request \<Rightarrow> bool" where
  "writable_times (TaskRequest ty pl pr ex nx tc) \<longleftrightarrow> writable_time ex
    \<and> (case nx of None \<Rightarrow> True | Some n \<Rightarrow> writable_times n)"

lemma fits_writable: "fits d r \<Longrightarrow> request_json r \<noteq> None \<longleftrightarrow> writable_times r"
proof (induction r arbitrary: d rule: request_json.induct)
  case (1 ty pl pr ex nx tc)
  obtain p where p: "raw_json pl = Some p" using "1.prems" by auto
  show ?case
  proof (cases nx)
    case None
    then show ?thesis using p by (cases "time_member ex") (auto simp: writable_time_def)
  next
    case (Some n)
    have "fits (d - 1) n" using "1.prems" Some by simp
    show ?thesis
    proof (cases "time_member ex")
      case None
      then show ?thesis using p by (simp add: writable_time_def)
    next
      case (Some t)
      have "request_json n \<noteq> None \<longleftrightarrow> writable_times n" using "1.IH" [OF p Some \<open>nx = Some n\<close> \<open>fits (d - 1) n\<close>] .
      then show ?thesis using p Some \<open>nx = Some n\<close> by (cases "request_json n") (auto simp: writable_time_def)
    qed
  qed
qed

lemma fits_edit:
  "fits d (TaskRequest ty pl pr ex nx tc) = fits d (TaskRequest ty' pl pr' ex' nx tc')"
  by simp

lemma decoded_request:
  assumes "decode_stream decode_request empty_request body = (r, True)"
  shows "fits max_depth r \<and> valid_times r"
proof -
  obtain j where j: "jdecode body = Some j" "decode_request empty_request j = (r, NoErr)"
    using assms by (auto simp: decode_stream_def split: option.splits prod.splits)
  have "fits max_depth r"
    using decode_fits [OF j(2) jdecode_src [OF j(1)] fits_empty] jdecode_wf [OF j(1)] by (simp add: max_depth_def)
  moreover have "valid_times r"
    using decode_request_valid [of empty_request j] j(2) by (simp add: empty_request_def)
  ultimately show ?thesis by blast
qed

lemma fits_ok: "fits max_depth r \<Longrightarrow> valid_times r \<Longrightarrow> marshal_request r = Some s \<Longrightarrow> request_ok r"
  using fits_depth by (auto simp: request_ok_def marshal_request_def)

end
