(* ===== verification/Task_Handler.thy ===== *)
theory Task_Handler
  imports Sender Request_Depth
begin

text \<open>
  \<open>internal/handler/task_handler.go\<close>: submitting, cancelling and reading the result of a task.
  Tracing spans are left out, except that the injected \<open>traceparent\<close> becomes part of the stored
  request. A handler is run on the body or the path parameter of its request and on the request
  context.
\<close>

section \<open>Submission\<close>

text \<open>The guards before anything is stored: the step and the error of the first that fails.\<close>

definition next_check :: "task_request \<Rightarrow> (string \<times> goerr) option" where
  "next_check r = (case tr_next r of
      None \<Rightarrow> None
    | Some n \<Rightarrow>
        if tr_type n = [] then Some (''next_type_empty'', ErrorString ''Next type is empty'')
        else if tr_payload n \<noteq> [] then
          map_option (\<lambda>e. (''next_payload_empty'', e)) (Validate (tr_type n) (tr_payload n))
        else None)"

definition default_priority :: "task_request \<Rightarrow> task_request" where
  "default_priority r = (case r of TaskRequest ty pl pr ex nx tc \<Rightarrow>
    TaskRequest ty pl (if pr = [] then ''medium'' else pr) ex nx tc)"

definition set_trace :: "string \<Rightarrow> task_request \<Rightarrow> task_request" where
  "set_trace s r = (case r of TaskRequest ty pl pr ex nx tc \<Rightarrow> TaskRequest ty pl pr ex nx s)"

definition reject :: "env \<Rightarrow> ctx \<Rightarrow> string \<Rightarrow> nat \<Rightarrow> goerr \<Rightarrow> ('x world_scheme, http_response) state" where
  "reject E ctx step status err = do {
    AddEvent E ctx step ''failed'' (Some err);
    RespondWithError ctx status err
  }"

definition direct_report_error :: goerr where
  "direct_report_error = ErrorString ''generate_report cannot be submitted directly; use scrape_url with next.type=generate_report''"

text \<open>Whether \<open>execute_at\<close> lies in the past; the clock is read only when the field is there.\<close>

definition execute_in_past :: "env \<Rightarrow> gotime option \<Rightarrow> ('x ticking_scheme, bool) state" where
  "execute_in_past E t = (case t of
      None \<Rightarrow> State_Monad.return False
    | Some at \<Rightarrow> do { now \<leftarrow> time_now E; State_Monad.return (time_before at now) })"

definition enqueue_or_schedule :: "env \<Rightarrow> string \<Rightarrow> string \<Rightarrow> gotime option \<Rightarrow> ('x world_scheme, unit result) state" where
  "enqueue_or_schedule E i priority execute_at = (case execute_at of
      Some at \<Rightarrow> Schedule E i priority at
    | None \<Rightarrow> EnqueueWithPriority E i priority)"

definition accepted_json :: "string \<Rightarrow> gotime option \<Rightarrow> json option" where
  "accepted_json i execute_at = (case execute_at of
      None \<Rightarrow> Some (jmap [(''status'', jstring ''accepted''), (''event_id'', jstring i)])
    | Some at \<Rightarrow> map_option (\<lambda>s. jmap [(''status'', jstring ''accepted''), (''event_id'', jstring i),
        (''scheduled_at'', JStr s)]) (time_json at))"

text \<open>From the line that enqueues to the end.\<close>

definition create_enqueue :: "env \<Rightarrow> ctx \<Rightarrow> task_request \<Rightarrow> string \<Rightarrow> ('x world_scheme, http_response) state" where
  "create_enqueue E ctx req i = do {
    r \<leftarrow> enqueue_or_schedule E i (tr_priority req) (tr_execute_at req);
    (case r of
       Inl err \<Rightarrow> do {
         AddEvent E ctx ''failed_enqueue'' ''failed'' (Some err);
         with_log ctx (\<lambda>l. l\<lparr> lc_status := ''failed'' \<rparr>);
         RepoUpdateEventStatus E i ''failed'';
         RespondWithError ctx 500 err
       }
     | Inr _ \<Rightarrow> RespondWithJSON 200 (accepted_json i (tr_execute_at req)))
  }"

text \<open>From the fresh identifier on: persist, record the key, enqueue.\<close>

definition create_persist :: "env \<Rightarrow> ctx \<Rightarrow> task_request \<Rightarrow> string \<Rightarrow> ('x world_scheme, http_response) state" where
  "create_persist E ctx req0 key = do {
    t \<leftarrow> next_tick;
    (let i = new_uuid E t; req = set_trace (traceparent E t) req0 in do {
      with_log ctx (\<lambda>l. l\<lparr> lc_event_id := i \<rparr>);
      (case marshal_request req of
         None \<Rightarrow> reject E ctx ''failed_marshalling'' 500 (ErrorString ''json: error calling MarshalJSON'')
       | Some full \<Rightarrow> do {
           r \<leftarrow> SaveProcessedEvent E i (tr_type req) full ''pending'' (ctx_trace_id ctx)
             (tr_priority req) [] (tr_execute_at req);
           (case r of
              Inl err \<Rightarrow> reject E ctx ''failed_db_saving'' 500 err
            | Inr _ \<Rightarrow> do {
                r \<leftarrow> CheckAndRecordToDB E key i
                  (Some \<lparr> md_command = tr_type req, md_source = ''api'' \<rparr>);
                (case r of
                   Inl err \<Rightarrow> reject E ctx ''failed_db_inserting'' 500 err
                 | Inr already \<Rightarrow> create_enqueue E ctx req i)
              })
         })
    })
  }"

definition duplicate_json :: "string \<Rightarrow> json" where
  "duplicate_json i = jmap [(''status'', jstring ''duplicate''), (''event_id'', jstring i)]"

definition request_key :: "task_request \<Rightarrow> string" where
  "request_key r = GenerateIdempotencyKey [tr_type r, tr_payload r, tr_priority r]"

text \<open>The idempotency check: \<open>Inl\<close> is an answer already given, \<open>Inr\<close> the key to record.\<close>

definition create_check :: "env \<Rightarrow> ctx \<Rightarrow> task_request \<Rightarrow> ('x world_scheme, http_response + string) state" where
  "create_check E ctx req = do {
    AddEvent E ctx ''passed_all_validation_checks'' ''success'' None;
    with_log ctx (\<lambda>l. l\<lparr> lc_task_type := tr_type req, lc_priority := tr_priority req \<rparr>);
    r \<leftarrow> Isprocessed E (request_key req);
    (case r of
       Inl err \<Rightarrow> do { a \<leftarrow> reject E ctx ''failed_idempotency_check'' 500 err; State_Monad.return (Inl a) }
     | Inr (processed, existing) \<Rightarrow>
         (if processed then do {
            AddEvent E ctx ''duplicate_event'' ''success'' None;
            a \<leftarrow> RespondWithJSON 409 (Some (duplicate_json existing));
            State_Monad.return (Inl a)
          }
          else State_Monad.return (Inr (request_key req))))
  }"

definition create_stored :: "env \<Rightarrow> ctx \<Rightarrow> task_request \<Rightarrow> ('x world_scheme, http_response) state" where
  "create_stored E ctx req = do {
    r \<leftarrow> create_check E ctx req;
    (case r of Inl a \<Rightarrow> State_Monad.return a | Inr key \<Rightarrow> create_persist E ctx req key)
  }"

text \<open>The guards on the request itself, in the order of the code.\<close>

definition create_validated :: "env \<Rightarrow> ctx \<Rightarrow> task_request \<Rightarrow> ('x world_scheme, http_response) state" where
  "create_validated E ctx req =
    (if tr_type req = [] then reject E ctx ''request_type_empty'' 400 (ErrorString ''missing type'')
     else if tr_type req = ''generate_report'' then
       reject E ctx ''generate_report_direct_submit'' 400 direct_report_error
     else if tr_payload req = [] then reject E ctx ''request_payload_empty'' 400 (ErrorString ''missing payload'')
     else do {
       past \<leftarrow> execute_in_past E (tr_execute_at req);
       (if past then
          reject E ctx ''past_executes_at_time'' 400 (ErrorString ''execute_at must be in the future'')
        else
          (let req = default_priority req in
           case Validate (tr_type req) (tr_payload req) of
             Some err \<Rightarrow> reject E ctx ''type_and_payload_validator'' 400 err
           | None \<Rightarrow>
               (case next_check req of
                  Some (step, err) \<Rightarrow> reject E ctx step 400 err
                | None \<Rightarrow> create_stored E ctx req)))
     })"

definition HandleCreateTask :: "env \<Rightarrow> ctx \<Rightarrow> bytes \<Rightarrow> ('x world_scheme, http_response) state" where
  "HandleCreateTask E ctx body =
    (case decode_stream decode_request empty_request body of (req, ok) \<Rightarrow>
       if \<not> ok then reject E ctx ''decode_request_body'' 400 (json_error E body)
       else create_validated E ctx req)"

section \<open>Cancellation\<close>

definition HandleCancelTask :: "env \<Rightarrow> ctx \<Rightarrow> string \<Rightarrow> ('x world_scheme, http_response) state" where
  "HandleCancelTask E ctx i =
    (if i = [] then reject E ctx ''no_id_in_request'' 400 (ErrorString ''Id required'')
     else do {
       r \<leftarrow> CancelTask E i;
       (case r of
          Inl err \<Rightarrow> reject E ctx ''cancel_task_error'' 409 err
        | Inr _ \<Rightarrow> RespondWithJSON 200 (Some (jmap
            [(''status'', jstring ''cancelled''), (''event_id'', jstring i)])))
     })"

section \<open>Results\<close>

text \<open>
  A value decoded into \<open>any\<close> and written again: strings are unescaped and escaped, objects become
  maps (the last of equal keys counts, members sorted), and a number goes through a 64-bit float,
  which is the argument \<open>num\<close> (\<open>None\<close> where it does not fit).
\<close>

fun last_value :: "string \<Rightarrow> (string \<times> json) list \<Rightarrow> json option" where
  "last_value k [] = None"
| "last_value k ((k', v) # kvs) =
    (case last_value k kvs of Some x \<Rightarrow> Some x | None \<Rightarrow> if k' = k then Some v else None)"

definition dedup_keys :: "(string \<times> json) list \<Rightarrow> (string \<times> json) list" where
  "dedup_keys kvs = map (\<lambda>k. (k, the (last_value k kvs))) (remdups (map fst kvs))"

fun any_value :: "(string \<Rightarrow> string option) \<Rightarrow> json \<Rightarrow> json option" where
  "any_value num JNull = Some JNull"
| "any_value num (JBool b) = Some (JBool b)"
| "any_value num (JNum n) = map_option JNum (num n)"
| "any_value num (JStr r) = Some (jstring (unquote r))"
| "any_value num (JArr js) = map_option JArr (those (map (any_value num) js))"
| "any_value num (JObj ms) =
    map_option (\<lambda>vs. jmap (dedup_keys (zip (map (\<lambda>m. unquote (fst m)) ms) vs)))
      (those (map (\<lambda>m. any_value num (snd (snd m))) ms))"

text \<open>
  \<open>map[string]any\<close>: \<open>Inl\<close> is a decoding error, \<open>None\<close> the nil map that null leaves.
\<close>

definition result_map :: "(string \<Rightarrow> string option) \<Rightarrow> string \<Rightarrow> unit + (string \<times> json) list option" where
  "result_map num s = (case jparse s of
      None \<Rightarrow> Inl ()
    | Some JNull \<Rightarrow> Inr None
    | Some (JObj ms) \<Rightarrow>
        (case those (map (\<lambda>m. any_value num (snd (snd m))) ms) of
           None \<Rightarrow> Inl ()
         | Some vs \<Rightarrow> Inr (Some (dedup_keys (zip (map (\<lambda>m. unquote (fst m)) ms) vs))))
    | Some _ \<Rightarrow> Inl ())"

definition any_string :: "json option \<Rightarrow> string option" where
  "any_string v = (case v of Some (JStr r) \<Rightarrow> Some (unquote r) | _ \<Rightarrow> None)"

text \<open>A handler may panic; the router's \<open>Recoverer\<close> then answers 500.\<close>

datatype http_outcome = Answer http_response | Panic string

definition answer :: "('s, http_response) state \<Rightarrow> ('s, http_outcome) state" where
  "answer m = do { a \<leftarrow> m; State_Monad.return (Answer a) }"

definition file_result :: "env \<Rightarrow> ctx \<Rightarrow> bool \<Rightarrow> string \<Rightarrow> string \<Rightarrow> ('x world_scheme, http_response) state" where
  "file_result E ctx storage i key =
    (if \<not> storage then RespondWithError ctx 503 (ErrorString ''storage not configured'')
     else do {
       r \<leftarrow> PresignedURL E key;
       (case r of
          Inl err \<Rightarrow> RespondWithError ctx 500 err
        | Inr url \<Rightarrow> RespondWithJSON 200 (Some (jmap [(''event_id'', jstring i), (''kind'', jstring ''file''),
            (''result_url'', jstring url), (''expires_in'', jstring ''24h'')])))
     })"

definition HandleGetTaskResult ::
  "env \<Rightarrow> (string \<Rightarrow> string option) \<Rightarrow> ctx \<Rightarrow> bool \<Rightarrow> string \<Rightarrow> ('x world_scheme, http_outcome) state" where
  "HandleGetTaskResult E num ctx storage i = do {
    r \<leftarrow> GetEventByID E i;
    (case r of
       Inl _ \<Rightarrow> answer (RespondWithError ctx 404 (ErrorString ''task not found''))
     | Inr ev \<Rightarrow>
         (if ev_status ev \<noteq> Some ''processed'' then
            answer (RespondWithJSON 202 (Some (jmap [(''event_id'', jstring i),
              (''status'', jstring (text_or_empty (ev_status ev))),
              (''message'', jstring ''task not yet processed'')])))
          else if text_or_empty (ev_result ev) = [] then
            answer (RespondWithError ctx 404 (ErrorString ''no result for this task''))
          else
            (case result_map num (text_or_empty (ev_result ev)) of
               Inl _ \<Rightarrow> answer (RespondWithError ctx 500 (ErrorString ''malformed result''))
             | Inr None \<Rightarrow> State_Monad.return (Panic ''assignment to entry in nil map'')
             | Inr (Some m) \<Rightarrow>
                 (if any_string (map_of m ''kind'') = Some ''file'' then
                    answer (file_result E ctx storage i
                      (case any_string (map_of m ''key'') of None \<Rightarrow> [] | Some k \<Rightarrow> k))
                  else
                    answer (RespondWithJSON 200 (Some (jmap
                      ((''event_id'', jstring i) # filter (\<lambda>kv. fst kv \<noteq> ''event_id'') m))))))))
  }"

section \<open>Facts about the steps of a submission\<close>

lemma final_reject [simp]:
  "final (reject E ctx step status err) w =
    final (RespondWithError ctx status err) (final (AddEvent E ctx step ''failed'' (Some err)) w)"
  and value_reject [simp]:
  "value_of (reject E ctx step status err) w = http_error (error_message status (Some err)) status"
  by (simp_all add: reject_def)

text \<open>A rejection changes nothing but logs.\<close>

definition tables :: "'x world_scheme \<Rightarrow> event list \<times> event_delivery_log list \<times> idempotency_key list \<times> queue_call list \<times> stored_object list" where
  "tables w = (events w, delivery_logs w, idempotency_keys w, queue_log w, objects w)"

lemma tables_logs [simp]:
  "tables (w\<lparr> tick := t \<rparr>) = tables w" "tables (w\<lparr> req_log := l \<rparr>) = tables w"
  "tables (w\<lparr> sender_log := e \<rparr>) = tables w"
  by (simp_all add: tables_def)

lemma log_frames [frame]:
  "frames tables next_tick" "frames tables (time_now E)" "frames tables (with_log ctx f)"
  "frames tables (AddEvent E ctx step st oe)" "frames tables (RespondWithError ctx status err)"
  "frames tables (RespondWithJSON code p)" "frames tables (reject E ctx step status err)"
  "frames tables (execute_in_past E t)" "frames tables (PresignedURL E key)"
  by (simp_all add: frames_def AddEvent_def execute_in_past_def PresignedURL_def split: option.split)

lemmas query_tables [frame] = query_frames [of tables, simplified]

lemma tables_reject [simp]: "tables (final (reject E ctx step status err) w) = tables w"
  by (rule framesD) (intro frame)

lemma create_check_frames [frame]: "frames tables (create_check E ctx req)"
  unfolding create_check_def by (intro frame)

definition submitted :: "string \<Rightarrow> task_request \<Rightarrow> queue_call" where
  "submitted i req = (case tr_execute_at req of
      None \<Rightarrow> EnqueueCall i (tr_priority req) None
    | Some at \<Rightarrow> ScheduleCall i (tr_priority req) at None)"

lemma submit_ok:
  assumes "value_of (enqueue_or_schedule E i p ex) w = Inr u" "tr_priority req = p" "tr_execute_at req = ex"
  shows "final (enqueue_or_schedule E i p ex) w = log_call (submitted i req) (next_state w)"
  using assms by (cases ex) (auto simp: enqueue_or_schedule_def submitted_def)

lemma create_enqueue_200:
  assumes "rs_status (value_of (create_enqueue E ctx req i) w) = 200"
  shows "final (create_enqueue E ctx req i) w = log_call (submitted i req) (next_state w)"
proof (cases "value_of (enqueue_or_schedule E i (tr_priority req) (tr_execute_at req)) w")
  case (Inl e)
  with assms show ?thesis by (simp add: create_enqueue_def)
next
  case (Inr u)
  then show ?thesis using submit_ok [OF Inr] by (simp add: create_enqueue_def)
qed

lemma set_trace_fields [simp]:
  "tr_type (set_trace s r) = tr_type r" "tr_payload (set_trace s r) = tr_payload r"
  "tr_priority (set_trace s r) = tr_priority r" "tr_execute_at (set_trace s r) = tr_execute_at r"
  "tr_next (set_trace s r) = tr_next r" "tr_trace (set_trace s r) = s"
  by (simp_all add: set_trace_def split: task_request.split)

text \<open>What an accepted submission leaves behind.\<close>

definition accepted_row :: "env \<Rightarrow> ctx \<Rightarrow> nat \<Rightarrow> string \<Rightarrow> task_request \<Rightarrow> string \<Rightarrow> event" where
  "accepted_row E ctx t i req full = saved_event E t i (tr_type req) full (ctx_trace_id ctx)
    (tr_priority req) [] (tr_execute_at req)"

lemma create_persist_200:
  assumes "rs_status (value_of (create_persist E ctx req0 key) w) = 200"
  obtains i req full t where
    "i = new_uuid E (tick w)" "req = set_trace (traceparent E (tick w)) req0"
    "marshal_request req = Some full" "lookup w i = None"
    "events (final (create_persist E ctx req0 key) w) = events w @ [accepted_row E ctx t i req full]"
    "queue_log (final (create_persist E ctx req0 key) w) = queue_log w @ [submitted i req]"
    "key_row (final (create_persist E ctx req0 key) w) key \<noteq> None"
    "delivery_logs (final (create_persist E ctx req0 key) w) = delivery_logs w"
proof -
  define i where "i = new_uuid E (tick w)"
  define req where "req = set_trace (traceparent E (tick w)) req0"
  define w1 where "w1 = final (with_log ctx (\<lambda>l. l\<lparr> lc_event_id := i \<rparr>)) (next_state w)"
  have run: "value_of (create_persist E ctx req0 key) w = value_of (case marshal_request req of
       None \<Rightarrow> reject E ctx ''failed_marshalling'' 500 (ErrorString ''json: error calling MarshalJSON'')
     | Some full \<Rightarrow> do {
         r \<leftarrow> SaveProcessedEvent E i (tr_type req) full ''pending'' (ctx_trace_id ctx)
           (tr_priority req) [] (tr_execute_at req);
         (case r of
            Inl err \<Rightarrow> reject E ctx ''failed_db_saving'' 500 err
          | Inr _ \<Rightarrow> do {
              r \<leftarrow> CheckAndRecordToDB E key i (Some \<lparr> md_command = tr_type req, md_source = ''api'' \<rparr>);
              (case r of
                 Inl err \<Rightarrow> reject E ctx ''failed_db_inserting'' 500 err
               | Inr already \<Rightarrow> create_enqueue E ctx req i)
            })
       }) w1"
    and run': "final (create_persist E ctx req0 key) w = final (case marshal_request req of
       None \<Rightarrow> reject E ctx ''failed_marshalling'' 500 (ErrorString ''json: error calling MarshalJSON'')
     | Some full \<Rightarrow> do {
         r \<leftarrow> SaveProcessedEvent E i (tr_type req) full ''pending'' (ctx_trace_id ctx)
           (tr_priority req) [] (tr_execute_at req);
         (case r of
            Inl err \<Rightarrow> reject E ctx ''failed_db_saving'' 500 err
          | Inr _ \<Rightarrow> do {
              r \<leftarrow> CheckAndRecordToDB E key i (Some \<lparr> md_command = tr_type req, md_source = ''api'' \<rparr>);
              (case r of
                 Inl err \<Rightarrow> reject E ctx ''failed_db_inserting'' 500 err
               | Inr already \<Rightarrow> create_enqueue E ctx req i)
            })
       }) w1"
    by (simp_all only: create_persist_def value_bind final_bind value_tick final_tick Let_def
        i_def req_def w1_def)
  obtain full where full: "marshal_request req = Some full"
    using assms run by (cases "marshal_request req") auto
  define save :: "('a world_scheme, unit result) state" where
    "save = SaveProcessedEvent E i (tr_type req) full ''pending'' (ctx_trace_id ctx)
      (tr_priority req) [] (tr_execute_at req)"
  have saved: "value_of save w1 = Inr ()"
    using assms run full by (cases "value_of save w1") (auto simp: save_def)
  define w2 where "w2 = final save w1"
  define rec :: "('a world_scheme, bool result) state" where
    "rec = CheckAndRecordToDB E key i (Some \<lparr> md_command = tr_type req, md_source = ''api'' \<rparr>)"
  obtain b where recorded: "value_of rec w2 = Inr b"
    using assms run full saved by (cases "value_of rec w2") (auto simp: save_def rec_def w2_def)
  define w3 where "w3 = final rec w2"
  have "rs_status (value_of (create_enqueue E ctx req i) w3) = 200"
    using assms run full saved recorded by (auto simp: save_def rec_def w2_def w3_def)
  then have last: "final (create_persist E ctx req0 key) w = log_call (submitted i req) (next_state w3)"
    using create_enqueue_200 run' full saved recorded by (auto simp: save_def rec_def w2_def w3_def)
  have "lookup w1 i = None \<and> w2 = w1\<lparr> tick := Suc (Suc (Suc (tick w1))),
      events := events w1 @ [accepted_row E ctx (tick w1) i req full] \<rparr>"
    using save_Inr saved unfolding save_def w2_def accepted_row_def by fast
  moreover have "events w1 = events w" "queue_log w1 = queue_log w" "delivery_logs w1 = delivery_logs w"
    "lookup w1 i = lookup w i"
    by (simp_all add: w1_def lookup_def)
  moreover have "answers E (next_state w2)" using record_Inr recorded rec_def by blast
  then have "events w3 = events w2 \<and> queue_log w3 = queue_log w2 \<and> delivery_logs w3 = delivery_logs w2
      \<and> key_row w3 key \<noteq> None"
    using record_final [of E w2 key i] record_value [of E w2 key i] recorded
    by (auto simp: w3_def rec_def key_row_def find_row_append find_row_Cons recorded_key_def
        split: option.splits if_splits)
  ultimately show thesis
    using last full by (intro that [of i req full "tick w1"]) (auto simp: i_def req_def)
qed

section \<open>The whole submission\<close>

lemma status_reject [status_rules]: "status \<in> S \<Longrightarrow> status_in S (reject E ctx step status err)"
  by (simp add: status_in_def)

lemma create_enqueue_status [status_rules]: "{200, 500} \<subseteq> S \<Longrightarrow> status_in S (create_enqueue E ctx req i)"
  unfolding create_enqueue_def by (intro status_rules) auto

lemma create_persist_status [status_rules]: "{200, 500} \<subseteq> S \<Longrightarrow> status_in S (create_persist E ctx req0 key)"
  unfolding create_persist_def Let_def by (intro status_rules) auto

lemma create_check_answer:
  "value_of (create_check E ctx req) w = Inl a \<Longrightarrow> rs_status a = 409 \<or> rs_status a = 500"
  by (auto simp: create_check_def split: sum.splits if_splits prod.splits)

lemma create_check_key: "value_of (create_check E ctx req) w = Inr k \<Longrightarrow> k = request_key req"
  by (auto simp: create_check_def split: sum.splits if_splits prod.splits)

lemma create_stored_200:
  assumes "rs_status (value_of (create_stored E ctx req) w) = 200"
  obtains w' where "tables w' = tables w"
    and "rs_status (value_of (create_persist E ctx req (request_key req)) w') = 200"
    and "final (create_stored E ctx req) w = final (create_persist E ctx req (request_key req)) w'"
proof (cases "value_of (create_check E ctx req) w")
  case (Inl a)
  then show ?thesis using assms create_check_answer [OF Inl] by (simp add: create_stored_def)
next
  case (Inr k)
  then show ?thesis
    using assms create_check_key [OF Inr] framesD [OF create_check_frames]
    by (intro that [of "final (create_check E ctx req) w"]) (auto simp: create_stored_def)
qed

lemma create_stored_refused:
  assumes "rs_status (value_of (create_stored E ctx req) w) \<in> {400, 409}"
  shows "tables (final (create_stored E ctx req) w) = tables w"
proof (cases "value_of (create_check E ctx req) w")
  case (Inl a)
  then show ?thesis using framesD [OF create_check_frames] by (simp add: create_stored_def)
next
  case (Inr k)
  then show ?thesis
    using assms status_inD [OF create_persist_status [OF order_refl], of E ctx req k "final (create_check E ctx req) w"]
    by (auto simp: create_stored_def)
qed

text \<open>Everything a request has to pass before it is stored.\<close>

definition passes :: "task_request \<Rightarrow> bool" where
  "passes r \<longleftrightarrow> tr_type r \<noteq> ''generate_report'' \<and> tr_payload r \<noteq> []
    \<and> Validate (tr_type r) (tr_payload r) = None \<and> next_check r = None"

lemma default_priority_fields [simp]:
  "tr_type (default_priority r) = tr_type r" "tr_payload (default_priority r) = tr_payload r"
  "tr_execute_at (default_priority r) = tr_execute_at r" "tr_next (default_priority r) = tr_next r"
  "tr_trace (default_priority r) = tr_trace r"
  by (simp_all add: default_priority_def split: task_request.split)

lemma edits [simp]:
  "fits d (set_trace tp r) = fits d r" "valid_times (set_trace tp r) = valid_times r"
  "fits d (default_priority r) = fits d r" "valid_times (default_priority r) = valid_times r"
  "writable_times (set_trace tp r) = writable_times r" "writable_times (default_priority r) = writable_times r"
  by (cases r; simp add: set_trace_def default_priority_def)+

text \<open>What decodes can be written again, unless one of its times has an offset that cannot.\<close>

lemma decoded_writes:
  assumes "decode_stream decode_request empty_request body = (r, True)" "writable_times r"
  shows "\<forall>tp. marshal_request (set_trace tp (default_priority r)) \<noteq> None"
proof
  fix tp
  have "fits max_depth (set_trace tp (default_priority r))" using decoded_request [OF assms(1)] by simp
  then show "marshal_request (set_trace tp (default_priority r)) \<noteq> None"
    using fits_writable assms(2) by (auto simp: marshal_request_def)
qed

lemma default_priority_not_empty: "tr_priority (default_priority r) \<noteq> []"
  by (simp add: default_priority_def split: task_request.split)

lemma create_validated_200:
  assumes "rs_status (value_of (create_validated E ctx r) w) = 200"
  obtains w' where "tables w' = tables w" "passes (default_priority r)"
    and "\<not> value_of (execute_in_past E (tr_execute_at r)) w"
    and "rs_status (value_of (create_stored E ctx (default_priority r)) w') = 200"
    and "final (create_validated E ctx r) w = final (create_stored E ctx (default_priority r)) w'"
  using assms
proof -
  define w' where "w' = final (execute_in_past E (tr_execute_at r)) w"
  have "tables w' = tables w" unfolding w'_def by (rule framesD) (intro frame)
  moreover have "passes (default_priority r) \<and> \<not> value_of (execute_in_past E (tr_execute_at r)) w
      \<and> rs_status (value_of (create_stored E ctx (default_priority r)) w') = 200
      \<and> final (create_validated E ctx r) w = final (create_stored E ctx (default_priority r)) w'"
    using assms by (auto simp: create_validated_def Let_def passes_def w'_def
        split: if_splits option.splits prod.splits)
  ultimately show thesis by (blast intro: that)
qed

lemma create_validated_refused:
  assumes "rs_status (value_of (create_validated E ctx r) w) \<in> {400, 409}"
  shows "tables (final (create_validated E ctx r) w) = tables w"
proof -
  define w' where "w' = final (execute_in_past E (tr_execute_at r)) w"
  have w': "tables w' = tables w" unfolding w'_def by (rule framesD) (intro frame)
  have "tables (final (create_stored E ctx (default_priority r)) w') = tables w'"
    if "rs_status (value_of (create_stored E ctx (default_priority r)) w') \<in> {400, 409}"
    using create_stored_refused that .
  then show ?thesis
    using assms w' unfolding create_validated_def
    by (auto simp: Let_def w'_def [symmetric] simp del: final_reject split: if_splits option.splits prod.splits)
qed

section \<open>Submission with a database that answers\<close>

abbreviation api_metadata :: "task_request \<Rightarrow> idempotency_metadata option" where
  "api_metadata req \<equiv> Some \<lparr> md_command = tr_type req, md_source = ''api'' \<rparr>"

lemma create_persist_run:
  assumes "db_up E" "lookup w i = None" "i = new_uuid E (tick w)"
    "req = set_trace (traceparent E (tick w)) req0" "marshal_request req = Some full"
  obtains w3 t t' where
    "value_of (create_persist E ctx req0 key) w = value_of (create_enqueue E ctx req i) w3"
    "final (create_persist E ctx req0 key) w = final (create_enqueue E ctx req i) w3"
    "events w3 = events w @ [accepted_row E ctx t i req full]" "queue_log w3 = queue_log w"
    "idempotency_keys w3 = (if key_row w key = None
       then idempotency_keys w @ [recorded_key E t' key i (metadata_text (api_metadata req))]
       else idempotency_keys w)"
    "tick w < tick w3"
proof -
  define w1 where "w1 = final (with_log ctx (\<lambda>l. l\<lparr> lc_event_id := i \<rparr>)) (next_state w)"
  define save :: "('a world_scheme, unit result) state" where
    "save = SaveProcessedEvent E i (tr_type req) full ''pending'' (ctx_trace_id ctx)
      (tr_priority req) [] (tr_execute_at req)"
  define w2 where "w2 = final save w1"
  define rec :: "('a world_scheme, bool result) state" where
    "rec = CheckAndRecordToDB E key i (api_metadata req)"
  define w3 where "w3 = final rec w2"
  have w1: "events w1 = events w" "queue_log w1 = queue_log w" "lookup w1 i = None"
    "idempotency_keys w1 = idempotency_keys w" "tick w < tick w1"
    using assms(2) by (simp_all add: w1_def lookup_def)
  have saved: "value_of save w1 = Inr ()"
    using assms(1) w1(3) unfolding save_def by (intro save_value) simp_all
  then have w2: "w2 = w1\<lparr> tick := Suc (Suc (Suc (tick w1))),
      events := events w1 @ [accepted_row E ctx (tick w1) i req full] \<rparr>"
    using save_Inr unfolding save_def w2_def accepted_row_def by fast
  then have i: "lookup w2 i \<noteq> None"
    by (simp add: lookup_def find_row_append find_row_Cons accepted_row_def saved_event_def split: option.split)
  have k: "key_row w2 key = key_row w key" using w1(4) w2 by (simp add: key_row_def)
  have recorded: "value_of rec w2 = Inr (key_row w2 key \<noteq> None)"
    using assms(1) i record_value [of E w2 key i "api_metadata req"] by (auto simp: rec_def)
  have w3: "w3 = (if key_row w key = None
      then w2\<lparr> tick := Suc (Suc (tick w2)), idempotency_keys := idempotency_keys w2
        @ [recorded_key E (tick w2) key i (metadata_text (api_metadata req))] \<rparr>
      else w2\<lparr> tick := Suc (Suc (tick w2)) \<rparr>)"
    using assms(1) i record_final [of E w2 key i "api_metadata req"] by (simp add: w3_def rec_def k)
  have "value_of (create_persist E ctx req0 key) w = value_of (create_enqueue E ctx req i) w3
      \<and> final (create_persist E ctx req0 key) w = final (create_enqueue E ctx req i) w3"
    unfolding w3_def w2_def w1_def
    using saved recorded assms(5) unfolding w2_def w1_def save_def rec_def
    by (simp add: create_persist_def Let_def assms(3,4) [symmetric] del: final_with_log)
  then show thesis
    using w1 w2 w3 by (intro that [of w3 "tick w1" "tick w2"]) (auto split: if_splits)
qed

lemma accepted_json_marshalled:
  "marshal_request req = Some full \<Longrightarrow> accepted_json i (tr_execute_at req) \<noteq> None"
  by (cases req) (auto simp: marshal_request_def accepted_json_def time_member_def
      split: option.splits bind_splits)

lemma create_enqueue_up:
  assumes "queue_up E" "marshal_request req = Some full"
  shows "rs_status (value_of (create_enqueue E ctx req i) w) = 200
    \<and> final (create_enqueue E ctx req i) w = log_call (submitted i req) (next_state w)"
proof -
  have "value_of (enqueue_or_schedule E i (tr_priority req) (tr_execute_at req)) w = Inr ()"
    using assms(1) by (simp add: enqueue_or_schedule_def queue_up_def split: option.split)
  moreover obtain p where "accepted_json i (tr_execute_at req) = Some p"
    using accepted_json_marshalled [OF assms(2)] by blast
  ultimately have "rs_status (value_of (create_enqueue E ctx req i) w) = 200"
    by (simp add: create_enqueue_def)
  then show ?thesis using create_enqueue_200 by blast
qed

text \<open>On a healthy system the last part answers 200, adds one row and one call to the queue.\<close>

lemma create_persist_up:
  fixes w :: "'x world_scheme" and ctx :: ctx and req0 :: task_request and key :: string
  assumes "db_up E" "queue_up E" "lookup w (new_uuid E (tick w)) = None"
    and "\<forall>tp. marshal_request (set_trace tp req0) \<noteq> None"
  defines "w' \<equiv> final (create_persist E ctx req0 key) w"
  obtains row c t' meta where "rs_status (value_of (create_persist E ctx req0 key) w) = 200"
    "events w' = events w @ [row]" "ev_id row = new_uuid E (tick w)" "queue_log w' = queue_log w @ [c]"
    "tick w < tick w'"
    "idempotency_keys w' = (if key_row w key = None
       then idempotency_keys w @ [recorded_key E t' key (new_uuid E (tick w)) meta] else idempotency_keys w)"
proof -
  define i where "i = new_uuid E (tick w)"
  define req where "req = set_trace (traceparent E (tick w)) req0"
  obtain full where full: "marshal_request req = Some full"
    using assms(4) by (auto simp: req_def)
  from assms(3) have free: "lookup w i = None" by (simp add: i_def)
  obtain w3 t t' where w3:
    "value_of (create_persist E ctx req0 key) w = value_of (create_enqueue E ctx req i) w3"
    "final (create_persist E ctx req0 key) w = final (create_enqueue E ctx req i) w3"
    "events w3 = events w @ [accepted_row E ctx t i req full]" "queue_log w3 = queue_log w"
    "idempotency_keys w3 = (if key_row w key = None
       then idempotency_keys w @ [recorded_key E t' key i (metadata_text (api_metadata req))]
       else idempotency_keys w)" "tick w < tick w3"
    using create_persist_run [OF assms(1) free i_def req_def full, of ctx key] by metis
  note up = create_enqueue_up [OF assms(2) full, of ctx i w3]
  then have w': "w' = log_call (submitted i req) (next_state w3)"
    using w3(2) by (simp add: w'_def)
  show thesis
    using w3 up by (intro that [of "accepted_row E ctx t i req full" "submitted i req" t'
        "metadata_text (api_metadata req)"]) (simp_all add: w' i_def accepted_row_def saved_event_def)
qed

text \<open>A key whose row is there and not expired at any time the database may report.\<close>

definition lasting :: "env \<Rightarrow> bool" where
  "lasting E \<longleftrightarrow> (\<forall>s t. db_now E s < pg_time E (time_add (clock E t) thirty_days))"

lemma check_start:
  assumes "w1 = final (with_log ctx f) (final (AddEvent E ctx step st oe) w)"
  shows "tables w1 = tables w" "db_ok w1 = db_ok w" "key_row w1 k = key_row w k" "tick w1 = Suc (tick w)"
  by (simp_all add: assms AddEvent_def key_row_def)

text \<open>No key that counts: none is stored, or the stored one is never active again.\<close>

definition unprotected :: "env \<Rightarrow> 'x db_scheme \<Rightarrow> string \<Rightarrow> bool" where
  "unprotected E w key \<longleftrightarrow> (\<forall>k t. key_row w key = Some k \<longrightarrow> \<not> key_active (db_now E t) k)"

lemma unprotected_None: "key_row w key = None \<Longrightarrow> unprotected E w key"
  by (simp add: unprotected_def)

lemma create_check_free:
  fixes w :: "'x world_scheme"
  assumes "db_up E" "db_ok w" "unprotected E w (request_key req)"
  shows "value_of (create_check E ctx req) w = Inr (request_key req)"
proof -
  have "value_of (Isprocessed E (request_key req)) u = Inr (False, [])"
    if "db_ok u" "key_row u (request_key req) = key_row w (request_key req)" for u :: "'x world_scheme"
    using active_value [OF that(1), of E] that(2) assms(1,3)
    by (simp add: unprotected_def split: option.split)
  then show ?thesis
    using assms(2) by (simp add: create_check_def check_start(2,3) [OF refl] del: final_with_log)
qed

lemma tick_with_log: "tick (final (with_log ctx f) w) = tick w"
  by simp

lemma create_check_tick: "tick w \<le> tick (final (create_check E ctx req) w)"
  by (simp add: create_check_def tick_with_log AddEvent_def reject_def del: final_with_log
      split: sum.split prod.split)

lemma ok_create [wf_intros]: "keeps db_ok (HandleCreateTask E ctx body)"
  unfolding HandleCreateTask_def create_validated_def create_stored_def create_check_def
    create_persist_def create_enqueue_def enqueue_or_schedule_def reject_def execute_in_past_def Let_def
  by (intro wf_intros)

text \<open>A key that is there and lasts stops a submission at the check.\<close>

lemma create_check_taken:
  fixes w :: "'x world_scheme"
  assumes "db_up E" "db_ok w" "key_row w (request_key req) = Some k" "\<forall>t. key_active (db_now E t) k"
  shows "value_of (create_check E ctx req) w = Inl \<lparr> rs_status = 409, rs_content_type = ''application/json'',
    rs_body = jprint (duplicate_json (ik_event_id k)) \<rparr>"
proof -
  have "value_of (Isprocessed E (request_key req)) u = Inr (True, ik_event_id k)"
    if "db_ok u" "key_row u (request_key req) = Some k" for u :: "'x world_scheme"
    using active_value [OF that(1), of E] that(2) assms(1,4) by simp
  then show ?thesis
    using assms by (simp add: create_check_def check_start(2,3) [OF refl] del: final_with_log)
qed

text \<open>A request that is decoded, passes the guards and is not late.\<close>

definition submittable :: "env \<Rightarrow> bytes \<Rightarrow> task_request \<Rightarrow> bool" where
  "submittable E body req \<longleftrightarrow> (\<exists>r. decode_stream decode_request empty_request body = (r, True)
    \<and> req = default_priority r \<and> passes req
    \<and> (\<forall>at t. tr_execute_at req = Some at \<longrightarrow> \<not> time_before at (clock E t)))"

lemma submittable_writes:
  "submittable E body req \<Longrightarrow> writable_times req \<Longrightarrow> \<forall>tp. marshal_request (set_trace tp req) \<noteq> None"
  using decoded_writes unfolding submittable_def by (metis edits(6))

lemma create_task_stored:
  fixes w :: "'x world_scheme"
  assumes "submittable E body req"
  obtains w1 where "tables w1 = tables w"
    "value_of (HandleCreateTask E ctx body) w = value_of (create_stored E ctx req) w1"
    "final (HandleCreateTask E ctx body) w = final (create_stored E ctx req) w1"
proof -
  obtain r where r: "decode_stream decode_request empty_request body = (r, True)"
    "req = default_priority r" "passes req"
    "\<forall>at t. tr_execute_at req = Some at \<longrightarrow> \<not> time_before at (clock E t)"
    using assms by (auto simp: submittable_def)
  define w1 :: "'x world_scheme" where "w1 = final (execute_in_past E (tr_execute_at r)) w"
  have "tables w1 = tables w" unfolding w1_def by (rule framesD) (intro frame)
  moreover have "\<not> value_of (execute_in_past E (tr_execute_at r)) w"
    using r(2,4) by (auto simp: execute_in_past_def split: option.split)
  moreover have "tr_type r \<noteq> []"
    using r(2,3) Validate_type [of "tr_type r" "tr_payload r"] by (auto simp: passes_def)
  ultimately show thesis
    using r(1-3) by (intro that [of w1])
      (simp_all add: HandleCreateTask_def create_validated_def passes_def Let_def w1_def)
qed

lemma same_tables:
  assumes "tables w1 = tables w"
  shows "lookup w1 i = lookup w i" "key_row w1 k = key_row w k" "db_ok w1 = db_ok w"
  using assms by (simp_all add: tables_def lookup_def key_row_def db_ok_def)

lemma create_task_duplicate:
  fixes w :: "'x world_scheme"
  assumes "submittable E body req" "db_up E" "db_ok w"
    and "key_row w (request_key req) = Some k" "\<forall>t. key_active (db_now E t) k"
  shows "value_of (HandleCreateTask E ctx body) w = \<lparr> rs_status = 409, rs_content_type = ''application/json'',
    rs_body = jprint (duplicate_json (ik_event_id k)) \<rparr>"
proof -
  obtain w1 where w1: "tables w1 = tables w"
    "value_of (HandleCreateTask E ctx body) w = value_of (create_stored E ctx req) w1"
    "final (HandleCreateTask E ctx body) w = final (create_stored E ctx req) w1"
    by (rule create_task_stored [OF assms(1), of w ctx])
  have "db_ok w1" "key_row w1 (request_key req) = Some k"
    by (simp_all only: same_tables [OF w1(1)] assms)
  note create_check_taken [OF assms(2) this assms(5), of ctx]
  then show ?thesis by (simp only: w1(2) create_stored_def value_bind sum.case value_return)
qed

text \<open>With the queue down, the last step fails and the row is marked.\<close>

lemma create_enqueue_down:
  assumes "queue_down E" "db_up E" "lookup w i \<noteq> None"
  shows "rs_status (value_of (create_enqueue E ctx req i) w) = 500
    \<and> task_status (final (create_enqueue E ctx req i) w) i = Some ''failed''
    \<and> idempotency_keys (final (create_enqueue E ctx req i) w) = idempotency_keys w"
proof -
  define w1 where "w1 = final (enqueue_or_schedule E i (tr_priority req) (tr_execute_at req)) w"
  obtain e where "queue_fault E (tick w) = Some e"
    using assms(1) by (auto simp: queue_down_def)
  then have e: "value_of (enqueue_or_schedule E i (tr_priority req) (tr_execute_at req)) w = Inl e"
    by (simp add: enqueue_or_schedule_def split: option.split)
  have w1: "lookup w1 i \<noteq> None" "idempotency_keys w1 = idempotency_keys w"
    using assms(3) by (auto simp: w1_def enqueue_or_schedule_def lookup_def split: option.split)
  define w2 where "w2 = final (with_log ctx (\<lambda>l. l\<lparr> lc_status := ''failed'' \<rparr>))
    (final (AddEvent E ctx ''failed_enqueue'' ''failed'' (Some e)) w1)"
  have w2: "lookup w2 i \<noteq> None" "idempotency_keys w2 = idempotency_keys w"
    using w1 same_tables(1) [OF check_start(1) [OF w2_def], of i] check_start(1) [OF w2_def]
    by (auto simp: tables_def)
  define w3 where "w3 = final (RepoUpdateEventStatus E i ''failed'') w2"
  have "task_status w3 i = Some ''failed''"
    using status_lookup [of E w2 i "''failed''" i] assms(2) w2(1)
    by (auto simp: w3_def task_status_Some)
  moreover have "idempotency_keys w3 = idempotency_keys w"
    using w2(2) framesD [OF save_frames(2) [of idempotency_keys], of E i "''failed''" w2] by (simp add: w3_def)
  moreover have "final (create_enqueue E ctx req i) w = final (RespondWithError ctx 500 e) w3"
    "rs_status (value_of (create_enqueue E ctx req i) w) = 500"
    using e by (simp_all add: create_enqueue_def w1_def w2_def w3_def del: final_with_log final_respond_error)
  ultimately show ?thesis by (simp add: task_status_def lookup_def)
qed

text \<open>On a healthy system nothing but an active key stops a request that passes the guards.\<close>

lemma create_unprotected:
  fixes w :: "'x world_scheme" and ctx :: ctx
  assumes "db_up E" "queue_up E" "db_ok w"
    and "decode_stream decode_request empty_request body = (r, True)"
    and "passes (default_priority r)" "tr_execute_at r = None"
    and "unprotected E w (request_key (default_priority r))" "\<forall>t\<ge>tick w. lookup w (new_uuid E t) = None"
    and "writable_times r"
  defines "w' \<equiv> final (HandleCreateTask E ctx body) w"
  obtains t row where "rs_status (value_of (HandleCreateTask E ctx body) w) = 200"
    "events w' = events w @ [row]" "ev_id row = new_uuid E t" "t < tick w'"
    "\<And>k. key_row w k \<noteq> None \<Longrightarrow> key_row w' k = key_row w k"
proof -
  define req where "req = default_priority r"
  define w1 where "w1 = final (create_check E ctx req) w"
  have w1: "tables w1 = tables w" unfolding w1_def by (rule framesD) (rule create_check_frames)
  have free: "lookup w1 (new_uuid E (tick w1)) = None"
    using same_tables(1) [OF w1] assms(8) create_check_tick [of w E ctx req] by (simp add: w1_def)
  have "\<forall>tp. marshal_request (set_trace tp req) \<noteq> None" using decoded_writes [OF assms(4,9)] by (simp add: req_def)
  from create_persist_up [OF assms(1,2) free this, of ctx "request_key req"]
  obtain row t' meta where p:
    "rs_status (value_of (create_persist E ctx req (request_key req)) w1) = 200"
    "events (final (create_persist E ctx req (request_key req)) w1) = events w1 @ [row]"
    "ev_id row = new_uuid E (tick w1)"
    "tick w1 < tick (final (create_persist E ctx req (request_key req)) w1)"
    "idempotency_keys (final (create_persist E ctx req (request_key req)) w1)
      = (if key_row w1 (request_key req) = None
         then idempotency_keys w1 @ [recorded_key E t' (request_key req) (new_uuid E (tick w1)) meta]
         else idempotency_keys w1)"
    by metis
  have check: "value_of (create_check E ctx req) w = Inr (request_key req)"
    using create_check_free assms(1,3,7) by (simp add: req_def)
  have "tr_type r \<noteq> []"
    using assms(5) Validate_type [of "tr_type r" "tr_payload r"] by (auto simp: passes_def)
  then have run: "value_of (HandleCreateTask E ctx body) w = value_of (create_stored E ctx req) w"
    "w' = final (create_stored E ctx req) w"
    unfolding w'_def using assms(4-6)
    by (simp_all add: HandleCreateTask_def create_validated_def execute_in_past_def passes_def Let_def req_def)
  then have w': "w' = final (create_persist E ctx req (request_key req)) w1"
    using check by (simp add: create_stored_def w1_def)
  have same: "events w1 = events w" "idempotency_keys w1 = idempotency_keys w" "key_row w1 k = key_row w k" for k
    using w1 by (simp_all add: tables_def key_row_def)
  show thesis
  proof (rule that)
    show "rs_status (value_of (HandleCreateTask E ctx body) w) = 200"
      using run(1) check p(1) by (simp add: create_stored_def w1_def)
    show "events w' = events w @ [row]" "ev_id row = new_uuid E (tick w1)" "tick w1 < tick w'"
      using p by (simp_all add: w' same)
    show "key_row w' k = key_row w k" if "key_row w k \<noteq> None" for k
      using that by (auto simp: w' key_row_def p(5) same find_row_append split: if_splits)
  qed
qed

lemma create_refused:
  assumes "rs_status (value_of (HandleCreateTask E ctx body) w) \<in> {400, 409}"
  shows "tables (final (HandleCreateTask E ctx body) w) = tables w"
  using assms create_validated_refused
  by (cases "decode_stream decode_request empty_request body")
    (auto simp: HandleCreateTask_def simp del: final_reject split: if_splits)

text \<open>What an accepted submission leaves behind.\<close>

lemma create_200:
  assumes "rs_status (value_of (HandleCreateTask E ctx body) w) = 200"
  shows "\<exists>r req i full t. decode_stream decode_request empty_request body = (r, True)
    \<and> passes (default_priority r)
    \<and> (\<forall>at. tr_execute_at r = Some at \<longrightarrow> \<not> time_before at (clock E (tick w)))
    \<and> (\<exists>tp. req = set_trace tp (default_priority r))
    \<and> marshal_request req = Some full \<and> lookup w i = None
    \<and> events (final (HandleCreateTask E ctx body) w) = events w @ [accepted_row E ctx t i req full]
    \<and> queue_log (final (HandleCreateTask E ctx body) w) = queue_log w @ [submitted i req]
    \<and> key_row (final (HandleCreateTask E ctx body) w) (request_key req) \<noteq> None"
proof -
  obtain r ok where r: "decode_stream decode_request empty_request body = (r, ok)" by fastforce
  then have ok: "ok" using assms by (auto simp: HandleCreateTask_def split: if_splits)
  have "rs_status (value_of (create_validated E ctx r) w) = 200"
    and fin: "final (HandleCreateTask E ctx body) w = final (create_validated E ctx r) w"
    using assms r ok by (simp_all add: HandleCreateTask_def)
  from this(1) obtain w1 where w1: "tables w1 = tables w" "passes (default_priority r)"
    "rs_status (value_of (create_stored E ctx (default_priority r)) w1) = 200"
    "final (create_validated E ctx r) w = final (create_stored E ctx (default_priority r)) w1"
    "\<not> value_of (execute_in_past E (tr_execute_at r)) w"
    by (rule create_validated_200)
  have now: "\<forall>at. tr_execute_at r = Some at \<longrightarrow> \<not> time_before at (clock E (tick w))"
    using w1(5) by (auto simp: execute_in_past_def)
  from w1(3) obtain w2 where w2: "tables w2 = tables w1"
    "rs_status (value_of (create_persist E ctx (default_priority r) (request_key (default_priority r))) w2) = 200"
    "final (create_stored E ctx (default_priority r)) w1
      = final (create_persist E ctx (default_priority r) (request_key (default_priority r))) w2"
    by (rule create_stored_200)
  have same: "events w2 = events w" "queue_log w2 = queue_log w" "lookup w2 i = lookup w i" for i
    using w1(1) w2(1) by (simp_all add: tables_def lookup_def)
  from w2(2) show ?thesis
  proof (rule create_persist_200, goal_cases)
    case (1 i req full t)
    moreover have "request_key req = request_key (default_priority r)"
      by (simp add: 1(2) request_key_def)
    ultimately show ?case
      using r ok w1 w2(3) fin same now
      by (intro exI [of _ r] exI [of _ req] exI [of _ i] exI [of _ full] exI [of _ t]) auto
  qed
qed

section \<open>Properties of the submission handler\<close>

text \<open>
  C14: A submission answered with 200 was decoded without an error, is of a type other than
  generate_report, passed the validator (its next step, too), had no execute_at in the past, and
  left exactly this behind: one new pending row under a fresh identifier with the request, trace
  context and defaulted priority as stored text, one call to the queue for that identifier that
  succeeded, and a row for its idempotency key.
\<close>

theorem create_task_accepted:
  assumes "rs_status (value_of (HandleCreateTask E ctx body) w) = 200"
  shows "\<exists>r req i full t. decode_stream decode_request empty_request body = (r, True)
    \<and> passes (default_priority r)
    \<and> (\<forall>at. tr_execute_at r = Some at \<longrightarrow> \<not> time_before at (clock E (tick w)))
    \<and> (\<exists>tp. req = set_trace tp (default_priority r))
    \<and> marshal_request req = Some full \<and> lookup w i = None
    \<and> events (final (HandleCreateTask E ctx body) w) = events w @ [accepted_row E ctx t i req full]
    \<and> queue_log (final (HandleCreateTask E ctx body) w) = queue_log w @ [submitted i req]
    \<and> key_row (final (HandleCreateTask E ctx body) w) (request_key req) \<noteq> None"
  using assms by (rule create_200)

text \<open>
  C18: A submission answered with 400 or 409 leaves every table, the trace of the queue and the
  stored objects as they were.
\<close>

theorem create_task_refused:
  assumes "rs_status (value_of (HandleCreateTask E ctx body) w) \<in> {400, 409}"
  shows "tables (final (HandleCreateTask E ctx body) w) = tables w"
  using assms by (rule create_refused)

text \<open>
  generate_report cannot be submitted directly: whatever the rest of the body, the answer is
  400 and nothing is stored or queued.
\<close>

theorem direct_report_refused:
  assumes "decode_stream decode_request empty_request body = (r, True)" "tr_type r = ''generate_report''"
  shows "rs_status (value_of (HandleCreateTask E ctx body) w) = 400
    \<and> tables (final (HandleCreateTask E ctx body) w) = tables w"
  using assms by (simp add: HandleCreateTask_def create_validated_def del: final_reject)

text \<open>
  C17: On a healthy system a request that passes the guards, has no execute_at, whose key is
  free and whose times have offsets below a day, is answered with 200.
\<close>

theorem create_task_succeeds:
  assumes "db_up E" "queue_up E" "db_ok w"
    and "decode_stream decode_request empty_request body = (r, True)"
    and "passes (default_priority r)" "tr_execute_at r = None"
    and "key_row w (request_key (default_priority r)) = None" "\<forall>t. lookup w (new_uuid E t) = None"
    and "writable_times r"
  shows "rs_status (value_of (HandleCreateTask E ctx body) w) = 200"
  using create_unprotected [OF assms(1-6) unprotected_None [OF assms(7)] _ assms(9)] assms(8) by blast

text \<open>
  While the key of a submission is stored and lasts, the same request is answered with 409
  and the identifier of the task it belongs to.
\<close>

theorem duplicate_submission:
  assumes "submittable E body req" "db_up E" "db_ok w"
    and "key_row w (request_key req) = Some k" "\<forall>t. key_active (db_now E t) k"
  shows "value_of (HandleCreateTask E ctx body) w = \<lparr> rs_status = 409, rs_content_type = ''application/json'',
    rs_body = jprint (duplicate_json (ik_event_id k)) \<rparr>
    \<and> tables (final (HandleCreateTask E ctx body) w) = tables w"
  using create_task_duplicate [OF assms] create_refused [of E ctx body w] by simp

text \<open>
  C28: When the queue cannot be reached, the submission answers 500 and leaves a failed task, but
  its idempotency key stays: sending the same request again is answered with 409 and the
  identifier of the failed task, so the client cannot submit the request until the key expires.
\<close>

theorem failed_enqueue_blocks_retry:
  fixes w :: "'x world_scheme" and ctx :: ctx
  assumes "submittable E body req" "db_up E" "queue_down E" "lasting E" "db_ok w"
    and "key_row w (request_key req) = None" "\<forall>t. lookup w (new_uuid E t) = None"
    and "writable_times req"
  defines "w' \<equiv> final (HandleCreateTask E ctx body) w"
  shows "\<exists>i. rs_status (value_of (HandleCreateTask E ctx body) w) = 500
    \<and> task_status w' i = Some ''failed''
    \<and> value_of (HandleCreateTask E ctx body) w' = \<lparr> rs_status = 409,
        rs_content_type = ''application/json'', rs_body = jprint (duplicate_json i) \<rparr>"
proof -
  obtain w1 where w1: "tables w1 = tables w"
    "value_of (HandleCreateTask E ctx body) w = value_of (create_stored E ctx req) w1"
    "final (HandleCreateTask E ctx body) w = final (create_stored E ctx req) w1"
    by (rule create_task_stored [OF assms(1), of w ctx])
  define w2 where "w2 = final (create_check E ctx req) w1"
  have t2: "tables w2 = tables w"
    using w1(1) by (simp add: w2_def framesD [OF create_check_frames])
  have "value_of (create_check E ctx req) w1 = Inr (request_key req)"
    using create_check_free [OF assms(2), of w1 req ctx] same_tables [OF w1(1)] assms(5,6)
    by (simp add: unprotected_None)
  then have stored: "value_of (create_stored E ctx req) w1 = value_of (create_persist E ctx req (request_key req)) w2"
    "final (create_stored E ctx req) w1 = final (create_persist E ctx req (request_key req)) w2"
    by (simp_all add: create_stored_def w2_def)
  define i where "i = new_uuid E (tick w2)"
  obtain full where full: "marshal_request (set_trace (traceparent E (tick w2)) req) = Some full"
    using submittable_writes [OF assms(1,8)] by blast
  have free: "lookup w2 i = None" "key_row w2 (request_key req) = None"
    using same_tables [OF t2] assms(6,7) by (simp_all add: i_def)
  obtain w3 t t' where w3:
    "value_of (create_persist E ctx req (request_key req)) w2
      = value_of (create_enqueue E ctx (set_trace (traceparent E (tick w2)) req) i) w3"
    "final (create_persist E ctx req (request_key req)) w2
      = final (create_enqueue E ctx (set_trace (traceparent E (tick w2)) req) i) w3"
    "events w3 = events w2 @ [accepted_row E ctx t i (set_trace (traceparent E (tick w2)) req) full]"
    "idempotency_keys w3 = idempotency_keys w2 @ [recorded_key E t' (request_key req) i
      (metadata_text (api_metadata (set_trace (traceparent E (tick w2)) req)))]"
    using create_persist_run [OF assms(2) free(1) i_def refl full, of ctx "request_key req"] free(2)
    by (metis (full_types))
  have "lookup w3 i \<noteq> None"
    using w3(3) by (simp add: lookup_None accepted_row_def saved_event_def)
  note down = create_enqueue_down [OF assms(3,2) this, of ctx "set_trace (traceparent E (tick w2)) req"]
  define rec where "rec = recorded_key E t' (request_key req) i
      (metadata_text (api_metadata (set_trace (traceparent E (tick w2)) req)))"
  have w': "w' = final (create_enqueue E ctx (set_trace (traceparent E (tick w2)) req) i) w3"
    unfolding w'_def w1(3) stored(2) w3(2) ..
  then have "key_row w' (request_key req) = Some rec"
    using down w3(4) free(2)
    by (simp add: key_row_def find_row_append find_row_Cons rec_def recorded_key_def)
  moreover have "\<forall>t. key_active (db_now E t) rec" "ik_event_id rec = i"
    using assms(4) by (simp_all add: lasting_def rec_def key_active_def recorded_key_def)
  moreover have "db_ok w'"
    unfolding w'_def by (rule keepsD [OF ok_create assms(5)])
  ultimately show ?thesis
    using create_task_duplicate [OF assms(1,2), of w' rec ctx] down w' w1(2) stored(1) w3(1)
    by (intro exI [of _ i]) simp
qed

end
