(* ===== verification/Go_Net.thy ===== *)
theory Go_Net
  imports Go_Time
begin

text \<open>
  What the program uses of Go's package \<open>net\<close>: addresses as the 16 bytes of a \<open>net.IP\<close>, parsing
  and printing them, host and port, and blocks of addresses (\<open>ParseCIDR\<close>, \<open>IPNet.Contains\<close>).
\<close>

unbundle bit_operations_syntax

type_synonym w8 = "8 word"
type_synonym ip = "w8 list"

section \<open>Splitting texts\<close>

definition index_of :: "char \<Rightarrow> string \<Rightarrow> nat option" where
  "index_of c s = (if c \<in> set s then Some (length (takeWhile (\<lambda>x. x \<noteq> c) s)) else None)"

definition last_index :: "char \<Rightarrow> string \<Rightarrow> nat option" where
  "last_index c s = map_option (\<lambda>k. length s - 1 - k) (index_of c (rev s))"

text \<open>\<open>strings.Split\<close> on one character.\<close>

fun split_on :: "char \<Rightarrow> string \<Rightarrow> string list" where
  "split_on c [] = [[]]"
| "split_on c (x # xs) =
    (if x = c then [] # split_on c xs
     else (case split_on c xs of [] \<Rightarrow> [[x]] | p # ps \<Rightarrow> (x # p) # ps))"

text \<open>\<open>net.SplitHostPort\<close>; \<open>Inl\<close> is the text of the error.\<close>

definition split_host_port :: "string \<Rightarrow> string + (string \<times> string)" where
  "split_host_port hp =
    (case last_index (CHR '':'') hp of
       None \<Rightarrow> Inl (''address '' @ hp @ '': missing port in address'')
     | Some i \<Rightarrow>
         (if hd hp = CHR ''['' then
            (case index_of (CHR '']'') hp of
               None \<Rightarrow> Inl (''address '' @ hp @ '': missing '' @ [CHR 0x27, CHR '']'', CHR 0x27] @ '' in address'')
             | Some e \<Rightarrow>
                 (if e + 1 = length hp then Inl (''address '' @ hp @ '': missing port in address'')
                  else if e + 1 \<noteq> i then
                    (if hp ! (e + 1) = CHR '':'' then Inl (''address '' @ hp @ '': too many colons in address'')
                     else Inl (''address '' @ hp @ '': missing port in address''))
                  else if CHR ''['' \<in> set (drop 1 hp) then
                    Inl (''address '' @ hp @ '': unexpected '' @ [CHR 0x27, CHR ''['', CHR 0x27] @ '' in address'')
                  else if CHR '']'' \<in> set (drop (e + 1) hp) then
                    Inl (''address '' @ hp @ '': unexpected '' @ [CHR 0x27, CHR '']'', CHR 0x27] @ '' in address'')
                  else Inr (take (e - 1) (drop 1 hp), drop (i + 1) hp)))
          else if CHR '':'' \<in> set (take i hp) then Inl (''address '' @ hp @ '': too many colons in address'')
          else if CHR ''['' \<in> set hp then
            Inl (''address '' @ hp @ '': unexpected '' @ [CHR 0x27, CHR ''['', CHR 0x27] @ '' in address'')
          else if CHR '']'' \<in> set hp then
            Inl (''address '' @ hp @ '': unexpected '' @ [CHR 0x27, CHR '']'', CHR 0x27] @ '' in address'')
          else Inr (take i hp, drop (i + 1) hp)))"

definition join_host_port :: "string \<Rightarrow> string \<Rightarrow> string" where
  "join_host_port host port =
    (if CHR '':'' \<in> set host then CHR ''['' # host @ '']:'' @ port else host @ '':'' @ port)"

section \<open>Addresses\<close>

definition v4_prefix :: "w8 list" where
  "v4_prefix = replicate 10 0 @ [0xFF, 0xFF]"

definition ip_v4 :: "w8 list \<Rightarrow> ip" where
  "ip_v4 bs = v4_prefix @ bs"

definition To4 :: "ip \<Rightarrow> w8 list option" where
  "To4 a = (if length a = 4 then Some a
    else if length a = 16 \<and> take 12 a = v4_prefix then Some (drop 12 a) else None)"

text \<open>One decimal field: at most 255 and without a leading zero.\<close>

definition parse_octet :: "string \<Rightarrow> w8 option" where
  "parse_octet s =
    (if s = [] \<or> \<not> list_all is_digit s \<or> (hd s = CHR ''0'' \<and> length s \<noteq> 1) \<or> 255 < digits_val s then None
     else Some (word_of_nat (digits_val s)))"

definition parse_v4 :: "string \<Rightarrow> w8 list option" where
  "parse_v4 s = (let fs = split_on (CHR ''.'') s in
    if length fs = 4 then those (map parse_octet fs) else None)"

text \<open>
  The loop of \<open>netip.parseIPv6\<close>: the bytes so far, where the ellipsis was, and the rest; 8 groups
  at most.
\<close>

definition hex_group :: "string \<Rightarrow> nat" where
  "hex_group s = foldl (\<lambda>n c. 16 * n + hex_val c) 0 s"

fun v6_groups :: "nat \<Rightarrow> w8 list \<Rightarrow> nat option \<Rightarrow> string \<Rightarrow> (w8 list \<times> nat option) option" where
  "v6_groups 0 bs el s = (if s = [] then Some (bs, el) else None)"
| "v6_groups (Suc n) bs el s =
    (let ds = takeWhile is_hex s; r = dropWhile is_hex s in
     if ds = [] \<or> 4 < length ds then None
     else if r \<noteq> [] \<and> hd r = CHR ''.'' then
       (if el = None \<and> length bs \<noteq> 12 \<or> 16 < length bs + 4 then None
        else map_option (\<lambda>q. (bs @ q, el)) (parse_v4 s))
     else
       (let bs' = bs @ [word_of_nat (hex_group ds div 256), word_of_nat (hex_group ds mod 256)] in
        if r = [] then Some (bs', el)
        else if hd r \<noteq> CHR '':'' \<or> length r = 1 then None
        else if r ! 1 = CHR '':'' then
          (if el \<noteq> None then None
           else if length r = 2 then Some (bs', Some (length bs'))
           else v6_groups n bs' (Some (length bs')) (drop 2 r))
        else v6_groups n bs' el (drop 1 r)))"

definition expand_ellipsis :: "w8 list \<times> nat option \<Rightarrow> ip option" where
  "expand_ellipsis r = (case r of (bs, el) \<Rightarrow>
    if length bs < 16 then
      (case el of None \<Rightarrow> None | Some k \<Rightarrow> Some (take k bs @ replicate (16 - length bs) 0 @ drop k bs))
    else if el \<noteq> None then None else Some bs)"

text \<open>An address with a zone is none for \<open>net.ParseIP\<close>.\<close>

definition parse_v6 :: "string \<Rightarrow> ip option" where
  "parse_v6 s =
    (if CHR ''%'' \<in> set s then None
     else if take 2 s = ''::'' then
       (if length s = 2 then Some (replicate 16 0)
        else Option.bind (v6_groups 8 [] (Some 0) (drop 2 s)) expand_ellipsis)
     else Option.bind (v6_groups 8 [] None s) expand_ellipsis)"

definition ParseIP :: "string \<Rightarrow> ip option" where
  "ParseIP s =
    (case dropWhile (\<lambda>c. c \<notin> {CHR ''.'', CHR '':'', CHR ''%''}) s of
       [] \<Rightarrow> None
     | c # cs \<Rightarrow>
         (if c = CHR ''.'' then map_option ip_v4 (parse_v4 s)
          else if c = CHR '':'' then parse_v6 s else None))"

section \<open>Printing an address\<close>

definition v4_string :: "w8 list \<Rightarrow> string" where
  "v4_string bs = join_with ''.'' (map (\<lambda>b. dec (unat b)) bs)"

fun hex_num :: "nat \<Rightarrow> string" where
  "hex_num n = (if n < 16 then [hex_char n] else hex_num (n div 16) @ [hex_char (n mod 16)])"

fun v6_words :: "w8 list \<Rightarrow> nat list" where
  "v6_words (a # b # r) = (256 * unat a + unat b) # v6_words r"
| "v6_words _ = []"

text \<open>The first longest run of at least two zero groups: its start and its end.\<close>

fun zero_run :: "nat \<Rightarrow> nat list \<Rightarrow> nat \<times> nat" where
  "zero_run i [] = (0, 0)"
| "zero_run i (g # gs) =
    (let k = length (takeWhile (\<lambda>x. x = 0) (g # gs)); (a, b) = zero_run (Suc i) gs in
     if 2 \<le> k \<and> b - a \<le> k then (i, i + k) else (a, b))"

definition v6_string :: "ip \<Rightarrow> string" where
  "v6_string a = (let gs = v6_words a; (p, q) = zero_run 0 gs in
    if p = q then join_with '':'' (map hex_num gs)
    else join_with '':'' (map hex_num (take p gs)) @ ''::'' @ join_with '':'' (map hex_num (drop q gs)))"

definition ip_string :: "ip \<Rightarrow> string" where
  "ip_string a = (case To4 a of Some bs \<Rightarrow> v4_string bs | None \<Rightarrow> v6_string a)"

section \<open>Blocks\<close>

text \<open>\<open>IPNet\<close>: network number and mask, of 4 or of 16 bytes.\<close>

type_synonym ip_net = "w8 list \<times> w8 list"

definition cidr_mask :: "nat \<Rightarrow> nat \<Rightarrow> w8 list" where
  "cidr_mask ones n = map (\<lambda>i. if 8 * i + 8 \<le> ones then 0xFF
     else if ones \<le> 8 * i then 0 else push_bit (8 - (ones - 8 * i)) 0xFF) [0..<n]"

definition ParseCIDR :: "string \<Rightarrow> ip_net option" where
  "ParseCIDR s =
    (case index_of (CHR ''/'') s of
       None \<Rightarrow> None
     | Some k \<Rightarrow>
         (case ParseIP (take k s) of
            None \<Rightarrow> None
          | Some a \<Rightarrow>
              (let ones = drop (Suc k) s;
                   bs = (if CHR '':'' \<in> set (take k s) then a else (case To4 a of Some q \<Rightarrow> q | None \<Rightarrow> a));
                   m = cidr_mask (digits_val ones) (length bs)
               in if ones = [] \<or> \<not> list_all is_digit ones \<or> 8 * length bs < digits_val ones then None
                  else Some (map2 (AND) bs m, m))))"

definition net_contains :: "ip_net \<Rightarrow> ip \<Rightarrow> bool" where
  "net_contains net a = (case net of (nn, m) \<Rightarrow>
    (let b = (case To4 a of Some q \<Rightarrow> q | None \<Rightarrow> a) in
     length b = length nn \<and> list_all (\<lambda>i. nn ! i AND m ! i = b ! i AND m ! i) [0..<length b]))"

section \<open>Facts\<close>

lemma split_on_not_Nil [simp]: "split_on c s \<noteq> []"
  by (induction s) (auto split: list.split)

lemma split_on_join: "join_with [c] (split_on c s) = s"
proof (induction s)
  case (Cons x s)
  obtain p ps where "split_on c s = p # ps" by (cases "split_on c s") auto
  then show ?case using Cons by (cases ps) auto
qed simp

lemma split_no_sep: "\<forall>l\<in>set (split_on c s). c \<notin> set l"
  by (induction s) (auto split: list.split)

lemma split_on_join_with:
  "\<forall>l\<in>set ls. c \<notin> set l \<Longrightarrow> ls \<noteq> [] \<Longrightarrow> split_on c (join_with [c] ls) = ls"
proof (induction ls)
  case (Cons f fs)
  have "split_on c (f @ c # s) = f # split_on c s" if "c \<notin> set f" for f s
    using that by (induction f) auto
  moreover have "split_on c f = [f]" if "c \<notin> set f" for f using that by (induction f) auto
  ultimately show ?case using Cons by (cases fs) auto
qed simp

end
