(* ===== verification/Request_Log.thy ===== *)
theory Request_Log
  imports Task_Handler Go_Net
begin

text \<open>
  \<open>internal/middleware\<close>: the trace middleware, the request logger with its counting reader and
  writer, and the redaction of client addresses. Results: when the logged status is the one that
  was sent, and what the redaction hides.
\<close>

section \<open>The counting writer\<close>

text \<open>What a handler does with its \<open>ResponseWriter\<close>; a write gives the number of bytes written.\<close>

datatype write_call = WriteHeader nat | WriteBytes nat

record spy_writer =
  bytes_written :: nat
  status_code :: nat

definition empty_spy :: spy_writer where
  "empty_spy = \<lparr> bytes_written = 0, status_code = 0 \<rparr>"

definition spy_write :: "nat \<Rightarrow> spy_writer \<Rightarrow> spy_writer" where
  "spy_write n s = s\<lparr> status_code := if status_code s = 0 then 200 else status_code s,
    bytes_written := bytes_written s + n \<rparr>"

definition spy_header :: "nat \<Rightarrow> spy_writer \<Rightarrow> spy_writer" where
  "spy_header code s = s\<lparr> status_code := code \<rparr>"

definition spy_call :: "write_call \<Rightarrow> spy_writer \<Rightarrow> spy_writer" where
  "spy_call c s = (case c of WriteHeader code \<Rightarrow> spy_header code s | WriteBytes n \<Rightarrow> spy_write n s)"

definition spied :: "write_call list \<Rightarrow> spy_writer" where
  "spied cs = fold spy_call cs empty_spy"

text \<open>The counting reader adds up what the reads of the body returned.\<close>

definition spy_read :: "nat list \<Rightarrow> nat" where
  "spy_read ns = fold (\<lambda>n total. total + n) ns 0"

text \<open>
  The status \<open>net/http\<close> sends: that of the first header, or 200 at the first write or at the end. A
  header from 100 to 199, but 101, is informational and sent in addition. (A code below 100 or above
  999 makes \<open>WriteHeader\<close> panic.)
\<close>

definition informational :: "nat \<Rightarrow> bool" where
  "informational code \<longleftrightarrow> 100 \<le> code \<and> code \<le> 199 \<and> code \<noteq> 101"

fun sent_status :: "write_call list \<Rightarrow> nat" where
  "sent_status [] = 200"
| "sent_status (WriteBytes n # cs) = 200"
| "sent_status (WriteHeader code # cs) = (if informational code then sent_status cs else code)"

section \<open>redactIP\<close>

definition redactIP :: "string \<Rightarrow> string" where
  "redactIP address =
    (let host = (case split_host_port address of Inl _ \<Rightarrow> address | Inr (h, _) \<Rightarrow> h) in
     case ParseIP host of
       None \<Rightarrow> address
     | Some a \<Rightarrow>
         (if To4 a \<noteq> None \<and> length (split_on (CHR ''.'') host) = 4
          then join_with ''.'' ((split_on (CHR ''.'') host)[3 := ''x''])
          else host))"

section \<open>The line that is logged\<close>

datatype log_value = LogText string | LogInt int | LogDuration int | LogEvents "log_event list" | LogError goerr

record http_request =
  hr_method :: string
  hr_path :: string
  hr_query :: "string \<Rightarrow> string"
  hr_body :: bytes
  hr_remote :: string

definition text_attr :: "string \<Rightarrow> string \<Rightarrow> (string \<times> log_value) list" where
  "text_attr k s = (if s = [] then [] else [(k, LogText s)])"

definition log_attrs :: "http_request \<Rightarrow> ctx \<Rightarrow> int \<Rightarrow> nat \<Rightarrow> spy_writer \<Rightarrow> log_context \<Rightarrow> (string \<times> log_value) list" where
  "log_attrs rq ctx duration read spy l =
    [(''method'', LogText (hr_method rq)), (''path'', LogText (hr_path rq)),
     (''client_ip'', LogText (redactIP (hr_remote rq))), (''duration'', LogDuration duration),
     (''request_body_bytes'', LogInt (int read)), (''response_status'', LogInt (int (status_code spy))),
     (''response_body_bytes'', LogInt (int (bytes_written spy)))]
    @ (if lc_events l \<noteq> [] then [(''events'', LogEvents (lc_events l))] else [])
    @ (case lc_error l of None \<Rightarrow> [] | Some e \<Rightarrow> [(''error'', LogError e)])
    @ text_attr ''traceID'' (ctx_trace_id ctx)
    @ text_attr ''priority'' (lc_priority l) @ text_attr ''task_type'' (lc_task_type l)
    @ text_attr ''status'' (lc_status l)
    @ (case lc_worker_id l of None \<Rightarrow> [] | Some n \<Rightarrow> [(''worker_id'', LogInt n)])
    @ text_attr ''task_id'' (lc_event_id l)"

section \<open>The middleware\<close>

text \<open>
  What is inside: a program that gets the request context and ends with a value, the calls it made
  on the writer and the sizes of the reads of the body. The line is \<open>None\<close> where none is logged.
\<close>

type_synonym ('x, 'a) inner = "ctx \<Rightarrow> ('x world_scheme, 'a \<times> write_call list \<times> nat list) state"

definition RequestLogger :: "env \<Rightarrow> http_request \<Rightarrow> ('x, 'a) inner \<Rightarrow> ctx
    \<Rightarrow> ('x world_scheme, 'a \<times> write_call list \<times> (string \<times> log_value) list option) state" where
  "RequestLogger E rq inner ctx = (let ctx' = ctx(MiddlewareKey ''log_context'' \<mapsto> LogPtr) in do {
    State_Monad.update (\<lambda>w. w\<lparr> req_log := empty_log \<rparr>);
    (if hr_path rq = ''/metrics'' \<or> hr_path rq = ''/health'' then do {
       r \<leftarrow> inner ctx';
       State_Monad.return (case r of (a, cs, ns) \<Rightarrow> (a, cs, None))
     }
     else do {
       start \<leftarrow> time_now E;
       r \<leftarrow> inner ctx';
       stop \<leftarrow> time_now E;
       w \<leftarrow> State_Monad.get;
       State_Monad.return (case r of (a, cs, ns) \<Rightarrow> (a, cs,
         Some (log_attrs rq ctx' (instant stop - instant start) (spy_read ns) (spied cs) (req_log w))))
     })
  })"

text \<open>The trace identifier goes into the context and into a response header.\<close>

definition TraceMiddleware :: "string \<Rightarrow> (ctx \<Rightarrow> ('s, 'a) state) \<Rightarrow> ctx \<Rightarrow> ('s, (string \<times> string) \<times> 'a) state" where
  "TraceMiddleware trace_id inner ctx = do {
    a \<leftarrow> inner (ctx(MiddlewareKey ''trace_id'' \<mapsto> TextValue trace_id));
    State_Monad.return ((''X-Trace-ID'', trace_id), a)
  }"

text \<open>\<open>WithLogContext\<close> is the same context without the request.\<close>

definition WithLogContext :: "ctx \<Rightarrow> ('x world_scheme, ctx) state" where
  "WithLogContext ctx = do {
    State_Monad.update (\<lambda>w. w\<lparr> req_log := empty_log \<rparr>);
    State_Monad.return (ctx(MiddlewareKey ''log_context'' \<mapsto> LogPtr))
  }"

section \<open>Facts about the writer\<close>

lemma spied_bytes: "bytes_written (fold spy_call cs s) = bytes_written s + sum_list (map (\<lambda>c. case c of WriteBytes n \<Rightarrow> n | _ \<Rightarrow> 0) cs)"
  by (induction cs arbitrary: s) (auto simp: spy_call_def spy_write_def spy_header_def split: write_call.split)

definition is_header :: "write_call \<Rightarrow> bool" where
  "is_header c \<longleftrightarrow> (case c of WriteHeader code \<Rightarrow> True | WriteBytes n \<Rightarrow> False)"

lemma spied_writes:
  "\<not> list_ex is_header cs \<Longrightarrow> status_code s \<noteq> 0 \<Longrightarrow> status_code (fold spy_call cs s) = status_code s"
proof (induction cs arbitrary: s)
  case (Cons c cs)
  then show ?case by (cases c) (auto simp: spy_call_def spy_write_def is_header_def)
qed simp

text \<open>After informational headers, a final one and writes.\<close>

lemma spied_header:
  "\<not> list_ex is_header ws \<Longrightarrow> code \<noteq> 0 \<Longrightarrow> status_code (spied (cs @ WriteHeader code # ws)) = code"
  by (simp add: spied_def spied_writes spy_call_def spy_header_def)

lemma sent_header:
  "list_all (\<lambda>c. \<exists>k. c = WriteHeader k \<and> informational k) is \<Longrightarrow> sent_status (is @ cs) = sent_status cs"
  by (induction "is") auto

lemma spy_read_sum: "spy_read ns = sum_list ns"
proof -
  have "fold (\<lambda>n total. total + n) ns k = k + sum_list ns" for k by (induction ns arbitrary: k) auto
  then show ?thesis by (simp add: spy_read_def)
qed

section \<open>Facts about redaction\<close>

lemma dec_head: "dec n = d # ds \<Longrightarrow> d = CHR ''0'' \<Longrightarrow> ds = []"
proof (induction n arbitrary: d ds rule: dec.induct)
  case (1 n)
  show ?case
  proof (cases "n < 10")
    case True
    then show ?thesis using "1.prems" by (subst (asm) dec.simps) simp
  next
    case False
    obtain e es where e: "dec (n div 10) = e # es" using dec_not_Nil by (cases "dec (n div 10)") auto
    then have "dec n = e # es @ [digit_char n]" using False by (subst dec.simps) simp
    then have "e = CHR ''0''" using "1.prems" by simp
    then have "dec (n div 10) = [CHR ''0'']" using "1.IH" [OF False e] e by simp
    then have "n div 10 = 0" using digits_val_dec [of "n div 10"] by (simp add: digits_val_def byte_def)
    then show ?thesis using False by simp
  qed
qed

lemma parse_octet_dec: "n < 256 \<Longrightarrow> parse_octet (dec n) = Some (word_of_nat n)"
proof -
  assume n: "n < 256"
  have "\<not> (hd (dec n) = CHR ''0'' \<and> length (dec n) \<noteq> 1)"
    using dec_head [of n "hd (dec n)" "tl (dec n)"] dec_not_Nil [of n] by (cases "dec n") auto
  then show ?thesis using n by (simp add: parse_octet_def)
qed

lemma dec_digit: "c \<in> set (dec n) \<Longrightarrow> is_digit c"
  using digits_dec [of n] by (auto simp: list_all_iff)

lemma not_digits: "\<not> is_digit (CHR ''.'')" "\<not> is_digit (CHR '':'')" "\<not> is_digit (CHR ''['')" "\<not> is_digit (CHR '']'')"
  "\<not> is_digit (CHR ''%'')"
  by (simp_all add: is_digit_def byte_def)

definition v4_text :: "nat list \<Rightarrow> string" where
  "v4_text ns = join_with ''.'' (map dec ns)"

lemma split_v4_text: "ns \<noteq> [] \<Longrightarrow> split_on (CHR ''.'') (v4_text ns) = map dec ns"
  unfolding v4_text_def by (rule split_on_join_with) (auto dest: dec_digit simp: not_digits)

lemma ParseIP_v4_text:
  assumes "a < 256" "b < 256" "c < 256" "d < 256"
  shows "ParseIP (v4_text [a, b, c, d]) = Some (ip_v4 (map word_of_nat [a, b, c, d]))"
proof -
  have "parse_v4 (v4_text [a, b, c, d]) = Some (map word_of_nat [a, b, c, d])"
    using assms by (simp add: parse_v4_def split_v4_text parse_octet_dec)
  moreover obtain r where r: "v4_text [a, b, c, d] = dec a @ CHR ''.'' # r"
    by (simp add: v4_text_def)
  have "dropWhile (\<lambda>c. c \<notin> {CHR ''.'', CHR '':'', CHR ''%''}) (dec a @ CHR ''.'' # r) = CHR ''.'' # r"
    by (subst dropWhile_append2) (auto dest: dec_digit simp: not_digits)
  ultimately show ?thesis by (simp add: ParseIP_def r)
qed

lemma split_host_port_plain:
  assumes "CHR '':'' \<notin> set h" "CHR ''['' \<notin> set h" "CHR '']'' \<notin> set h" "h \<noteq> []"
    "CHR '':'' \<notin> set p" "CHR ''['' \<notin> set p" "CHR '']'' \<notin> set p"
  shows "split_host_port (h @ CHR '':'' # p) = Inr (h, p)"
proof -
  have "takeWhile (\<lambda>x. x \<noteq> CHR '':'') (rev p @ CHR '':'' # rev h) = rev p"
    using assms(5) by (subst takeWhile_append2) auto
  then have "last_index (CHR '':'') (h @ CHR '':'' # p) = Some (length h)"
    by (simp add: last_index_def index_of_def)
  moreover have "hd h \<noteq> CHR ''[''" using assms(2,4) hd_in_set by metis
  ultimately show ?thesis using assms by (simp add: split_host_port_def)
qed

lemma v4_text_chars: "c \<in> set (v4_text [x, y, z, u]) \<Longrightarrow> is_digit c \<or> c = CHR ''.''"
  by (auto simp: v4_text_def dest: dec_digit)

lemma redact_v4:
  assumes "a < 256" "b < 256" "c < 256" "d < 256" "list_all is_digit port"
  shows "redactIP (v4_text [a, b, c, d] @ CHR '':'' # port) = dec a @ ''.'' @ dec b @ ''.'' @ dec c @ ''.x''"
proof -
  have "split_host_port (v4_text [a, b, c, d] @ CHR '':'' # port) = Inr (v4_text [a, b, c, d], port)"
    using assms(5) v4_text_chars [of _ a b c d] not_digits
    by (intro split_host_port_plain) (auto simp: list_all_iff v4_text_def)
  moreover have "To4 (ip_v4 (map word_of_nat [a, b, c, d])) \<noteq> None" by (simp add: To4_def ip_v4_def v4_prefix_def)
  ultimately show ?thesis
    using ParseIP_v4_text [OF assms(1-4)] by (simp add: redactIP_def split_v4_text)
qed

end
