(* ===== verification/Admin_Handler.thy ===== *)
theory Admin_Handler
  imports Task_Handler
begin

text \<open>
  \<open>internal/handler/admin_handler.go\<close>: the dashboard, the listings, retries, the dead letter queue
  and requeueing. A handler is run on the path parameter or the query of its request; the query
  is the function \<open>q.Get\<close>.
\<close>

section \<open>Responses\<close>

record task_response =
  re_id :: string
  re_type :: string
  re_status :: string
  re_priority :: string
  re_parent_id :: string
  re_trace_id :: string
  re_created_at :: string
  re_scheduled_at :: string
  re_result_url :: string

definition stamp_text :: "int option \<Rightarrow> string" where
  "stamp_text t = (case t of None \<Rightarrow> [] | Some us \<Rightarrow> layout_z (db_time us))"

definition toTaskResponse :: "event \<Rightarrow> task_response" where
  "toTaskResponse e = \<lparr>
    re_id = ev_id e, re_type = ev_type e, re_status = text_or_empty (ev_status e),
    re_priority = text_or_empty (ev_priority e), re_parent_id = text_or_empty (ev_parentid e),
    re_trace_id = ev_trace_id e, re_created_at = stamp_text (ev_created_at e),
    re_scheduled_at = stamp_text (ev_scheduled_at e), re_result_url = [] \<rparr>"

definition task_response_json :: "task_response \<Rightarrow> json" where
  "task_response_json r = JObj (
    text_field ''id'' (re_id r) @ text_field ''type'' (re_type r) @ text_field ''status'' (re_status r)
    @ text_field_opt ''priority'' (re_priority r) @ text_field_opt ''parent_id'' (re_parent_id r)
    @ text_field ''trace_id'' (re_trace_id r) @ text_field ''created_at'' (re_created_at r)
    @ text_field_opt ''scheduled_at'' (re_scheduled_at r) @ text_field_opt ''result_url'' (re_result_url r))"

definition task_json :: "event \<Rightarrow> json" where
  "task_json e = task_response_json (toTaskResponse e)"

record retry_log_response =
  rl_attempt :: "32 word"
  rl_status :: string
  rl_error_message :: string
  rl_created_at :: string

definition retry_entry :: "event_delivery_log \<Rightarrow> retry_log_response" where
  "retry_entry l = \<lparr> rl_attempt = dl_attempt l, rl_status = dl_status l,
    rl_error_message = text_or_empty (dl_error_message l), rl_created_at = stamp_text (dl_created_at l) \<rparr>"

definition retry_json :: "retry_log_response \<Rightarrow> json" where
  "retry_json r = JObj ([member ''attempt'' (jint (sint (rl_attempt r)))] @ text_field ''status'' (rl_status r)
    @ text_field_opt ''error_message'' (rl_error_message r) @ text_field ''created_at'' (rl_created_at r))"

section \<open>Dashboard\<close>

text \<open>A Go map filled in a loop: of equal keys the last counts.\<close>

definition by_status :: "(string \<times> nat) list \<Rightarrow> (string \<times> json) list" where
  "by_status counts = dedup_keys (map (\<lambda>(s, n). (s, jnat n)) counts)"

definition total_count :: "(string \<times> nat) list \<Rightarrow> nat" where
  "total_count counts = sum_list (map snd counts)"

definition depths_json :: "(string \<times> int) list \<Rightarrow> json" where
  "depths_json ds = jmap (map (\<lambda>(q, n). (q, jint n)) ds)"

definition HealthStats :: "env \<Rightarrow> ('x ticking_scheme, json) state" where
  "HealthStats E = do { t \<leftarrow> next_tick; State_Monad.return (health_stats E t) }"

definition HandleDashboardStats :: "env \<Rightarrow> ctx \<Rightarrow> ('x world_scheme, http_response) state" where
  "HandleDashboardStats E ctx = do {
    r \<leftarrow> GetStatusCounts E;
    (case r of
       Inl err \<Rightarrow> RespondWithError ctx 500 err
     | Inr counts \<Rightarrow> do {
         r \<leftarrow> GetRecentProcessedCount E;
         (case r of
            Inl err \<Rightarrow> RespondWithError ctx 500 err
          | Inr recent \<Rightarrow> do {
              r \<leftarrow> GetQueueDepths E;
              (case r of
                 Inl err \<Rightarrow> RespondWithError ctx 500 err
               | Inr depths \<Rightarrow> do {
                   health \<leftarrow> HealthStats E;
                   RespondWithJSON 200 (Some (jmap [(''total_tasks'', jnat (total_count counts)),
                     (''by_status'', jmap (by_status counts)), (''processed_last_24h'', jnat recent),
                     (''queue_depths'', depths_json depths), (''worker_health'', health)]))
                 })
            })
       })
  }"

section \<open>Listings\<close>

text \<open>
  \<open>math.Ceil(float64(total) / float64(pageSize))\<close> on floats of 53 bits: a quotient \<open>n / d\<close> is
  rounded to the nearest number \<open>m / 2 ^ k\<close> with \<open>m < 2 ^ 53\<close>, ties to even. Page sizes are exact,
  and so are totals below \<open>2 ^ 53\<close>.
\<close>

definition round_even :: "nat \<Rightarrow> nat \<Rightarrow> nat" where
  "round_even n d = (let q = n div d; r = n mod d in
    if 2 * r < d then q else if d < 2 * r then Suc q else if even q then q else Suc q)"

fun float_scale :: "nat \<Rightarrow> nat \<Rightarrow> nat \<Rightarrow> nat" where
  "float_scale 0 n d = 0"
| "float_scale (Suc k) n d = (if n * 2 ^ Suc k div d < 2 ^ 53 then Suc k else float_scale k n d)"

definition float_div_ceil :: "nat \<Rightarrow> nat \<Rightarrow> nat" where
  "float_div_ceil n d = (let k = float_scale 60 n d; m = round_even (n * 2 ^ k) d in (m + 2 ^ k - 1) div 2 ^ k)"

definition HandleListTasks :: "env \<Rightarrow> ctx \<Rightarrow> (string \<Rightarrow> string) \<Rightarrow> ('x world_scheme, http_response) state" where
  "HandleListTasks E ctx q =
    (let page0 = fst (parse_int (q ''page''));
         size0 = fst (parse_int (q ''page_size''));
         page = (if page0 < 1 then 1 else page0);
         page_size = (if size0 < 1 \<or> size0 > 100 then 20 else size0)
     in do {
      r \<leftarrow> AdminListEvents E \<lparr> lp_status = q ''status'', lp_type = q ''type'', lp_priority = q ''priority'',
        lp_search = q ''search'', lp_page = page, lp_page_size = page_size \<rparr>;
      (case r of
         Inl err \<Rightarrow> RespondWithError ctx 500 err
       | Inr (evs, n) \<Rightarrow> RespondWithJSON 200 (Some (jmap [(''tasks'', JArr (map task_json evs)),
           (''total'', jnat n), (''page'', jint page), (''page_size'', jint page_size),
           (''total_pages'', jnat (float_div_ceil n (nat page_size)))])))
    })"

definition id_required :: goerr where
  "id_required = ErrorString ''Id required''"

definition HandleGetTask :: "env \<Rightarrow> ctx \<Rightarrow> string \<Rightarrow> ('x world_scheme, http_response) state" where
  "HandleGetTask E ctx i =
    (if i = [] then RespondWithError ctx 400 id_required
     else do {
       r \<leftarrow> GetEventByID E i;
       (case r of
          Inl err \<Rightarrow> RespondWithError ctx 404 err
        | Inr e \<Rightarrow> RespondWithJSON 200 (Some (task_json e)))
     })"

definition HandleGetTaskChildren :: "env \<Rightarrow> ctx \<Rightarrow> string \<Rightarrow> ('x world_scheme, http_response) state" where
  "HandleGetTaskChildren E ctx i =
    (if i = [] then RespondWithError ctx 400 (ErrorString ''id required'')
     else do {
       r \<leftarrow> GetChildTasks E i;
       (case r of
          Inl err \<Rightarrow> RespondWithError ctx 500 err
        | Inr children \<Rightarrow> RespondWithJSON 200 (Some (jmap
            [(''parent_id'', jstring i), (''children'', JArr (map task_json children))])))
     })"

definition HandleGetTaskRetries :: "env \<Rightarrow> ctx \<Rightarrow> string \<Rightarrow> ('x world_scheme, http_response) state" where
  "HandleGetTaskRetries E ctx i =
    (if i = [] then RespondWithError ctx 400 id_required
     else do {
       r \<leftarrow> GetRetryHistory E i;
       (case r of
          Inl err \<Rightarrow> RespondWithError ctx 500 err
        | Inr logs \<Rightarrow> RespondWithJSON 200 (Some (jmap
            [(''task_id'', jstring i), (''retries'', JArr (map (\<lambda>l. retry_json (retry_entry l)) logs))])))
     })"

section \<open>Retrying\<close>

definition queued_json :: "string \<Rightarrow> string \<Rightarrow> json" where
  "queued_json i priority = jmap [(''status'', jstring ''queued''), (''event_id'', jstring i),
    (''priority'', jstring priority)]"

definition enqueue_answer :: "env \<Rightarrow> ctx \<Rightarrow> string \<Rightarrow> string \<Rightarrow> ('x world_scheme, http_response) state" where
  "enqueue_answer E ctx i priority = do {
    r \<leftarrow> EnqueueWithPriority E i priority;
    (case r of
       Inl err \<Rightarrow> RespondWithError ctx 500 err
     | Inr _ \<Rightarrow> RespondWithJSON 200 (Some (queued_json i priority)))
  }"

definition reset_and_enqueue :: "env \<Rightarrow> ctx \<Rightarrow> string \<Rightarrow> ('x world_scheme, http_response) state" where
  "reset_and_enqueue E ctx i = do {
    r \<leftarrow> AdminResetTaskForRetry E i;
    (case r of
       Inl err \<Rightarrow> if err_is err ErrNotRetryable then RespondWithError ctx 409 err else RespondWithError ctx 500 err
     | Inr priority \<Rightarrow> enqueue_answer E ctx i priority)
  }"

definition HandleRetryTask :: "env \<Rightarrow> ctx \<Rightarrow> string \<Rightarrow> ('x world_scheme, http_response) state" where
  "HandleRetryTask E ctx i =
    (if i = [] then RespondWithError ctx 400 id_required else reset_and_enqueue E ctx i)"

section \<open>The dead letter queue\<close>

fun found_tasks :: "env \<Rightarrow> string list \<Rightarrow> ('x world_scheme, event list) state" where
  "found_tasks E [] = State_Monad.return []"
| "found_tasks E (i # is) = do {
    r \<leftarrow> GetEventByID E i;
    es \<leftarrow> found_tasks E is;
    State_Monad.return (case r of Inl _ \<Rightarrow> es | Inr e \<Rightarrow> e # es)
  }"

definition HandleListDLQ :: "env \<Rightarrow> ctx \<Rightarrow> ('x world_scheme, http_response) state" where
  "HandleListDLQ E ctx = do {
    r \<leftarrow> GetDLQItems E;
    (case r of
       Inl err \<Rightarrow> RespondWithError ctx 500 err
     | Inr ids \<Rightarrow> do {
         es \<leftarrow> found_tasks E ids;
         RespondWithJSON 200 (Some (jmap [(''total'', jnat (length ids)), (''tasks'', JArr (map task_json es))]))
       })
  }"

definition HandleRetryDLQTask :: "env \<Rightarrow> ctx \<Rightarrow> string \<Rightarrow> ('x world_scheme, http_response) state" where
  "HandleRetryDLQTask E ctx i =
    (if i = [] then RespondWithError ctx 400 id_required
     else do {
       r \<leftarrow> RemoveFromDLQ E i;
       (case r of
          Inl err \<Rightarrow> RespondWithError ctx 404 err
        | Inr _ \<Rightarrow> reset_and_enqueue E ctx i)
     })"

definition HandleRemoveDLQTask :: "env \<Rightarrow> ctx \<Rightarrow> string \<Rightarrow> ('x world_scheme, http_response) state" where
  "HandleRemoveDLQTask E ctx i =
    (if i = [] then RespondWithError ctx 400 id_required
     else do {
       r \<leftarrow> RemoveFromDLQ E i;
       (case r of
          Inl err \<Rightarrow> RespondWithError ctx 404 err
        | Inr _ \<Rightarrow> RespondWithJSON 200 (Some (jmap [(''status'', jstring ''removed''), (''event_id'', jstring i)])))
     })"

section \<open>Requeueing\<close>

text \<open>The two fields read from the stored payload; an error of decoding is ignored.\<close>

record requeue_params =
  rq_priority :: string
  rq_execute_at :: "gotime option"

definition empty_requeue :: requeue_params where
  "empty_requeue = \<lparr> rq_priority = [], rq_execute_at = None \<rparr>"

definition requeue_names :: "string list" where
  "requeue_names = [''priority'', ''execute_at'']"

definition store_requeue :: "requeue_params store" where
  "store_requeue v n t j =
    (if n = ''priority'' then map_prod (\<lambda>x. v\<lparr> rq_priority := x \<rparr>) (\<lambda>e. e) (decode_string (rq_priority v) j)
     else map_prod (\<lambda>x. v\<lparr> rq_execute_at := x \<rparr>) (\<lambda>e. e) (decode_time (rq_execute_at v) j))"

definition decode_requeue :: "requeue_params \<Rightarrow> json \<Rightarrow> requeue_params \<times> decode_error" where
  "decode_requeue = decode_struct requeue_names store_requeue"

definition requeue_priority :: "requeue_params \<Rightarrow> event \<Rightarrow> string" where
  "requeue_priority req e =
    (if rq_priority req \<noteq> [] then rq_priority req
     else (case ev_priority e of Some p \<Rightarrow> p | None \<Rightarrow> ''medium''))"

definition scheduled_json :: "string \<Rightarrow> string \<Rightarrow> gotime \<Rightarrow> json option" where
  "scheduled_json i priority at = map_option (\<lambda>s. jmap [(''status'', jstring ''scheduled''),
    (''event_id'', jstring i), (''priority'', jstring priority), (''execute_at'', JStr s)]) (time_json at)"

definition still_due :: "env \<Rightarrow> gotime option \<Rightarrow> ('x ticking_scheme, gotime option) state" where
  "still_due E t = (case t of
      None \<Rightarrow> State_Monad.return None
    | Some at \<Rightarrow> do { now \<leftarrow> time_now E; State_Monad.return (if time_after at now then Some at else None) })"

definition HandleRequeueTask :: "env \<Rightarrow> ctx \<Rightarrow> string \<Rightarrow> ('x world_scheme, http_response) state" where
  "HandleRequeueTask E ctx i =
    (if i = [] then RespondWithError ctx 400 id_required
     else do {
       r \<leftarrow> GetEventByID E i;
       (case r of
          Inl err \<Rightarrow> RespondWithError ctx 404 err
        | Inr e \<Rightarrow>
            (if ev_status e \<noteq> Some ''pending'' then
               RespondWithError ctx 409 (ErrorString ''only pending tasks can be requeued'')
             else
               (let req = fst (unmarshal decode_requeue empty_requeue (ev_payload e));
                    priority = requeue_priority req e
                in do {
                  due \<leftarrow> still_due E (rq_execute_at req);
                  (case due of
                     Some at \<Rightarrow> do {
                       r \<leftarrow> Schedule E i priority at;
                       (case r of
                          Inl err \<Rightarrow> RespondWithError ctx 500 err
                        | Inr _ \<Rightarrow> RespondWithJSON 200 (scheduled_json i priority at))
                     }
                   | None \<Rightarrow> enqueue_answer E ctx i priority)
                })))
     })"

section \<open>Queue and workers\<close>

definition HandleQueueDepth :: "env \<Rightarrow> ctx \<Rightarrow> ('x world_scheme, http_response) state" where
  "HandleQueueDepth E ctx = do {
    r \<leftarrow> GetQueueDepths E;
    (case r of
       Inl err \<Rightarrow> RespondWithError ctx 500 err
     | Inr depths \<Rightarrow> RespondWithJSON 200 (Some (depths_json depths)))
  }"

definition HandleWorkerHealth :: "env \<Rightarrow> ('x world_scheme, http_response) state" where
  "HandleWorkerHealth E = do {
    health \<leftarrow> HealthStats E;
    RespondWithJSON 200 (Some health)
  }"

section \<open>Facts about retrying\<close>

lemma enqueue_answer_200:
  assumes "rs_status (value_of (enqueue_answer E ctx i p) w) = 200"
  shows "queue_fault E (tick w) = None"
    "final (enqueue_answer E ctx i p) w = log_call (EnqueueCall i p None) (next_state w)"
  using assms by (cases "queue_fault E (tick w)"; simp add: enqueue_answer_def)+

lemma enqueue_answer_up:
  assumes "queue_up E"
  shows "value_of (enqueue_answer E ctx i p) w = \<lparr> rs_status = 200, rs_content_type = ''application/json'',
      rs_body = jprint (queued_json i p) \<rparr>"
    "final (enqueue_answer E ctx i p) w = log_call (EnqueueCall i p None) (next_state w)"
  using assms by (simp_all add: queue_up_def enqueue_answer_def)

lemma enqueue_answer_down:
  assumes "queue_down E"
  shows "rs_status (value_of (enqueue_answer E ctx i p) w) = 500"
    "tables (final (enqueue_answer E ctx i p) w)
      = tables (log_call (EnqueueCall i p (queue_fault E (tick w))) w)"
proof -
  obtain e where "queue_fault E (tick w) = Some e" using assms by (auto simp: queue_down_def)
  then show "rs_status (value_of (enqueue_answer E ctx i p) w) = 500"
    "tables (final (enqueue_answer E ctx i p) w)
      = tables (log_call (EnqueueCall i p (queue_fault E (tick w))) w)"
    by (simp_all add: enqueue_answer_def tables_def)
qed

lemma reset_and_enqueue_200:
  assumes "db_ok w" "rs_status (value_of (reset_and_enqueue E ctx i) w) = 200"
  shows "answers E w \<and> retryable w i
    \<and> final (reset_and_enqueue E ctx i) w
      = log_call (EnqueueCall i (retry_priority w i) None) (next_state (final (AdminResetTaskForRetry E i) w))"
proof -
  obtain p where p: "value_of (AdminResetTaskForRetry E i) w = Inr p"
    using assms(2) by (cases "value_of (AdminResetTaskForRetry E i) w") (auto simp: reset_and_enqueue_def split: if_splits)
  then have a: "answers E w" by (rule reset_Inr)
  from p reset_value [OF assms(1) a, of i] have "retryable w i" "p = retry_priority w i"
    by (auto split: if_splits)
  then show ?thesis
    using a p assms(2) enqueue_answer_200(2) [of E ctx i p "final (AdminResetTaskForRetry E i) w"]
    by (simp add: reset_and_enqueue_def)
qed

lemma reset_and_enqueue_refused:
  assumes "db_ok w" "answers E w" "\<not> retryable w i"
  shows "rs_status (value_of (reset_and_enqueue E ctx i) w) = 409"
    "queue_log (final (reset_and_enqueue E ctx i) w) = queue_log w"
  using reset_value [OF assms(1,2), of i] assms(3)
    framesD [OF save_frames(5) [of queue_log], of E i w]
  by (simp_all add: reset_and_enqueue_def)

lemma ok_health [wf_intros]: "keeps db_ok (HealthStats E)"
  unfolding HealthStats_def by (intro wf_intros)

lemma ok_still_due [wf_intros]: "keeps db_ok (still_due E t)"
  unfolding still_due_def by (intro wf_intros)

lemma ok_found_tasks [wf_intros]: "keeps db_ok (found_tasks E is)"
  by (induction "is") (auto intro!: wf_intros)

lemma ok_enqueue_answer [wf_intros]: "keeps db_ok (enqueue_answer E ctx i p)"
  unfolding enqueue_answer_def by (intro wf_intros)

lemma ok_reset_and_enqueue [wf_intros]: "keeps db_ok (reset_and_enqueue E ctx i)"
  unfolding reset_and_enqueue_def by (intro wf_intros)

lemma ok_admin [wf_intros]:
  "keeps db_ok (HandleDashboardStats E ctx)" "keeps db_ok (HandleListTasks E ctx q)"
  "keeps db_ok (HandleGetTask E ctx i)" "keeps db_ok (HandleGetTaskChildren E ctx i)"
  "keeps db_ok (HandleGetTaskRetries E ctx i)" "keeps db_ok (HandleRetryTask E ctx i)"
  "keeps db_ok (HandleListDLQ E ctx)" "keeps db_ok (HandleRetryDLQTask E ctx i)"
  "keeps db_ok (HandleRemoveDLQTask E ctx i)" "keeps db_ok (HandleRequeueTask E ctx i)"
  "keeps db_ok (HandleQueueDepth E ctx)" "keeps db_ok (HandleWorkerHealth E)"
  unfolding HandleDashboardStats_def HandleListTasks_def HandleGetTask_def HandleGetTaskChildren_def
    HandleGetTaskRetries_def HandleRetryTask_def HandleListDLQ_def HandleRetryDLQTask_def
    HandleRemoveDLQTask_def HandleRequeueTask_def HandleQueueDepth_def HandleWorkerHealth_def Let_def
  by (intro wf_intros)+

section \<open>Pages\<close>

lemma round_even_error:
  assumes "0 < d"
  shows "2 * (round_even n d * d) \<le> 2 * n + d" "2 * n \<le> 2 * (round_even n d * d) + d"
proof -
  have "n = n div d * d + n mod d" "n mod d < d" using assms by simp_all
  then obtain q r where qr: "q = n div d" "r = n mod d" "n = q * d + r" "r < d" by blast
  have "round_even n d = q \<and> 2 * r \<le> d \<or> round_even n d = Suc q \<and> d \<le> 2 * r"
    by (auto simp: round_even_def qr(1,2) Let_def)
  then show "2 * (round_even n d * d) \<le> 2 * n + d" "2 * n \<le> 2 * (round_even n d * d) + d"
    using qr(3,4) by (auto simp: algebra_simps)
qed

lemma float_scale_large: "float_scale k n d < k \<Longrightarrow> 2 ^ 53 \<le> n * 2 ^ Suc (float_scale k n d) div d"
proof (induction k)
  case (Suc k)
  show ?case
  proof (cases "n * 2 ^ Suc k div d < 2 ^ 53")
    case True
    with Suc.prems show ?thesis by simp
  next
    case False
    then have e: "float_scale (Suc k) n d = float_scale k n d" by simp
    have "float_scale k n d \<le> k" by (induction k) auto
    then consider "float_scale k n d < k" | "float_scale k n d = k" by linarith
    then show ?thesis using Suc.IH False by cases (simp_all only: e)
  qed
qed simp

lemma ceil_div_eqI: "0 < (d::nat) \<Longrightarrow> n \<le> c * d \<Longrightarrow> c * d < n + d \<Longrightarrow> (n + d - 1) div d = c"
  by (intro div_nat_eqI) (auto simp: algebra_simps)

text \<open>Below \<open>2 ^ 46\<close> tasks the float quotient rounds up to the exact number of pages.\<close>

lemma float_div_ceil_exact:
  assumes "n < 2 ^ 46" "0 < d" "d \<le> 100"
  shows "float_div_ceil n d = (n + d - 1) div d"
proof -
  define k where "k = float_scale 60 n d"
  define m where "m = round_even (n * 2 ^ k) d"
  define c where "c = (n + d - 1) div d"
  have "c * d \<le> n + d - 1 \<and> n + d - 1 < c * d + d"
    using div_mult_mod_eq [of "n + d - 1" d] mod_less_divisor [OF assms(2), of "n + d - 1"]
    unfolding c_def by linarith
  then have c: "n \<le> c * d" "c * d + 1 \<le> n + d" using assms(2) by linarith+
  have "6 \<le> k"
  proof (rule ccontr)
    assume "\<not> 6 \<le> k"
    then have "k < 60" "k \<le> 5" by simp_all
    then have "2 ^ 53 \<le> n * 2 ^ Suc k div d" using float_scale_large [of 60 n d] by (simp add: k_def)
    also have "\<dots> \<le> n * 2 ^ Suc k" by (rule div_le_dividend)
    also have "\<dots> \<le> n * 2 ^ 6" using \<open>k \<le> 5\<close> by (intro mult_le_mono power_increasing) simp_all
    finally show False using assms(1) by simp
  qed
  then have "(2::nat) ^ 6 \<le> 2 ^ k" by (intro power_increasing) simp_all
  then have k: "d < 2 * 2 ^ k" using assms(3) by simp
  obtain K where K: "K = (2::nat) ^ k" by blast
  note err = round_even_error [OF assms(2), of "n * 2 ^ k", folded m_def, folded K]
  have "m \<le> c * K"
  proof (rule ccontr)
    assume "\<not> m \<le> c * K"
    then have "(c * K + 1) * d \<le> m * d" by (intro mult_le_mono) simp_all
    then have "c * K * d + d \<le> m * d" by (simp add: algebra_simps)
    moreover have "n * K \<le> c * K * d" using mult_le_mono1 [OF c(1), of K] by (simp only: ac_simps)
    ultimately show False using err(1) assms(2) by linarith
  qed
  moreover have "c * K < m + K"
  proof (rule ccontr)
    assume "\<not> c * K < m + K"
    then have "(m + K) * d \<le> c * K * d" by (intro mult_le_mono) simp_all
    then have "m * d + K * d \<le> c * K * d" by (simp add: algebra_simps)
    moreover have "c * K * d + K \<le> n * K + K * d" using mult_le_mono1 [OF c(2), of K] by (simp add: algebra_simps)
    ultimately show False using err(2) k unfolding K [symmetric] by linarith
  qed
  ultimately have "(m + K - 1) div K = c" by (intro ceil_div_eqI) (simp_all add: K)
  then show ?thesis by (simp add: float_div_ceil_def k_def [symmetric] m_def [symmetric] Let_def K c_def)
qed

text \<open>The offset of a page is the product as long as it fits into 31 bits.\<close>

lemma page_offset_value:
  assumes "1 \<le> page" "0 \<le> n" "(page - 1) * n < 2 ^ 32"
  shows "uint (page_offset page n) = (page - 1) * n"
proof -
  obtain x where x: "x = (page - 1) * n" by blast
  have "0 \<le> x" "x < 2 ^ 32" using assms by (simp_all add: x)
  moreover have "page_offset page n = ucast (word_of_int x :: 64 word)"
    by (simp only: page_offset_def of_int_mult x)
  ultimately show ?thesis
    by (simp add: unsigned_ucast_eq uint_word_of_int_eq take_bit_int_eq_self x [symmetric])
qed

lemma sint32: "sint (v :: 32 word) = (if uint v < 2 ^ 31 then uint v else uint v - 2 ^ 32)"
proof -
  obtain x where x: "x = uint v" by blast
  have b: "0 \<le> x" "x < 4294967296" using unsigned_less [of v] by (simp_all add: x)
  have "(x + 2147483648) mod 4294967296 = (if x < 2147483648 then x + 2147483648 else x - 2147483648)"
  proof (cases "x < 2147483648")
    case False
    with b have "(x - 2147483648 + 4294967296) mod 4294967296 = x - 2147483648" by (simp only: mod_add_self2) simp
    with False show ?thesis by (simp add: algebra_simps)
  qed (use b in simp)
  then show ?thesis
    by (simp add: sint_uint signed_take_bit_eq_take_bit_shift take_bit_eq_mod x [symmetric])
qed

lemma page_offset_sint:
  assumes "1 \<le> page" "0 \<le> n" "(page - 1) * n < 2 ^ 32"
  shows "sint (page_offset page n) = (if (page - 1) * n < 2 ^ 31 then (page - 1) * n else (page - 1) * n - 2 ^ 32)"
  by (simp only: sint32 page_offset_value [OF assms])

end
