(* ===== verification/Chaining.thy ===== *)
theory Chaining
  imports Task_Handler
begin

text \<open>
  \<open>internal/chaining/chaining.go\<close>: running a handler and, when it succeeds, creating and enqueueing
  the declared next step. A handler is a program that ends in an error or, \<open>None\<close>, in none.
\<close>

type_synonym 'x handler = "worker_task \<Rightarrow> ('x world_scheme, goerr option) state"

definition meta :: "worker_task \<Rightarrow> string \<Rightarrow> string" where
  "meta task k = text_or_empty (wt_metadata task k)"

definition error_of :: "unit result \<Rightarrow> goerr option" where
  "error_of r = (case r of Inl e \<Rightarrow> Some e | Inr _ \<Rightarrow> None)"

definition chain_root :: "worker_task \<Rightarrow> string" where
  "chain_root task = (if meta task ''root_task_id'' = [] then wt_id task else meta task ''root_task_id'')"

text \<open>From the fresh identifier to the end.\<close>

definition create_next :: "env \<Rightarrow> worker_task \<Rightarrow> task_request \<Rightarrow> ('x world_scheme, goerr option) state" where
  "create_next E task nxt = do {
    t \<leftarrow> next_tick;
    (case marshal_request nxt of
       None \<Rightarrow> State_Monad.return (Some (WrapError ''chaining: marshal next: ''
         (ErrorString ''json: error calling MarshalJSON'')))
     | Some text_of_next \<Rightarrow> do {
         r \<leftarrow> SaveProcessedEvent E (new_uuid E t) (tr_type nxt) text_of_next ''pending'' (meta task ''trace_id'')
           (tr_priority nxt) (chain_root task) (tr_execute_at nxt);
         (case r of
            Inl err \<Rightarrow> State_Monad.return (Some (WrapError ''chaining: save next task: '' err))
          | Inr _ \<Rightarrow> do {
              r \<leftarrow> enqueue_or_schedule E (new_uuid E t) (tr_priority nxt) (tr_execute_at nxt);
              State_Monad.return (error_of r)
            })
       })
  }"

definition Wrap :: "env \<Rightarrow> 'x handler \<Rightarrow> 'x handler" where
  "Wrap E h task = do {
    err \<leftarrow> h task;
    (case err of
       Some e \<Rightarrow> State_Monad.return (Some e)
     | None \<Rightarrow>
         (if meta task ''next'' = [] then State_Monad.return None
          else (case unmarshal decode_request empty_request (meta task ''next'') of (nxt, ok) \<Rightarrow>
            if \<not> ok then State_Monad.return (Some (WrapError ''chaining: parse next: '' (json_error E (meta task ''next''))))
            else if tr_type nxt = [] then State_Monad.return None
            else create_next E task nxt)))
  }"

section \<open>What a step leaves behind\<close>

text \<open>The next step a task declares, when it has one.\<close>

definition declared_next :: "worker_task \<Rightarrow> task_request option" where
  "declared_next task = (if meta task ''next'' = [] then None
    else (case unmarshal decode_request empty_request (meta task ''next'') of (nxt, ok) \<Rightarrow>
      if ok \<and> tr_type nxt \<noteq> [] then Some nxt else None))"

definition child_row :: "env \<Rightarrow> nat \<Rightarrow> string \<Rightarrow> worker_task \<Rightarrow> task_request \<Rightarrow> string \<Rightarrow> event" where
  "child_row E t i task nxt full = saved_event E t i (tr_type nxt) full (meta task ''trace_id'')
    (tr_priority nxt) (chain_root task) (tr_execute_at nxt)"

text \<open>The child is stored; whether the queue took it decides the answer.\<close>

lemma create_next_saved:
  fixes w :: "'x world_scheme"
  assumes "marshal_request nxt = Some full" "db_up E" "lookup w (new_uuid E (tick w)) = None"
  obtains w1 where
    "events w1 = events w @ [child_row E (Suc (tick w)) (new_uuid E (tick w)) task nxt full]"
    "queue_log w1 = queue_log w" "tick w1 = Suc (Suc (Suc (Suc (tick w))))"
    "value_of (create_next E task nxt) w
      = error_of (value_of (enqueue_or_schedule E (new_uuid E (tick w)) (tr_priority nxt) (tr_execute_at nxt)) w1)"
    "final (create_next E task nxt) w
      = final (enqueue_or_schedule E (new_uuid E (tick w)) (tr_priority nxt) (tr_execute_at nxt)) w1"
proof -
  define i where "i = new_uuid E (tick w)"
  define save :: "('x world_scheme, unit result) state" where
    "save = SaveProcessedEvent E i (tr_type nxt) full ''pending'' (meta task ''trace_id'')
      (tr_priority nxt) (chain_root task) (tr_execute_at nxt)"
  have ok: "value_of save (next_state w) = Inr ()"
    unfolding save_def using assms(2,3) by (intro save_value) (simp_all add: i_def)
  note fin = save_Inr [OF ok [unfolded save_def], folded save_def]
  show thesis
  proof (rule that [of "final save (next_state w)"])
    show "value_of (create_next E task nxt) w = error_of (value_of
        (enqueue_or_schedule E (new_uuid E (tick w)) (tr_priority nxt) (tr_execute_at nxt)) (final save (next_state w)))"
      "final (create_next E task nxt) w
        = final (enqueue_or_schedule E (new_uuid E (tick w)) (tr_priority nxt) (tr_execute_at nxt)) (final save (next_state w))"
      using assms(1) ok by (simp_all add: create_next_def save_def i_def)
  qed (use fin in \<open>simp_all add: child_row_def i_def\<close>)
qed

lemma create_next_None:
  fixes w :: "'x world_scheme"
  assumes "value_of (create_next E task nxt) w = None"
  obtains full where "marshal_request nxt = Some full" "lookup w (new_uuid E (tick w)) = None"
    "events (final (create_next E task nxt) w)
      = events w @ [child_row E (Suc (tick w)) (new_uuid E (tick w)) task nxt full]"
    "queue_log (final (create_next E task nxt) w) = queue_log w @ [submitted (new_uuid E (tick w)) nxt]"
proof -
  define i where "i = new_uuid E (tick w)"
  obtain full where full: "marshal_request nxt = Some full"
    using assms by (cases "marshal_request nxt") (auto simp: create_next_def)
  define save :: "('x world_scheme, unit result) state" where
    "save = SaveProcessedEvent E i (tr_type nxt) full ''pending'' (meta task ''trace_id'')
      (tr_priority nxt) (chain_root task) (tr_execute_at nxt)"
  have ok: "value_of save (next_state w) = Inr ()"
    using assms full by (cases "value_of save (next_state w)") (auto simp: create_next_def save_def i_def)
  note fin = save_Inr [OF ok [unfolded save_def], folded save_def]
  define w1 where "w1 = final save (next_state w)"
  define sub :: "('x world_scheme, unit result) state" where
    "sub = enqueue_or_schedule E i (tr_priority nxt) (tr_execute_at nxt)"
  have run: "value_of (create_next E task nxt) w = error_of (value_of sub w1)"
    "final (create_next E task nxt) w = final sub w1"
    using full ok by (simp_all add: create_next_def save_def i_def sub_def w1_def)
  obtain u where "value_of sub w1 = Inr u"
    using assms run(1) by (cases "value_of sub w1") (auto simp: error_of_def)
  then have "final sub w1 = log_call (submitted i nxt) (next_state w1)"
    unfolding sub_def by (intro submit_ok) auto
  then show thesis
    using full fin run(2) by (intro that [of full]) (simp_all add: w1_def i_def child_row_def)
qed

lemma Wrap_error:
  "value_of (h task) w = Some e \<Longrightarrow> value_of (Wrap E h task) w = Some e \<and> final (Wrap E h task) w = final (h task) w"
  by (simp add: Wrap_def)

lemma Wrap_next:
  assumes "value_of (h task) w = None" "declared_next task = Some nxt"
  shows "value_of (Wrap E h task) w = value_of (create_next E task nxt) (final (h task) w)"
    "final (Wrap E h task) w = final (create_next E task nxt) (final (h task) w)"
  using assms by (auto simp: Wrap_def declared_next_def split: if_splits prod.splits)

lemma Wrap_last:
  assumes "value_of (h task) w = None" "declared_next task = None" "value_of (Wrap E h task) w = None"
  shows "final (Wrap E h task) w = final (h task) w"
  using assms by (auto simp: Wrap_def declared_next_def split: if_splits prod.splits)

section \<open>The steps of a chain get fewer\<close>

fun chain_steps :: "task_request \<Rightarrow> nat" where
  "chain_steps (TaskRequest ty pl pr ex nx tc) = (case nx of None \<Rightarrow> 0 | Some r \<Rightarrow> Suc (chain_steps r))"

lemma chain_steps_normal [simp]: "chain_steps (normal_request r) = chain_steps r"
  by (induction r rule: normal_request.induct) (simp split: option.split)

lemma raw_json_normal: "raw_json s = Some p \<Longrightarrow> raw_json (normal_raw s) = Some p"
proof -
  assume p: "raw_json s = Some p"
  have null: "jparse ''null'' = Some JNull" by code_simp
  show ?thesis
  proof (cases "s = []")
    case True
    with p null show ?thesis by (simp add: normal_raw_def raw_json_def)
  next
    case False
    with p obtain j where j: "jparse s = Some j" "p = jhesc j" by (auto simp: raw_json_def)
    then have "jprint p \<noteq> []" using jparse_wf [OF j(1)] raw_json_canon [OF p] jcanon_jwf by simp
    then show ?thesis using p j jparse_compact [OF j(1)] by (simp add: normal_raw_def raw_json_def)
  qed
qed

lemma request_json_normal:
  "request_json r = Some j \<Longrightarrow> \<exists>j'. request_json (normal_request r) = Some j' \<and> jdepth j' = jdepth j"
proof (induction r arbitrary: j rule: normal_request.induct)
  case (1 ty pl pr ex nx tc)
  from "1.prems" show ?case
  proof (rule request_json_Some)
    fix p t n
    assume f: "raw_json pl = Some p" "time_member ex = Some t"
      "(nx = None \<and> n = []) \<or> (\<exists>r i. nx = Some r \<and> request_json r = Some i \<and> n = [member ''next'' i])"
      and j: "j = JObj ([member ''type'' (jstring ty), member ''payload'' p, member ''priority'' (jstring pr)]
        @ t @ n @ trace_member tc)"
    have tr: "foldr (\<lambda>(k, t, v) m. max (jdepth v) m) (trace_member tc) 0
        = foldr (\<lambda>(k, t, v) m. max (jdepth v) m) (trace_member tc') 0" for tc' tc
      by (simp add: trace_member_def)
    note raw = raw_json_normal [OF f(1)]
    from f(3) show ?case
    proof (elim disjE exE conjE)
      assume "nx = None" "n = []"
      then show ?thesis
        using raw f(2) tr [of "utf8_sanitize tc" tc] by (simp add: j)
    next
      fix r i assume r: "nx = Some r" "request_json r = Some i" "n = [member ''next'' i]"
      obtain i' where "request_json (normal_request r) = Some i'" "jdepth i' = jdepth i"
        using "1.IH" [of r i] r by auto
      then show ?thesis
        using raw f(2) r tr [of "utf8_sanitize tc" tc] by (simp add: j)
    qed
  qed
qed

lemma valid_times_normal [simp]: "valid_times (normal_request r) = valid_times r"
  by (induction r rule: normal_request.induct) (simp split: option.split)

lemma request_ok_normal: "request_ok r \<Longrightarrow> request_ok (normal_request r)"
  using request_json_normal unfolding request_ok_def by fastforce

lemma foldr_depth_ge: "b \<le> foldr (\<lambda>(k, t, v) m. max (jdepth v) m) ms (b::nat)"
  by (induction ms) auto

lemma request_ok_next:
  assumes "request_ok r" "tr_next r = Some n"
  shows "request_ok n"
proof -
  obtain ty pl pr ex tc where r: "r = TaskRequest ty pl pr ex (Some n) tc"
    using assms(2) by (cases r) auto
  obtain j where "request_json r = Some j" "jdepth j \<le> max_depth" "valid_times r"
    using assms(1) by (auto simp: request_ok_def)
  then obtain p t z where f: "raw_json pl = Some p" "time_member ex = Some t" "request_json n = Some z"
    "j = JObj ([member ''type'' (jstring ty), member ''payload'' p, member ''priority'' (jstring pr)]
      @ t @ [member ''next'' z] @ trace_member tc)" "jdepth j \<le> max_depth" "valid_times n"
    by (auto simp: r split: bind_splits)
  have "jdepth z \<le> foldr (\<lambda>(k, t, v) m. max (jdepth v) m) t (max (jdepth z)
      (foldr (\<lambda>(k, t, v) m. max (jdepth v) m) (trace_member tc) 0))"
    using foldr_depth_ge order_trans max.cobounded1 by blast
  then have "jdepth z \<le> max_depth" using f(4,5) by simp
  then show ?thesis using f(3,6) by (auto simp: request_ok_def)
qed

section \<open>The rows of a chain\<close>

text \<open>The next step of a request, as a worker that reads the stored row declares it.\<close>

definition next_step :: "task_request \<Rightarrow> task_request option" where
  "next_step r = (case tr_next r of
      None \<Rightarrow> None | Some n \<Rightarrow> if tr_type n = [] then None else Some (normal_request n))"

lemma sanitize_eq_Nil [simp]: "utf8_sanitize s = [] \<longleftrightarrow> s = []"
  by (subst utf8_sanitize.simps) (auto simp: rune_error_def)

lemma normal_type [simp]: "tr_type (normal_request r) = utf8_sanitize (tr_type r)"
  by (cases r) simp

lemma marshal_next:
  assumes "request_ok r" "tr_next r = Some n"
  obtains t where "marshal_request n = Some t" "t \<noteq> []" "unmarshal decode_request empty_request t = (normal_request n, True)"
proof -
  have ok: "request_ok n" using assms by (rule request_ok_next)
  then obtain j where j: "request_json n = Some j" "jdepth j \<le> max_depth" by (auto simp: request_ok_def)
  have "jprint j \<noteq> []" using request_json_canon [OF j(1)] jcanon_jwf by simp
  moreover have "unmarshal decode_request empty_request (jprint j) = (normal_request n, True)"
    using ok j by (auto simp: request_ok_def unmarshal_print [OF request_json_canon [OF j(1)] j(2)] decode_request_json)
  ultimately show thesis using j(1) by (intro that [of "jprint j"]) (simp_all add: marshal_request_def)
qed

lemma declared_next_row:
  assumes "request_ok r" "marshal_request r = Some s" "ev_payload e = s"
  shows "declared_next (task_of e) = next_step r"
proof (cases "tr_next r")
  case None
  then show ?thesis
    using task_reads_request [OF assms] by (simp add: declared_next_def meta_def next_step_def text_or_empty_def)
next
  case (Some n)
  obtain t where t: "marshal_request n = Some t" "t \<noteq> []"
    "unmarshal decode_request empty_request t = (normal_request n, True)"
    using marshal_next [OF assms(1) Some] .
  then have "meta (task_of e) ''next'' = t"
    using task_reads_request [OF assms] Some by (simp add: meta_def text_or_empty_def)
  then show ?thesis
    using t Some by (simp add: declared_next_def next_step_def)
qed

end
