(* ===== verification/Ssrf.thy ===== *)
theory Ssrf
  imports Go_Net Go_Error "HOL-Library.Code_Target_Nat"
begin

text \<open>
  \<open>internal/taskhandlers/ssrf.go\<close>: which addresses an outgoing request may be dialed to. The name
  service is an argument; a dial is the address it goes to, or an error.
\<close>

section \<open>isPrivateIP\<close>

definition private_blocks :: "string list" where
  "private_blocks = [''10.0.0.0/8'', ''172.16.0.0/12'', ''192.168.0.0/16'', ''127.0.0.0/8'',
    ''169.254.0.0/16'', ''::1/128'', ''fc00::/7'']"

definition isPrivateIP :: "ip \<Rightarrow> bool" where
  "isPrivateIP a = list_ex (\<lambda>cidr. case ParseCIDR cidr of None \<Rightarrow> False | Some block \<Rightarrow> net_contains block a)
    private_blocks"

section \<open>safeHTTPClient\<close>

datatype dial_outcome = DialError goerr | DialTo string | DialPanic string

definition blocked :: "string \<Rightarrow> ip option" where
  "blocked raw = (case ParseIP raw of None \<Rightarrow> None | Some a \<Rightarrow> if isPrivateIP a then Some a else None)"

fun first_blocked :: "string list \<Rightarrow> ip option" where
  "first_blocked [] = None"
| "first_blocked (raw # ips) = (case blocked raw of Some a \<Rightarrow> Some a | None \<Rightarrow> first_blocked ips)"

definition SafeDial :: "(string \<Rightarrow> string list result) \<Rightarrow> string \<Rightarrow> dial_outcome" where
  "SafeDial lookup_host addr =
    (case split_host_port addr of
       Inl e \<Rightarrow> DialError (ErrorString e)
     | Inr (host, port) \<Rightarrow>
         (case lookup_host host of
            Inl err \<Rightarrow> DialError err
          | Inr ips \<Rightarrow>
              (case first_blocked ips of
                 Some a \<Rightarrow> DialError (ErrorString (''ssrf: blocked request to private address '' @ ip_string a))
               | None \<Rightarrow>
                   (case ips of
                      [] \<Rightarrow> DialPanic ''index out of range [0] with length 0''
                    | raw # _ \<Rightarrow> DialTo (join_host_port raw port)))))"

section \<open>The blocks as ranges\<close>

text \<open>What the masks say of one byte, checked for each of the 256.\<close>

lemma byte_cases:
  assumes "list_all P [0..255]" "0 \<le> n" "n < 256"
  shows "P (n :: int)"
proof -
  have "n \<in> set [0..255]" using assms by simp
  then show ?thesis using assms(1) unfolding list_all_iff by blast
qed

lemma uint_byte: "0 \<le> uint (b :: w8)" "uint b < 256"
  using unsigned_less [of b] by simp_all

lemma mask_172: "((16 :: w8) AND 0xF0 = b AND 0xF0) = (16 \<le> b \<and> b < 32)"
proof -
  have "list_all (\<lambda>n. ((16::int) AND 0xF0 = n AND 0xF0) = (16 \<le> n \<and> n < 32)) [0..255]"
    by code_simp
  from byte_cases [OF this uint_byte [of b]] show ?thesis
    by (simp add: word_uint_eq_iff unsigned_and_eq word_le_def word_less_def)
qed

lemma mask_fc: "((0xFC :: w8) AND 0xFE = b AND 0xFE) = (0xFC \<le> b \<and> b < 0xFE)"
proof -
  have "list_all (\<lambda>n. ((0xFC::int) AND 0xFE = n AND 0xFE) = (0xFC \<le> n \<and> n < 0xFE)) [0..255]"
    by code_simp
  from byte_cases [OF this uint_byte [of b]] show ?thesis
    by (simp add: word_uint_eq_iff unsigned_and_eq word_le_def word_less_def)
qed

lemma mask_all [simp]: "b AND 0xFF = (b :: w8)"
proof -
  have "(0xFF :: w8) = - 1" by simp
  then show ?thesis by (metis and.right_neutral)
qed

lemma blocks_parsed:
  "map ParseCIDR private_blocks = map Some
    [([10, 0, 0, 0], [0xFF, 0, 0, 0]), ([172, 16, 0, 0], [0xFF, 0xF0, 0, 0]),
     ([192, 168, 0, 0], [0xFF, 0xFF, 0, 0]), ([127, 0, 0, 0], [0xFF, 0, 0, 0]),
     ([169, 254, 0, 0], [0xFF, 0xFF, 0, 0]),
     (replicate 15 0 @ [1], replicate 16 0xFF), (0xFC # replicate 15 0, 0xFE # replicate 15 0)]"
  by code_simp

lemma isPrivateIP_blocks: "isPrivateIP a = list_ex (\<lambda>b. case b of None \<Rightarrow> False | Some n \<Rightarrow> net_contains n a) (map ParseCIDR private_blocks)"
  by (simp add: isPrivateIP_def list_ex_iff)

lemma upt4: "[0..<4] = [0, 1, 2, 3 :: nat]" by (simp add: upt_rec)

lemma net_contains_v4:
  assumes "To4 a = Some [x, y, z, t]"
  shows "net_contains ([n0, n1, n2, n3], [m0, m1, m2, m3]) a
    \<longleftrightarrow> n0 AND m0 = x AND m0 \<and> n1 AND m1 = y AND m1 \<and> n2 AND m2 = z AND m2 \<and> n3 AND m3 = t AND m3"
  using assms by (simp add: net_contains_def upt4)

lemma net_contains_none:
  assumes "length (case To4 a of Some q \<Rightarrow> q | None \<Rightarrow> a) \<noteq> length n"
  shows "\<not> net_contains (n, m) a"
  using assms by (simp add: net_contains_def Let_def)

text \<open>For an IPv4 address, also in its mapped form.\<close>

lemma private_v4:
  assumes "To4 a = Some [x, y, z, t]"
  shows "isPrivateIP a \<longleftrightarrow> x = 10 \<or> (x = 172 \<and> 16 \<le> y \<and> y < 32) \<or> (x = 192 \<and> y = 168) \<or> x = 127
    \<or> (x = 169 \<and> y = 254)"
  using assms net_contains_none [of a]
  by (auto simp: isPrivateIP_blocks blocks_parsed net_contains_v4 [OF assms] mask_172 [simplified])

lemma To4_v6: "To4 a = None \<Longrightarrow> length a = 16 \<Longrightarrow> (case To4 a of Some q \<Rightarrow> q | None \<Rightarrow> a) = a"
  by simp

text \<open>For any other address: the loopback address and \<open>fc00::/7\<close>.\<close>

lemma private_v6:
  assumes "To4 a = None" "length a = 16"
  shows "isPrivateIP a \<longleftrightarrow> a = replicate 15 0 @ [1] \<or> (0xFC \<le> hd a \<and> hd a < 0xFE)"
proof -
  have all: "list_all (\<lambda>i. (replicate 15 0 @ [1 :: w8]) ! i AND replicate 16 0xFF ! i = a ! i AND replicate 16 0xFF ! i) [0..<16]
      \<longleftrightarrow> a = replicate 15 0 @ [1]"
    using assms(2) by (auto simp: list_all_iff list_eq_iff_nth_eq)
  have fc: "list_all (\<lambda>i. (0xFC # replicate 15 0) ! i AND (0xFE # replicate 15 0) ! i
      = a ! i AND (0xFE # replicate 15 (0 :: w8)) ! i) [0..<16] \<longleftrightarrow> 0xFC \<le> hd a \<and> hd a < 0xFE"
  proof -
    have "[0..<16] = 0 # [1..<16 :: nat]" by (simp add: upt_conv_Cons)
    moreover have "list_all (\<lambda>i. (0xFC # replicate 15 0) ! i AND (0xFE # replicate 15 0) ! i
      = a ! i AND (0xFE # replicate 15 (0 :: w8)) ! i) [1..<16]"
      by (auto simp: list_all_iff nth_Cons')
    moreover have "hd a = a ! 0" using assms(2) by (cases a) simp_all
    ultimately show ?thesis using mask_fc [of "a ! 0", simplified] by simp
  qed
  show ?thesis
    using net_contains_none [of a] assms all fc
    by (simp add: isPrivateIP_blocks blocks_parsed net_contains_def Let_def)
qed

section \<open>Dialing\<close>

lemma first_blocked_None: "first_blocked ips = None \<longleftrightarrow> (\<forall>raw\<in>set ips. blocked raw = None)"
  by (induction ips) (auto split: option.split)

lemma blocked_None: "blocked raw = None \<longleftrightarrow> (\<forall>a. ParseIP raw = Some a \<longrightarrow> \<not> isPrivateIP a)"
  by (auto simp: blocked_def split: option.split)

lemma SafeDial_DialTo:
  assumes "SafeDial lookup_host addr = DialTo target"
  obtains host port raw ips where "split_host_port addr = Inr (host, port)" "lookup_host host = Inr (raw # ips)"
    "target = join_host_port raw port" "\<forall>s\<in>set (raw # ips). \<forall>a. ParseIP s = Some a \<longrightarrow> \<not> isPrivateIP a"
proof -
  obtain host port where hp: "split_host_port addr = Inr (host, port)"
    using assms by (auto simp: SafeDial_def split: sum.splits)
  then obtain ips where ips: "lookup_host host = Inr ips" "first_blocked ips = None"
    using assms by (auto simp: SafeDial_def split: sum.splits option.splits)
  then obtain raw r where "ips = raw # r" "target = join_host_port raw port"
    using assms hp by (cases ips) (auto simp: SafeDial_def)
  then show thesis
    using that hp ips by (simp only: first_blocked_None blocked_None)
qed

end
