(* ===== verification/Worker_Services.thy ===== *)
theory Worker_Services
  imports Chaining Ssrf
begin

text \<open>
  What the task handlers of the worker share: the services they call outside the repository (the
  network, the HTML parser, the imaging library), the texts they trim, and the last steps of every
  file-producing task.
\<close>

section \<open>Services\<close>

text \<open>The nodes of \<open>golang.org/x/net/html\<close>: type, data, attributes and children.\<close>

datatype node_type = ErrorNode | TextNode | DocumentNode | ElementNode | CommentNode | DoctypeNode | RawNode

datatype html_node = HtmlNode (nd_type: node_type) (nd_data: string)
  (nd_attr: "(string \<times> string) list") (nd_children: "html_node list")

text \<open>A response: its status, the bytes of its body and the error after them, if there is one.\<close>

record http_reply =
  rp_code :: int
  rp_body :: bytes
  rp_read_error :: "goerr option"

text \<open>
  \<open>http_get\<close> is the client of \<open>net/http\<close>, which is given the dial function; \<open>'i\<close> are the images of
  the imaging library.
\<close>

record 'i services =
  lookup_host :: "nat \<Rightarrow> string \<Rightarrow> string list result"
  new_request_error :: "string \<Rightarrow> goerr option"
  http_get :: "nat \<Rightarrow> (string \<Rightarrow> dial_outcome) \<Rightarrow> string \<Rightarrow> http_reply result"
  html_parse :: "bytes \<Rightarrow> goerr option \<Rightarrow> html_node result"
  image_decode :: "bytes \<Rightarrow> 'i result"
  image_fill :: "'i \<Rightarrow> int \<Rightarrow> int \<Rightarrow> 'i"
  image_stretch :: "'i \<Rightarrow> int \<Rightarrow> int \<Rightarrow> 'i"
  image_fit :: "'i \<Rightarrow> int \<Rightarrow> int \<Rightarrow> 'i"
  encode_png :: "'i \<Rightarrow> bytes result"
  encode_jpeg :: "'i \<Rightarrow> int \<Rightarrow> bytes result"

text \<open>\<open>io.LimitReader\<close>: at most \<open>n\<close> bytes; what comes after them is not seen.\<close>

definition limited :: "nat \<Rightarrow> http_reply \<Rightarrow> bytes \<times> goerr option" where
  "limited n r = (if n \<le> length (rp_body r) then (take n (rp_body r), None) else (rp_body r, rp_read_error r))"

text \<open>A request through \<open>safeHTTPClient\<close>: every connection is dialed by \<open>SafeDial\<close>.\<close>

definition safe_get :: "'i services \<Rightarrow> string \<Rightarrow> ('x ticking_scheme, http_reply result) state" where
  "safe_get S url = do {
    t \<leftarrow> next_tick;
    State_Monad.return (http_get S t (SafeDial (lookup_host S t)) url)
  }"

section \<open>Trimming\<close>

text \<open>The characters of \<open>unicode.IsSpace\<close>, encoded.\<close>

definition space_runes :: "bytes list" where
  "space_runes = map encode_rune ([0x09, 0x0A, 0x0B, 0x0C, 0x0D, 0x20, 0x85, 0xA0, 0x1680]
    @ [0x2000..<0x200B] @ [0x2028, 0x2029, 0x202F, 0x205F, 0x3000])"

definition head_space :: "bytes \<Rightarrow> bytes option" where
  "head_space s = find (\<lambda>sp. sp = take (length sp) s) space_runes"

lemma space_runes_not_Nil: "[] \<notin> set space_runes"
  by (auto simp: space_runes_def encode_rune_def)

lemma head_space_Some: "head_space s = Some sp \<Longrightarrow> sp \<noteq> [] \<and> s \<noteq> []"
  using space_runes_not_Nil by (auto simp: head_space_def find_Some_iff in_set_conv_nth)

function trim_left :: "bytes \<Rightarrow> bytes" where
  "trim_left s = (case head_space s of None \<Rightarrow> s | Some sp \<Rightarrow> trim_left (drop (length sp) s))"
  by pat_completeness auto
termination
  by (relation "measure length") (auto dest: head_space_Some)

declare trim_left.simps [simp del]

definition tail_space :: "bytes \<Rightarrow> bytes option" where
  "tail_space s = find (\<lambda>sp. length sp \<le> length s \<and> sp = drop (length s - length sp) s) space_runes"

lemma tail_space_Some: "tail_space s = Some sp \<Longrightarrow> sp \<noteq> [] \<and> s \<noteq> []"
  using space_runes_not_Nil by (auto simp: tail_space_def find_Some_iff in_set_conv_nth)

function trim_right :: "bytes \<Rightarrow> bytes" where
  "trim_right s = (case tail_space s of None \<Rightarrow> s | Some sp \<Rightarrow> trim_right (take (length s - length sp) s))"
  by pat_completeness auto
termination
  by (relation "measure length") (auto dest!: tail_space_Some)

declare trim_right.simps [simp del]

definition TrimSpace :: "bytes \<Rightarrow> bytes" where
  "TrimSpace s = trim_right (trim_left s)"

section \<open>The last steps of a task that makes a file\<close>

definition file_json :: "string \<Rightarrow> json" where
  "file_json key = jmap [(''kind'', jstring ''file''), (''key'', jstring key)]"

definition store_file ::
  "env \<Rightarrow> string \<Rightarrow> worker_task \<Rightarrow> string \<Rightarrow> string \<Rightarrow> bytes \<Rightarrow> ('x world_scheme, goerr option) state" where
  "store_file E label task key content_type data = do {
    r \<leftarrow> Upload E key content_type data;
    (case r of
       Inl err \<Rightarrow> State_Monad.return (Some (WrapError (label @ '': upload: '') err))
     | Inr _ \<Rightarrow> do {
         r \<leftarrow> RepoUpdateEventResult E (wt_id task) (jprint (file_json key));
         State_Monad.return (case r of
           Inl err \<Rightarrow> Some (WrapError (label @ '': save result: '') err) | Inr _ \<Rightarrow> None)
       })
  }"

lemma keeps_store_file [wf_intros]: "keeps db_ok (store_file E label task key ct data)"
  unfolding store_file_def by (intro wf_intros)

text \<open>When they succeed, the file is stored and the task carries its key.\<close>

lemma store_file_None:
  assumes "value_of (store_file E label task key ct data) w = None"
  shows "objects (final (store_file E label task key ct data) w)
      = objects w @ [\<lparr> so_key = key, so_content_type = ct, so_body = data \<rparr>]"
    "lookup (final (store_file E label task key ct data) w) j
      = (if j = wt_id task then map_option (result_row (db_now E (Suc (tick w))) (Some (jprint (file_json key)))) (lookup w j)
         else lookup w j)"
    "queue_log (final (store_file E label task key ct data) w) = queue_log w"
proof -
  define w1 where "w1 = final (Upload E key ct data) w"
  have up: "put_object E (tick w) = None"
    using assms by (cases "put_object E (tick w)") (auto simp: store_file_def Upload_def split: prod.splits)
  then have w1: "w1 = (next_state w)\<lparr> objects := objects w @ [\<lparr> so_key = key, so_content_type = ct, so_body = data \<rparr>] \<rparr>"
    by (simp add: w1_def Upload_def)
  have fin: "final (store_file E label task key ct data) w
      = final (RepoUpdateEventResult E (wt_id task) (jprint (file_json key))) w1"
    using up by (simp add: store_file_def Upload_def w1)
  have "value_of (RepoUpdateEventResult E (wt_id task) (jprint (file_json key))) w1 = Inr ()"
    using assms up by (simp add: store_file_def Upload_def w1 split: sum.splits)
  then have a: "answers E w1" by (rule result_Inr)
  show "objects (final (store_file E label task key ct data) w)
      = objects w @ [\<lparr> so_key = key, so_content_type = ct, so_body = data \<rparr>]"
    "queue_log (final (store_file E label task key ct data) w) = queue_log w"
    using a by (simp_all add: fin RepoUpdateEventResult_def UpdateEventResult_def w1)
  show "lookup (final (store_file E label task key ct data) w) j
      = (if j = wt_id task then map_option (result_row (db_now E (Suc (tick w))) (Some (jprint (file_json key)))) (lookup w j)
         else lookup w j)"
    using result_lookup [OF a, of "wt_id task" "jprint (file_json key)" j]
    by (simp add: fin w1 lookup_def)
qed

end
