(* ===== verification/Scrape.thy ===== *)
theory Scrape
  imports Worker_Services
begin

text \<open>
  \<open>internal/taskhandlers/scrape_url.go\<close>: fetching a page, extracting its texts and storing them.
  Results: what an extracted page can contain, and that a stored page is read back.
\<close>

section \<open>Extraction\<close>

record scraped_page =
  sp_url :: string
  sp_title :: string
  sp_headings :: "string list"
  sp_paragraphs :: "string list"
  sp_links :: "string list"
  sp_scraped_at :: string

fun text_of_node :: "html_node \<Rightarrow> string" where
  "text_of_node (HtmlNode ty d attr cs) =
    (if ty = TextNode then d else []) @ concat (map text_of_node cs)"

definition extractText :: "html_node \<Rightarrow> string" where
  "extractText n = TrimSpace (text_of_node n)"

definition has_prefix :: "string \<Rightarrow> string \<Rightarrow> bool" where
  "has_prefix p s \<longleftrightarrow> take (length p) s = p"

text \<open>One element, before its children: the body of the switch.\<close>

definition visit_element :: "html_node \<Rightarrow> scraped_page \<Rightarrow> scraped_page" where
  "visit_element n p =
    (if nd_data n = ''title'' then
       (case nd_children n of
          c # _ \<Rightarrow> if nd_type c = TextNode then p\<lparr> sp_title := TrimSpace (nd_data c) \<rparr> else p
        | [] \<Rightarrow> p)
     else if nd_data n \<in> {''h1'', ''h2'', ''h3''} then
       (let text = extractText n in if text \<noteq> [] then p\<lparr> sp_headings := sp_headings p @ [text] \<rparr> else p)
     else if nd_data n = ''p'' then
       (let text = extractText n in
        if 20 \<le> length text
        then p\<lparr> sp_paragraphs := sp_paragraphs p @ [if 300 < length text then take 300 text else text] \<rparr> else p)
     else if nd_data n = ''a'' then
       p\<lparr> sp_links := sp_links p @ map snd (filter (\<lambda>(k, v). k = ''href'' \<and> has_prefix ''http'' v) (nd_attr n)) \<rparr>
     else p)"

fun walk :: "html_node \<Rightarrow> scraped_page \<Rightarrow> scraped_page" where
  "walk (HtmlNode ty d attr cs) p =
    (if ty = ElementNode \<and> (d = ''script'' \<or> d = ''style'') then p
     else fold walk cs (if ty = ElementNode then visit_element (HtmlNode ty d attr cs) p else p))"

definition extractPage :: "gotime \<Rightarrow> html_node \<Rightarrow> string \<Rightarrow> scraped_page" where
  "extractPage now doc page_url = walk doc \<lparr> sp_url = page_url, sp_title = [], sp_headings = [],
    sp_paragraphs = [], sp_links = [], sp_scraped_at = rfc3339 (utc now) \<rparr>"

section \<open>The stored form\<close>

text \<open>A nil slice is null.\<close>

definition strings_json :: "string list \<Rightarrow> json" where
  "strings_json ss = (if ss = [] then JNull else JArr (map jstring ss))"

definition page_json :: "scraped_page \<Rightarrow> json" where
  "page_json p = JObj [member ''url'' (jstring (sp_url p)), member ''title'' (jstring (sp_title p)),
    member ''headings'' (strings_json (sp_headings p)), member ''paragraphs'' (strings_json (sp_paragraphs p)),
    member ''links'' (strings_json (sp_links p)), member ''scraped_at'' (jstring (sp_scraped_at p))]"

definition empty_page :: scraped_page where
  "empty_page = \<lparr> sp_url = [], sp_title = [], sp_headings = [], sp_paragraphs = [], sp_links = [], sp_scraped_at = [] \<rparr>"

definition page_names :: "string list" where
  "page_names = [''url'', ''title'', ''headings'', ''paragraphs'', ''links'', ''scraped_at'']"

definition store_page :: "scraped_page store" where
  "store_page p n t j =
    (if n = ''url'' then map_prod (\<lambda>x. p\<lparr> sp_url := x \<rparr>) (\<lambda>e. e) (decode_string (sp_url p) j)
     else if n = ''title'' then map_prod (\<lambda>x. p\<lparr> sp_title := x \<rparr>) (\<lambda>e. e) (decode_string (sp_title p) j)
     else if n = ''headings'' then map_prod (\<lambda>x. p\<lparr> sp_headings := x \<rparr>) (\<lambda>e. e) (decode_strings (sp_headings p) j)
     else if n = ''paragraphs'' then map_prod (\<lambda>x. p\<lparr> sp_paragraphs := x \<rparr>) (\<lambda>e. e) (decode_strings (sp_paragraphs p) j)
     else if n = ''links'' then map_prod (\<lambda>x. p\<lparr> sp_links := x \<rparr>) (\<lambda>e. e) (decode_strings (sp_links p) j)
     else map_prod (\<lambda>x. p\<lparr> sp_scraped_at := x \<rparr>) (\<lambda>e. e) (decode_string (sp_scraped_at p) j))"

definition decode_page :: "scraped_page \<Rightarrow> json \<Rightarrow> scraped_page \<times> decode_error" where
  "decode_page = decode_struct page_names store_page"

section \<open>The handler\<close>

definition max_page_bytes :: nat where
  "max_page_bytes = 5 * 2 ^ 20"

definition scrape_key :: "worker_task \<Rightarrow> string" where
  "scrape_key task = ''scraped/'' @ wt_id task @ ''.json''"

definition scrape_page :: "env \<Rightarrow> 'i services \<Rightarrow> string \<Rightarrow> ('x world_scheme, scraped_page result) state" where
  "scrape_page E S url = do {
    r \<leftarrow> safe_get S url;
    (case r of
       Inl err \<Rightarrow> State_Monad.return (Inl (WrapError (''scrape: fetch '' @ url @ '': '') err))
     | Inr resp \<Rightarrow>
         (if rp_code resp < 200 \<or> 300 \<le> rp_code resp then
            State_Monad.return (Inl (ErrorString (''scrape: unexpected status '' @ dec_int (rp_code resp) @ '' for '' @ url)))
          else (case limited max_page_bytes resp of (body, read_error) \<Rightarrow>
            (case html_parse S body read_error of
               Inl err \<Rightarrow> State_Monad.return (Inl (WrapError ''scrape: parse html: '' err))
             | Inr doc \<Rightarrow> do { now \<leftarrow> time_now E; State_Monad.return (Inr (extractPage now doc url)) }))))
  }"

definition ScrapeURL :: "env \<Rightarrow> 'i services \<Rightarrow> bool \<Rightarrow> 'x handler" where
  "ScrapeURL E S storage task =
    (case unmarshal decode_url [] (wt_payload task) of (url, ok) \<Rightarrow>
      if \<not> ok then State_Monad.return (Some (WrapError ''scrape: parse params: '' (json_error E (wt_payload task))))
      else if url = [] then State_Monad.return (Some (ErrorString ''scrape: url is required''))
      else if \<not> storage then State_Monad.return (Some (ErrorString ''scrape: storage client not configured''))
      else do {
        r \<leftarrow> scrape_page E S url;
        (case r of
           Inl err \<Rightarrow> State_Monad.return (Some err)
         | Inr page \<Rightarrow> store_file E ''scrape'' task (scrape_key task) ''application/json'' (jprint (page_json page)))
      })"

section \<open>What an extracted page contains\<close>

definition page_ok :: "scraped_page \<Rightarrow> bool" where
  "page_ok p \<longleftrightarrow> [] \<notin> set (sp_headings p) \<and> (\<forall>t\<in>set (sp_paragraphs p). 20 \<le> length t \<and> length t \<le> 300)
    \<and> (\<forall>l\<in>set (sp_links p). has_prefix ''http'' l)"

lemma page_ok_visit: "page_ok p \<Longrightarrow> page_ok (visit_element n p)"
  by (auto simp: page_ok_def visit_element_def Let_def split: list.split)

lemma fold_keeps: "(\<And>x p. x \<in> set xs \<Longrightarrow> P p \<Longrightarrow> P (f x p)) \<Longrightarrow> P p \<Longrightarrow> P (fold f xs p)"
  by (induction xs arbitrary: p) auto

lemma page_ok_walk: "page_ok p \<Longrightarrow> page_ok (walk n p)"
proof (induction n p rule: walk.induct)
  case (1 ty d attr cs p)
  show ?case
  proof (cases "ty = ElementNode \<and> (d = ''script'' \<or> d = ''style'')")
    case False
    have "page_ok (if ty = ElementNode then visit_element (HtmlNode ty d attr cs) p else p)"
      using "1.prems" page_ok_visit by simp
    then have "page_ok (fold walk cs (if ty = ElementNode then visit_element (HtmlNode ty d attr cs) p else p))"
      by (rule fold_keeps [rotated]) (use "1.IH" False in blast)
    with False "1.prems" show ?thesis by simp
  qed (use 1 in auto)
qed

lemma page_ok_extract: "page_ok (extractPage now doc url)"
  unfolding extractPage_def by (rule page_ok_walk) (simp add: page_ok_def)

lemma walk_url: "sp_url (walk n p) = sp_url p \<and> sp_scraped_at (walk n p) = sp_scraped_at p"
proof (induction n p rule: walk.induct)
  case (1 ty d attr cs p)
  let ?p = "if ty = ElementNode then visit_element (HtmlNode ty d attr cs) p else p"
  have p: "sp_url ?p = sp_url p \<and> sp_scraped_at ?p = sp_scraped_at p"
    by (auto simp: visit_element_def Let_def split: list.split)
  show ?case
  proof (cases "ty = ElementNode \<and> (d = ''script'' \<or> d = ''style'')")
    case False
    have "sp_url (fold walk cs ?p) = sp_url p \<and> sp_scraped_at (fold walk cs ?p) = sp_scraped_at p"
      using p 1 False by (intro fold_keeps [of cs "\<lambda>q. sp_url q = sp_url p \<and> sp_scraped_at q = sp_scraped_at p"]) auto
    with False show ?thesis by simp
  qed (use 1 in auto)
qed

section \<open>A stored page is read back\<close>

definition normal_page :: "scraped_page \<Rightarrow> scraped_page" where
  "normal_page p = \<lparr> sp_url = utf8_sanitize (sp_url p), sp_title = utf8_sanitize (sp_title p),
    sp_headings = map utf8_sanitize (sp_headings p), sp_paragraphs = map utf8_sanitize (sp_paragraphs p),
    sp_links = map utf8_sanitize (sp_links p), sp_scraped_at = utf8_sanitize (sp_scraped_at p) \<rparr>"

lemma plain_page_names [simp]: "plain ''url''" "plain ''title''" "plain ''headings''" "plain ''paragraphs''"
  "plain ''links''" "plain ''scraped_at''"
  by (simp_all add: plain_simps plain_char_def is_html_def byte_def)

lemma page_name_members [simp]: "''url'' \<in> set page_names" "''title'' \<in> set page_names"
  "''headings'' \<in> set page_names" "''paragraphs'' \<in> set page_names" "''links'' \<in> set page_names"
  "''scraped_at'' \<in> set page_names"
  by (simp_all add: page_names_def)

lemma decode_strings_json: "decode_strings [] (strings_json ss) = (map utf8_sanitize ss, NoErr)"
proof -
  have "map2 (\<lambda>u j. fst (decode_string u j)) (replicate (length ss) []) (map jstring ss) = map utf8_sanitize ss"
    by (induction ss) simp_all
  moreover have "foldr (\<lambda>j. later (snd (decode_string [] j))) (map jstring ss) NoErr = NoErr"
    by (induction ss) simp_all
  ultimately show ?thesis by (simp add: decode_strings_def strings_json_def)
qed

lemma decode_page_json: "decode_page empty_page (page_json p) = (normal_page p, NoErr)"
  by (simp add: decode_page_def page_json_def empty_page_def normal_page_def store_page_def decode_strings_json)

lemma strings_json_canon: "jcanon (strings_json ss)" "jdepth (strings_json ss) \<le> 1"
proof -
  have "foldr (\<lambda>v m. max (jdepth v) m) (map jstring ss) 0 = 0" by (induction ss) simp_all
  then show "jcanon (strings_json ss)" "jdepth (strings_json ss) \<le> 1"
    by (auto simp: strings_json_def)
qed

lemma page_json_canon: "jcanon (page_json p)" "jdepth (page_json p) \<le> 2"
  using strings_json_canon(2) [of "sp_headings p"] strings_json_canon(2) [of "sp_paragraphs p"]
    strings_json_canon(2) [of "sp_links p"]
  by (auto simp: page_json_def strings_json_canon(1) member_def raw_ok_plain_text)

interpretation page: json_codec page_json decode_page empty_page normal_page "\<lambda>p. True"
proof
  fix p
  have "jdepth (page_json p) \<le> max_depth"
    using page_json_canon(2) [of p] by (simp add: max_depth_def)
  then show "jcanon (page_json p) \<and> jdepth (page_json p) \<le> max_depth" using page_json_canon(1) by simp
qed (rule decode_page_json)

end
