(* ===== verification/Report.thy ===== *)
theory Report
  imports Scrape
begin

text \<open>
  \<open>internal/taskhandlers/generate_report.go\<close>: rendering scraped data as CSV. The writer is that of
  Go's \<open>encoding/csv\<close>; a reader after RFC 4180 is the specification it is checked against.
\<close>

section \<open>The CSV writer\<close>

abbreviation LF :: char where "LF \<equiv> CHR 0x0A"

definition csv_special :: "char \<Rightarrow> bool" where
  "csv_special c \<longleftrightarrow> c \<in> {LF, CHR 0x0D, DQUOTE, CHR '',''}"

definition field_needs_quotes :: "string \<Rightarrow> bool" where
  "field_needs_quotes f \<longleftrightarrow> f \<noteq> [] \<and>
    (f = [BSLASH, CHR ''.''] \<or> list_ex csv_special f \<or> head_space f \<noteq> None)"

definition csv_escape :: "string \<Rightarrow> string" where
  "csv_escape f = concat (map (\<lambda>c. if c = DQUOTE then [DQUOTE, DQUOTE] else [c]) f)"

definition csv_field :: "string \<Rightarrow> string" where
  "csv_field f = (if field_needs_quotes f then DQUOTE # csv_escape f @ [DQUOTE] else f)"

definition csv_record :: "string list \<Rightarrow> string" where
  "csv_record fs = join_with '','' (map csv_field fs) @ [LF]"

definition csv_text :: "string list list \<Rightarrow> string" where
  "csv_text rs = concat (map csv_record rs)"

section \<open>The report\<close>

definition report_rows :: "scraped_page \<Rightarrow> string list list" where
  "report_rows p =
    [[''section'', ''content''], [''url'', sp_url p], [''title'', sp_title p], [''scraped_at'', sp_scraped_at p]]
    @ map (\<lambda>h. [''heading'', h]) (sp_headings p) @ map (\<lambda>t. [''paragraph'', t]) (sp_paragraphs p)
    @ map (\<lambda>l. [''link'', l]) (sp_links p)"

text \<open>The parameters and the result of the parent, as they are decoded.\<close>

definition decode_scraped_key :: "string \<Rightarrow> json \<Rightarrow> string \<times> decode_error" where
  "decode_scraped_key = decode_struct [''scraped_key''] (\<lambda>v n t j. decode_string v j)"

record file_ref =
  fr_kind :: string
  fr_key :: string

definition empty_ref :: file_ref where
  "empty_ref = \<lparr> fr_kind = [], fr_key = [] \<rparr>"

definition ref_names :: "string list" where
  "ref_names = [''kind'', ''key'']"

definition store_ref :: "file_ref store" where
  "store_ref v n t j =
    (if n = ''kind'' then map_prod (\<lambda>x. v\<lparr> fr_kind := x \<rparr>) (\<lambda>e. e) (decode_string (fr_kind v) j)
     else map_prod (\<lambda>x. v\<lparr> fr_key := x \<rparr>) (\<lambda>e. e) (decode_string (fr_key v) j))"

definition decode_ref :: "file_ref \<Rightarrow> json \<Rightarrow> file_ref \<times> decode_error" where
  "decode_ref = decode_struct ref_names store_ref"

definition ref_key :: "env \<Rightarrow> string \<Rightarrow> event \<Rightarrow> string result" where
  "ref_key E parent_id parent =
    (if text_or_empty (ev_result parent) = [] then Inl (ErrorString (''parent task '' @ parent_id @ '' has no result''))
     else (case unmarshal decode_ref empty_ref (text_or_empty (ev_result parent)) of (r, ok) \<Rightarrow>
       if \<not> ok then Inl (WrapError ''parse parent task result: '' (json_error E (text_or_empty (ev_result parent))))
       else if fr_kind r \<noteq> ''file'' \<or> fr_key r = [] then
         Inl (ErrorString (''parent task '' @ parent_id @ '' has no usable file result''))
       else Inr (fr_key r)))"

definition parentFileResultKey :: "env \<Rightarrow> string \<Rightarrow> ('x db_scheme, string result) state" where
  "parentFileResultKey E parent_id =
    (if parent_id = [] then State_Monad.return (Inl (ErrorString ''no parent task''))
     else do {
       r \<leftarrow> GetEventByID E parent_id;
       State_Monad.return (case r of
         Inl err \<Rightarrow> Inl (WrapError ''fetch parent task: '' err)
       | Inr parent \<Rightarrow> ref_key E parent_id parent)
     })"

definition report_key :: "worker_task \<Rightarrow> string" where
  "report_key task = ''reports/'' @ wt_id task @ ''.csv''"

text \<open>The error of decoding a stream: that of the reader when it ends before a value does.\<close>

definition stream_error :: "env \<Rightarrow> bytes \<times> goerr option \<Rightarrow> goerr" where
  "stream_error E r = (case r of (data, read_error) \<Rightarrow>
    (case read_error of Some e \<Rightarrow> if jdecode data = None then e else json_error E data | None \<Rightarrow> json_error E data))"

definition report_from :: "env \<Rightarrow> worker_task \<Rightarrow> string \<Rightarrow> ('x world_scheme, goerr option) state" where
  "report_from E task key = do {
    r \<leftarrow> Download E key;
    (case r of
       Inl err \<Rightarrow> State_Monad.return (Some (WrapError ''report: download scraped data: '' err))
     | Inr body \<Rightarrow>
         (case decode_stream decode_page empty_page (fst body) of (page, ok) \<Rightarrow>
           if \<not> ok then State_Monad.return (Some (WrapError ''report: decode scraped data: '' (stream_error E body)))
           else store_file E ''report'' task (report_key task) ''text/csv'' (csv_text (report_rows page))))
  }"

definition scraped_key_required :: string where
  "scraped_key_required = ''report: scraped_key is required; submit scrape_url (or another file-producing task) with next.type=generate_report: ''"

definition GenerateReport :: "env \<Rightarrow> bool \<Rightarrow> 'x handler" where
  "GenerateReport E storage task =
    (case unmarshal decode_scraped_key [] (wt_payload task) of (key, ok) \<Rightarrow>
      if \<not> ok then State_Monad.return (Some (WrapError ''report: parse params: '' (json_error E (wt_payload task))))
      else if \<not> storage then State_Monad.return (Some (ErrorString ''report: storage client not configured''))
      else if key \<noteq> [] then report_from E task key
      else do {
        r \<leftarrow> parentFileResultKey E (meta task ''root_task_id'');
        (case r of
           Inl err \<Rightarrow> State_Monad.return (Some (WrapError scraped_key_required err))
         | Inr parent_key \<Rightarrow> report_from E task parent_key)
      })"

section \<open>A reader of CSV\<close>

text \<open>
  RFC 4180: fields are separated by commas and records end with a line feed; a field that starts
  with a quote ends with the next quote that is not doubled. (Readers that fold CR LF inside a
  quoted field into LF see that difference, and no other.)
\<close>

fun read_quoted :: "string \<Rightarrow> (string \<times> string) option" where
  "read_quoted [] = None"
| "read_quoted (c # cs) =
    (if c \<noteq> DQUOTE then map_option (apfst (Cons c)) (read_quoted cs)
     else (case cs of
         d # r \<Rightarrow> if d = DQUOTE then map_option (apfst (Cons DQUOTE)) (read_quoted r) else Some ([], cs)
       | [] \<Rightarrow> Some ([], cs)))"

definition field_end :: "char \<Rightarrow> bool" where
  "field_end c \<longleftrightarrow> c = CHR '','' \<or> c = LF"

definition read_field :: "string \<Rightarrow> (string \<times> string) option" where
  "read_field s = (case s of
      c # cs \<Rightarrow> if c = DQUOTE then read_quoted cs
        else Some (takeWhile (\<lambda>c. \<not> field_end c) s, dropWhile (\<lambda>c. \<not> field_end c) s)
    | [] \<Rightarrow> Some ([], []))"

fun read_rows :: "nat \<Rightarrow> string list \<Rightarrow> string \<Rightarrow> string list list option" where
  "read_rows 0 fs s = None"
| "read_rows (Suc n) fs s =
    (case read_field s of
       None \<Rightarrow> None
     | Some (f, r) \<Rightarrow>
         (case r of
            [] \<Rightarrow> None
          | c # cs \<Rightarrow>
              (if c = CHR '','' then read_rows n (fs @ [f]) cs
               else if c \<noteq> LF then None
               else if cs = [] then Some [fs @ [f]]
               else map_option (Cons (fs @ [f])) (read_rows n [] cs))))"

definition csv_read :: "string \<Rightarrow> string list list option" where
  "csv_read s = (if s = [] then Some [] else read_rows (length s) [] s)"

section \<open>What is written is read back\<close>

lemma read_quoted_escape: "c \<noteq> DQUOTE \<Longrightarrow> read_quoted (csv_escape f @ DQUOTE # c # t) = Some (f, c # t)"
  by (induction f) (simp_all add: csv_escape_def)

lemma plain_field:
  assumes "\<not> field_needs_quotes f"
  shows "\<forall>c\<in>set f. \<not> field_end c \<and> c \<noteq> DQUOTE"
  using assms by (cases "f = []") (auto simp: field_needs_quotes_def csv_special_def field_end_def list_ex_iff)

lemma read_field_csv: "field_end c \<Longrightarrow> read_field (csv_field f @ c # t) = Some (f, c # t)"
proof (cases "field_needs_quotes f")
  case True
  assume "field_end c"
  then have "c \<noteq> DQUOTE" by (auto simp: field_end_def)
  then show ?thesis using True by (simp add: csv_field_def read_field_def read_quoted_escape)
next
  case False
  assume c: "field_end c"
  note p = plain_field [OF False]
  have "takeWhile (\<lambda>c. \<not> field_end c) (f @ c # t) = f \<and> dropWhile (\<lambda>c. \<not> field_end c) (f @ c # t) = c # t"
    using p c by (simp add: takeWhile_append dropWhile_append)
  moreover have "f @ c # t \<noteq> [] \<and> hd (f @ c # t) \<noteq> DQUOTE"
    using p c by (cases f) (auto simp: field_end_def)
  ultimately show ?thesis
    using False by (cases "f @ c # t") (simp_all add: csv_field_def read_field_def)
qed

lemma read_record:
  assumes "fs \<noteq> []"
  shows "read_rows (length fs + n) acc (csv_record fs @ t)
    = (if t = [] then Some [acc @ fs] else map_option (Cons (acc @ fs)) (read_rows n [] t))"
  using assms
proof (induction fs arbitrary: acc)
  case (Cons f fs)
  have ends: "field_end LF" "field_end (CHR '','')" by (simp_all add: field_end_def)
  show ?case
  proof (cases fs)
    case Nil
    then show ?thesis using read_field_csv [OF ends(1), of f t] by (simp add: csv_record_def)
  next
    case (Cons g gs)
    have "csv_record (f # fs) @ t = csv_field f @ CHR '','' # csv_record fs @ t"
      by (simp add: csv_record_def Cons)
    moreover have "read_rows (length (f # fs) + n) acc (csv_field f @ CHR '','' # csv_record fs @ t)
        = read_rows (length fs + n) (acc @ [f]) (csv_record fs @ t)"
      using read_field_csv [OF ends(2), of f "csv_record fs @ t"] by simp
    ultimately show ?thesis using Cons.IH [of "acc @ [f]"] Cons by simp
  qed
qed simp

lemma record_length: "fs \<noteq> [] \<Longrightarrow> length fs \<le> length (csv_record fs)"
proof (induction fs)
  case (Cons f fs)
  then show ?case by (cases fs) (auto simp: csv_record_def)
qed simp

lemma record_not_Nil [simp]: "csv_record fs \<noteq> []"
  by (simp add: csv_record_def)

lemma read_rows_text:
  assumes "rs \<noteq> []" "\<forall>fs\<in>set rs. fs \<noteq> []" "length (csv_text rs) \<le> n"
  shows "read_rows n [] (csv_text rs) = Some rs"
  using assms
proof (induction rs arbitrary: n)
  case (Cons fs rs)
  define m where "m = n - length fs"
  have len: "length fs \<le> length (csv_record fs)" using Cons.prems(2) by (intro record_length) simp
  then have n: "n = length fs + m" "length (csv_text rs) \<le> m"
    using Cons.prems(3) by (simp_all add: m_def csv_text_def)
  show ?case
  proof (cases "rs = []")
    case True
    then show ?thesis using read_record [of fs m "[]" "[]"] Cons.prems(2) n(1) by (simp add: csv_text_def)
  next
    case False
    then have "csv_text rs \<noteq> []" by (cases rs) (simp_all add: csv_text_def)
    then show ?thesis
      using read_record [of fs m "[]" "csv_text rs"] Cons.IH [OF False _ n(2)] Cons.prems(2) n(1)
      by (simp add: csv_text_def)
  qed
qed simp

lemma csv_read_text: "rs \<noteq> [] \<Longrightarrow> \<forall>fs\<in>set rs. fs \<noteq> [] \<Longrightarrow> csv_read (csv_text rs) = Some rs"
proof -
  assume rs: "rs \<noteq> []" "\<forall>fs\<in>set rs. fs \<noteq> []"
  then have "csv_text rs \<noteq> []" by (cases rs) (simp_all add: csv_text_def)
  then show ?thesis using read_rows_text [OF rs order_refl] by (simp add: csv_read_def)
qed

lemma report_read: "csv_read (csv_text (report_rows p)) = Some (report_rows p)"
  by (rule csv_read_text) (auto simp: report_rows_def)

section \<open>The key of the parent's file\<close>

lemma plain_key: "plain ''scraped_key''"
  by (simp add: plain_simps plain_char_def is_html_def byte_def)

lemma decode_file_json: "decode_ref empty_ref (file_json key) = (\<lparr> fr_kind = ''file'', fr_key = utf8_sanitize key \<rparr>, NoErr)"
proof -
  have "jmap [(''kind'', jstring ''file''), (''key'', jstring key)]
      = JObj [member ''key'' (jstring key), member ''kind'' (jstring ''file'')]"
    by (simp add: jmap_def)
  then show ?thesis
    by (simp add: file_json_def decode_ref_def ref_names_def empty_ref_def store_ref_def)
qed

lemma file_json_canon: "jcanon (file_json key)" "jdepth (file_json key) \<le> max_depth"
  by (simp_all add: file_json_def jmap_def raw_ok_plain_text max_depth_def)

interpretation stored_ref: json_codec "\<lambda>r. file_json (fr_key r)" decode_ref empty_ref
  "\<lambda>r. \<lparr> fr_kind = ''file'', fr_key = utf8_sanitize (fr_key r) \<rparr>" "\<lambda>r. fr_kind r = ''file''"
  by unfold_locales (simp_all add: file_json_canon decode_file_json)

lemma ref_key_file:
  assumes "ev_result e = Some (jprint (file_json key))" "utf8_sanitize key = key" "key \<noteq> []"
  shows "ref_key E i e = Inr key"
proof -
  have "jprint (file_json key) \<noteq> []" using jcanon_jwf [OF file_json_canon(1)] by simp
  then show ?thesis
    using assms stored_ref.unmarshal_encode [of "\<lparr> fr_kind = ''file'', fr_key = key \<rparr>"]
    by (simp add: ref_key_def text_or_empty_def)
qed

end
