(* ===== verification/Worker.thy ===== *)
theory Worker
  imports Scrape Report Resize
begin

text \<open>
  The contract of a task handler, as \<open>internal/chaining\<close> relies on it: a handler never writes to the
  queue and changes no row but the result of its own task. The three handlers of
  \<open>internal/taskhandlers\<close> keep it; \<open>Wrap\<close> adds the declared next step and nothing else.
\<close>

section \<open>Programs that write one result\<close>

definition result_written :: "string \<Rightarrow> event list \<Rightarrow> event list \<Rightarrow> bool" where
  "result_written i es es' \<longleftrightarrow>
    es' = es \<or> (\<exists>now r. es' = update_rows (has_id i) (result_row now (Some r)) es)"

definition writes_result :: "string \<Rightarrow> ('x world_scheme, 'a) state \<Rightarrow> bool" where
  "writes_result i m \<longleftrightarrow> (\<forall>w. result_written i (events w) (events (final m w)))"

named_theorems result_rules \<open>programs that write at most the result of one task\<close>

lemma writes_result_frame: "frames events m \<Longrightarrow> writes_result i m"
  by (simp add: writes_result_def frames_def result_written_def)

lemma writes_result_bind [result_rules]:
  "frames events m \<Longrightarrow> (\<And>a. writes_result i (f a)) \<Longrightarrow> writes_result i (State_Monad.bind m f)"
  by (simp add: writes_result_def frames_def) metis

lemma writes_result_return [result_rules]: "writes_result i (State_Monad.return a)"
  by (rule writes_result_frame) (rule frame)

lemma writes_result_if [result_rules]:
  "writes_result i m \<Longrightarrow> writes_result i m' \<Longrightarrow> writes_result i (if b then m else m')"
  by simp

lemma writes_result_sum [result_rules]:
  "(\<And>e. writes_result i (f e)) \<Longrightarrow> (\<And>a. writes_result i (g a)) \<Longrightarrow>
    writes_result i (case r of Inl e \<Rightarrow> f e | Inr a \<Rightarrow> g a)"
  by (simp split: sum.split)

lemma writes_result_prod [result_rules]:
  "(\<And>a b. writes_result i (f a b)) \<Longrightarrow> writes_result i (case r of (a, b) \<Rightarrow> f a b)"
  by (simp split: prod.split)

lemma writes_result_save [result_rules]: "writes_result i (RepoUpdateEventResult E i r)"
  by (auto simp: writes_result_def result_written_def RepoUpdateEventResult_def UpdateEventResult_def db_exec_def
      split: option.split)

lemma writes_result_map: "writes_result i m \<Longrightarrow> writes_result i (State_Monad.bind m (\<lambda>r. State_Monad.return (f r)))"
  by (simp add: writes_result_def)

lemma writes_result_store [result_rules]: "writes_result (wt_id task) (store_file E label task key ct data)"
  unfolding store_file_def
  by (intro writes_result_bind writes_result_sum writes_result_map writes_result_save writes_result_return event_frames)

section \<open>The contract\<close>

locale worker_handler =
  fixes h :: "'x handler"
  assumes no_queue_call: "frames queue_log (h task)"
    and no_other_table: "frames idempotency_keys (h task)" "frames delivery_logs (h task)"
    and own_result: "writes_result (wt_id task) (h task)"
    and time_passes: "keeps (\<lambda>w. n \<le> tick w) (h task)"
begin

lemma event_cases:
  obtains "events (final (h task) w) = events w"
  | now r where "events (final (h task) w) = update_rows (has_id (wt_id task)) (result_row now (Some r)) (events w)"
  using own_result [of task] unfolding writes_result_def result_written_def by blast

lemma keeps_ok: "keeps db_ok (h task)"
proof (rule keepsI)
  fix w :: "'x world_scheme"
  assume ok: "db_ok w"
  have tables: "idempotency_keys (final (h task) w) = idempotency_keys w"
    "delivery_logs (final (h task) w) = delivery_logs w"
    using no_other_table by (simp_all add: framesD)
  show "db_ok (final (h task) w)"
  proof (cases rule: event_cases [of task w])
    case 1
    then show ?thesis using ok tables by (simp add: db_ok_def)
  next
    case (2 now r)
    then have "db_ok (final (h task) w) = db_ok (w\<lparr> events := update_rows (has_id (wt_id task)) (result_row now (Some r)) (events w) \<rparr>)"
      using tables by (simp add: db_ok_def)
    then show ?thesis using ok by (simp add: db_ok_update)
  qed
qed

lemma other_rows: "j \<noteq> wt_id task \<Longrightarrow> lookup (final (h task) w) j = lookup w j"
  using set_result.lookup_other by (cases rule: event_cases [of task w]) (auto simp: lookup_def)

lemma keeps_ids: "map ev_id (events (final (h task) w)) = map ev_id (events w)"
  by (cases rule: event_cases [of task w]) (simp_all add: map_update_rows)

lemma keeps_status: "task_status (final (h task) w) j = task_status w j"
proof (cases rule: event_cases [of task w])
  case 1
  then show ?thesis by (simp add: task_status_def lookup_def)
next
  case (2 now r)
  then show ?thesis
    by (auto simp: task_status_def lookup_def row_simps split: option.split bind_splits)
qed

text \<open>One run of the worker on a task that declares a next step.\<close>

lemma run_with_next:
  assumes "declared_next task = Some nxt" "value_of (Wrap E h task) w = None"
  obtains full t where "value_of (h task) w = None" "marshal_request nxt = Some full"
    "lookup w (new_uuid E t) = None"
    "events (final (Wrap E h task) w) = events (final (h task) w) @ [child_row E (Suc t) (new_uuid E t) task nxt full]"
    "queue_log (final (Wrap E h task) w) = queue_log w @ [submitted (new_uuid E t) nxt]"
proof -
  have h: "value_of (h task) w = None"
    using assms(2) by (cases "value_of (h task) w") (auto simp: Wrap_def)
  note wrap = Wrap_next [of h task w nxt E, OF h assms(1)]
  obtain full where f: "marshal_request nxt = Some full"
    "lookup (final (h task) w) (new_uuid E (tick (final (h task) w))) = None"
    "events (final (create_next E task nxt) (final (h task) w)) = events (final (h task) w)
      @ [child_row E (Suc (tick (final (h task) w))) (new_uuid E (tick (final (h task) w))) task nxt full]"
    "queue_log (final (create_next E task nxt) (final (h task) w))
      = queue_log (final (h task) w) @ [submitted (new_uuid E (tick (final (h task) w))) nxt]"
    using create_next_None [of E task nxt "final (h task) w"] assms(2) wrap(1) by auto
  have "lookup w (new_uuid E (tick (final (h task) w))) = None"
    using f(2) keeps_ids [of task w] by (metis lookup_None list.set_map)
  with f h wrap(2) show thesis
    using framesD [OF no_queue_call, of task w] by (intro that [of full "tick (final (h task) w)"]) auto
qed

lemma failed_run:
  assumes "value_of (h task) w = Some e"
  shows "value_of (Wrap E h task) w = Some e" "queue_log (final (Wrap E h task) w) = queue_log w"
    "map ev_id (events (final (Wrap E h task) w)) = map ev_id (events w)"
  using Wrap_error [of h task w e E] assms framesD [OF no_queue_call, of task w] keeps_ids [of task w] by auto

end

section \<open>A next step the queue does not take\<close>

definition refused_call :: "queue_call \<Rightarrow> bool" where
  "refused_call c \<longleftrightarrow> (\<exists>i p e. c = EnqueueCall i p (Some e)) \<or> (\<exists>i p at e. c = ScheduleCall i p at (Some e))"

lemma submit_down:
  assumes "queue_down E"
  obtains err c where "value_of (enqueue_or_schedule E i p ex) w = Inl err" "refused_call c"
    "final (enqueue_or_schedule E i p ex) w = log_call c (next_state w)"
proof -
  obtain err where e: "queue_fault E (tick w) = Some err" using assms by (auto simp: queue_down_def)
  show thesis
  proof (cases ex)
    case None
    with e show thesis
      by (intro that [of err "EnqueueCall i p (Some err)"]) (simp_all add: enqueue_or_schedule_def refused_call_def)
  next
    case (Some at)
    with e show thesis
      by (intro that [of err "ScheduleCall i p at (Some err)"]) (simp_all add: enqueue_or_schedule_def refused_call_def)
  qed
qed

context worker_handler
begin

lemma run_unqueued:
  assumes "value_of (h task) w = None" "declared_next task = Some nxt" "marshal_request nxt = Some full"
    "db_up E" "queue_down E" "\<And>t. tick w \<le> t \<Longrightarrow> lookup w (new_uuid E t) = None"
  obtains t err c where "tick w \<le> t" "t < tick (final (Wrap E h task) w)" "value_of (Wrap E h task) w = Some err"
    "events (final (Wrap E h task) w) = events (final (h task) w) @ [child_row E (Suc t) (new_uuid E t) task nxt full]"
    "queue_log (final (Wrap E h task) w) = queue_log w @ [c]" "refused_call c"
proof -
  define t where "t = tick (final (h task) w)"
  have t: "tick w \<le> t" using keepsD [OF time_passes, of "tick w" w task] by (simp add: t_def)
  then have free: "lookup (final (h task) w) (new_uuid E t) = None"
    using assms(6) keeps_ids [of task w] by (metis lookup_None list.set_map)
  obtain w1 where w1: "events w1 = events (final (h task) w) @ [child_row E (Suc t) (new_uuid E t) task nxt full]"
    "queue_log w1 = queue_log (final (h task) w)" "tick w1 = Suc (Suc (Suc (Suc t)))"
    "value_of (create_next E task nxt) (final (h task) w)
      = error_of (value_of (enqueue_or_schedule E (new_uuid E t) (tr_priority nxt) (tr_execute_at nxt)) w1)"
    "final (create_next E task nxt) (final (h task) w)
      = final (enqueue_or_schedule E (new_uuid E t) (tr_priority nxt) (tr_execute_at nxt)) w1"
    using create_next_saved [OF assms(3,4), of "final (h task) w" task] free by (auto simp: t_def)
  obtain err c where down: "value_of (enqueue_or_schedule E (new_uuid E t) (tr_priority nxt) (tr_execute_at nxt)) w1 = Inl err"
    "refused_call c" "final (enqueue_or_schedule E (new_uuid E t) (tr_priority nxt) (tr_execute_at nxt)) w1 = log_call c (next_state w1)"
    using submit_down [OF assms(5)] .
  show thesis
    using that [of t err c] t w1 down Wrap_next [of h task w nxt E, OF assms(1,2)]
      framesD [OF no_queue_call, of task w] by (simp add: error_of_def)
qed

end

section \<open>The three handlers keep it\<close>

text \<open>Reading the network or a row changes nothing but the tick.\<close>

lemma fetch_frames:
  assumes "\<And>w t. g (w\<lparr> tick := t \<rparr>) = g w"
  shows "frames g (safe_get S url)" "frames g (scrape_page E S url)" "frames g (fetch_image S url)"
    "frames g (parentFileResultKey E i)"
  using assms
  by (auto simp: frames_def safe_get_def scrape_page_def fetch_image_final parentFileResultKey_def
      split: sum.split prod.split)

lemma download_frames:
  assumes "\<And>w t. g (w\<lparr> tick := t \<rparr>) = g w"
  shows "frames g (Download E key)"
  using assms by (simp add: frames_def Download_def)

lemma store_file_frames:
  assumes "\<And>w t. g (w\<lparr> tick := t \<rparr>) = g w" "\<And>w es. g (w\<lparr> events := es \<rparr>) = g w"
    "\<And>w os. g (w\<lparr> objects := os \<rparr>) = g w"
  shows "frames g (store_file E label task key ct data)"
proof -
  have "frames g (Upload E key ct data)" using assms by (simp add: frames_def Upload_def split: option.split prod.split)
  then show ?thesis
    unfolding store_file_def using save_frames(3) [of g, OF assms(1,2)] by (intro frame)
qed

lemma handler_frames:
  assumes "\<And>w t. g (w\<lparr> tick := t \<rparr>) = g w" "\<And>w es. g (w\<lparr> events := es \<rparr>) = g w"
    "\<And>w os. g (w\<lparr> objects := os \<rparr>) = g w"
  shows "frames g (ScrapeURL E S storage task)" "frames g (GenerateReport E storage task)"
    "frames g (ResizeImage E S storage task)"
  unfolding ScrapeURL_def GenerateReport_def report_from_def ResizeImage_def Let_def
  by (intro frame fetch_frames download_frames store_file_frames assms)+

lemma writes_result_report: "writes_result (wt_id task) (report_from E task key)"
  unfolding report_from_def by (intro result_rules event_frames)

lemma handler_results:
  "writes_result (wt_id task) (ScrapeURL E S storage task)"
  "writes_result (wt_id task) (GenerateReport E storage task)"
  "writes_result (wt_id task) (ResizeImage E S storage task)"
  unfolding ScrapeURL_def GenerateReport_def ResizeImage_def Let_def
  by (intro result_rules writes_result_report fetch_frames; simp)+

text \<open>The tick never goes back.\<close>

lemma ticks_pass:
  "keeps (\<lambda>w. n \<le> tick w) (safe_get S url)" "keeps (\<lambda>w. n \<le> tick w) (time_now E)"
  "keeps (\<lambda>w. n \<le> tick w) (fetch_image S url)" "keeps (\<lambda>w. n \<le> tick w) (Upload E key ct body)"
  "keeps (\<lambda>w. n \<le> tick w) (Download E key)" "keeps (\<lambda>w. n \<le> tick w) (GetEventByID E i)"
  by (auto simp: keeps_def safe_get_def fetch_image_final Upload_def Download_def split: option.split prod.split)

lemma ticks_pass_save: "keeps (\<lambda>w. n \<le> tick w) (RepoUpdateEventResult E i r)"
  by (auto simp: keeps_def RepoUpdateEventResult_def UpdateEventResult_def db_exec_def split: option.split)

lemma handler_ticks:
  "keeps (\<lambda>w. n \<le> tick w) (ScrapeURL E S storage task)"
  "keeps (\<lambda>w. n \<le> tick w) (GenerateReport E storage task)"
  "keeps (\<lambda>w. n \<le> tick w) (ResizeImage E S storage task)"
  unfolding ScrapeURL_def scrape_page_def GenerateReport_def parentFileResultKey_def report_from_def ResizeImage_def
    store_file_def Let_def
  by (intro keeps_bind keeps_if keeps_case_sum keeps_case_prod keeps_return ticks_pass ticks_pass_save)+

interpretation scrape: worker_handler "ScrapeURL E S storage" for E S storage
  by unfold_locales (simp_all add: handler_frames handler_results handler_ticks)

interpretation report: worker_handler "GenerateReport E storage" for E storage
  by unfold_locales (simp_all add: handler_frames handler_results handler_ticks)

interpretation resize: worker_handler "ResizeImage E S storage" for E S storage
  by unfold_locales (simp_all add: handler_frames handler_results handler_ticks)

text \<open>The tables stay well-formed when a wrapped handler runs.\<close>

lemma ok_create_next [wf_intros]: "keeps db_ok (create_next E task nxt)"
  unfolding create_next_def enqueue_or_schedule_def by (intro wf_intros)

lemma ok_Wrap: "keeps db_ok (h task) \<Longrightarrow> keeps db_ok (Wrap E h task)"
  unfolding Wrap_def by (intro wf_intros)

lemmas ok_handlers [wf_intros] = ok_Wrap [OF scrape.keeps_ok] ok_Wrap [OF report.keeps_ok] ok_Wrap [OF resize.keeps_ok]

section \<open>The registered handlers\<close>

text \<open>The multiplexer of \<open>cmd/main.go\<close>: every handler is wrapped; other types have none.\<close>

definition task_handlers :: "env \<Rightarrow> 'i services \<Rightarrow> bool \<Rightarrow> (string \<times> 'x handler) list" where
  "task_handlers E S storage = [(''resize_image'', ResizeImage E S storage),
    (''scrape_url'', ScrapeURL E S storage), (''generate_report'', GenerateReport E storage)]"

definition mux :: "env \<Rightarrow> 'i services \<Rightarrow> bool \<Rightarrow> string \<Rightarrow> 'x handler option" where
  "mux E S storage task_type = map_option (Wrap E) (map_of (task_handlers E S storage) task_type)"

lemma registered:
  assumes "map_of (task_handlers E S storage) ty = Some h"
  shows "worker_handler h"
proof -
  have "h \<in> {ResizeImage E S storage, ScrapeURL E S storage, GenerateReport E storage}"
    using assms by (auto simp: task_handlers_def split: if_splits)
  then show ?thesis
    using scrape.worker_handler_axioms report.worker_handler_axioms resize.worker_handler_axioms by blast
qed

lemma mux_cases:
  assumes "mux E S storage ty = Some f"
  obtains h where "f = Wrap E h" "worker_handler h" "map_of (task_handlers E S storage) ty = Some h"
proof -
  obtain h where h: "map_of (task_handlers E S storage) ty = Some h" "f = Wrap E h"
    using assms by (auto simp: mux_def)
  show thesis using h registered [OF h(1)] by (intro that) auto
qed

lemma ok_mux: "mux E S storage ty = Some f \<Longrightarrow> keeps db_ok (f task)"
  by (elim mux_cases) (simp add: ok_Wrap worker_handler.keeps_ok)

end
