(* ===== verification/Server.thy ===== *)
theory Server
  imports Request_Log Admin_Handler Worker
begin

text \<open>
  \<open>cmd/server.go\<close>: the routes, and a request on its way through the middleware to its handler. The
  router (chi) is outside the repository: its patterns match segment by segment, a parameter any
  segment; it answers unmatched requests itself, and a panic with status 500.
\<close>

section \<open>Routes\<close>

datatype endpoint =
    EpHealth | EpMetrics
  | EpCreate | EpCancel string | EpResult string
  | EpStats | EpList | EpGet string | EpChildren string | EpRetries string | EpRetry string | EpRequeue string
  | EpDLQ | EpDLQRetry string | EpDLQRemove string | EpDepth | EpWorkers

text \<open>Method, pattern, and the endpoint for the value of the parameter.\<close>

definition routes :: "(string \<times> string \<times> (string \<Rightarrow> endpoint)) list" where
  "routes =
    [(''GET'', ''/health'', \<lambda>i. EpHealth),
     (''POST'', ''/tasks'', \<lambda>i. EpCreate),
     (''DELETE'', ''/tasks/{id}'', EpCancel),
     (''GET'', ''/tasks/{id}/result'', EpResult),
     (''GET'', ''/api/admin/dashboard/stats'', \<lambda>i. EpStats),
     (''GET'', ''/api/admin/tasks'', \<lambda>i. EpList),
     (''GET'', ''/api/admin/tasks/{id}'', EpGet),
     (''GET'', ''/api/admin/tasks/{id}/children'', EpChildren),
     (''GET'', ''/api/admin/tasks/{id}/retries'', EpRetries),
     (''POST'', ''/api/admin/tasks/{id}/retry'', EpRetry),
     (''POST'', ''/api/admin/tasks/{id}/requeue'', EpRequeue),
     (''GET'', ''/api/admin/dlq'', \<lambda>i. EpDLQ),
     (''POST'', ''/api/admin/dlq/{id}/retry'', EpDLQRetry),
     (''DELETE'', ''/api/admin/dlq/{id}'', EpDLQRemove),
     (''GET'', ''/api/admin/queue/depth'', \<lambda>i. EpDepth),
     (''GET'', ''/api/admin/workers/health'', \<lambda>i. EpWorkers)]
    @ map (\<lambda>m. (m, ''/metrics'', \<lambda>i. EpMetrics))
      [''GET'', ''POST'', ''PUT'', ''DELETE'', ''PATCH'', ''HEAD'', ''OPTIONS'', ''CONNECT'', ''TRACE'']"

text \<open>
  The value of the parameter when the segments match, the empty text when there is none. A
  parameter does not match an empty end of the path.
\<close>

fun match_path :: "string list \<Rightarrow> string list \<Rightarrow> string option" where
  "match_path [] [] = Some []"
| "match_path (p # ps) (s # ss) =
    (if p = ''{id}'' then (if s = [] \<and> ss = [] then None else map_option (\<lambda>_. s) (match_path ps ss))
     else if p = s then match_path ps ss else None)"
| "match_path _ _ = None"

definition path_param :: "string \<Rightarrow> string \<Rightarrow> string option" where
  "path_param pattern path = match_path (split_on (CHR ''/'') pattern) (split_on (CHR ''/'') path)"

datatype routed = RouteTo endpoint | NotFound | NotAllowed

definition route :: "string \<Rightarrow> string \<Rightarrow> routed" where
  "route m path =
    (case map_option (\<lambda>(m', pat, ep). ep (the (path_param pat path)))
        (find (\<lambda>(m', pat, ep). m' = m \<and> path_param pat path \<noteq> None) routes) of
       Some ep \<Rightarrow> RouteTo ep
     | None \<Rightarrow> if list_ex (\<lambda>(m', pat, ep). path_param pat path \<noteq> None) routes then NotAllowed else NotFound)"

section \<open>Handlers\<close>

text \<open>What the handlers are given at start-up, and what they use that is not in the repository.\<close>

record deployment =
  storage_ready :: bool
  float_text :: "string \<Rightarrow> string option"
  metrics_page :: http_response

definition health_page :: http_response where
  "health_page = \<lparr> rs_status = 200, rs_content_type = ''text/plain; charset=utf-8'',
    rs_body = ''hi there. Everything is a-ok'' \<rparr>"

definition serve :: "env \<Rightarrow> deployment \<Rightarrow> http_request \<Rightarrow> endpoint \<Rightarrow> ctx \<Rightarrow> ('x world_scheme, http_outcome) state" where
  "serve E D rq ep ctx = (case ep of
      EpHealth \<Rightarrow> answer (State_Monad.return health_page)
    | EpMetrics \<Rightarrow> answer (State_Monad.return (metrics_page D))
    | EpCreate \<Rightarrow> answer (HandleCreateTask E ctx (hr_body rq))
    | EpCancel i \<Rightarrow> answer (HandleCancelTask E ctx i)
    | EpResult i \<Rightarrow> HandleGetTaskResult E (float_text D) ctx (storage_ready D) i
    | EpStats \<Rightarrow> answer (HandleDashboardStats E ctx)
    | EpList \<Rightarrow> answer (HandleListTasks E ctx (hr_query rq))
    | EpGet i \<Rightarrow> answer (HandleGetTask E ctx i)
    | EpChildren i \<Rightarrow> answer (HandleGetTaskChildren E ctx i)
    | EpRetries i \<Rightarrow> answer (HandleGetTaskRetries E ctx i)
    | EpRetry i \<Rightarrow> answer (HandleRetryTask E ctx i)
    | EpRequeue i \<Rightarrow> answer (HandleRequeueTask E ctx i)
    | EpDLQ \<Rightarrow> answer (HandleListDLQ E ctx)
    | EpDLQRetry i \<Rightarrow> answer (HandleRetryDLQTask E ctx i)
    | EpDLQRemove i \<Rightarrow> answer (HandleRemoveDLQTask E ctx i)
    | EpDepth \<Rightarrow> answer (HandleQueueDepth E ctx)
    | EpWorkers \<Rightarrow> answer (HandleWorkerHealth E))"

section \<open>The way through the middleware\<close>

definition response_of :: "http_outcome \<Rightarrow> http_response" where
  "response_of r = (case r of Answer a \<Rightarrow> a
    | Panic m \<Rightarrow> \<lparr> rs_status = 500, rs_content_type = [], rs_body = [] \<rparr>)"

text \<open>The handlers send the header first and then the body, in one write.\<close>

definition written :: "http_response \<Rightarrow> write_call list" where
  "written a = WriteHeader (rs_status a) # (if rs_body a = [] then [] else [WriteBytes (length (rs_body a))])"

definition dispatch :: "env \<Rightarrow> deployment \<Rightarrow> http_request \<Rightarrow> ctx \<Rightarrow> ('x world_scheme, http_response) state" where
  "dispatch E D rq ctx = (case route (hr_method rq) (hr_path rq) of
      RouteTo ep \<Rightarrow> do { r \<leftarrow> serve E D rq ep ctx; State_Monad.return (response_of r) }
    | NotFound \<Rightarrow> State_Monad.return (http_error ''404 page not found'' 404)
    | NotAllowed \<Rightarrow> State_Monad.return \<lparr> rs_status = 405, rs_content_type = [], rs_body = [] \<rparr>)"

text \<open>How much of the body was read is the argument \<open>reads\<close>.\<close>

definition handle_request :: "env \<Rightarrow> deployment \<Rightarrow> http_request \<Rightarrow> string \<Rightarrow> nat list
    \<Rightarrow> ('x world_scheme, (string \<times> string) \<times> http_response \<times> write_call list \<times> (string \<times> log_value) list option) state" where
  "handle_request E D rq trace_id reads =
    TraceMiddleware trace_id (RequestLogger E rq (\<lambda>ctx. do {
      a \<leftarrow> dispatch E D rq ctx;
      State_Monad.return (a, written a, reads)
    })) Map.empty"

section \<open>Facts\<close>

lemma ok_answer [wf_intros]: "keeps P m \<Longrightarrow> keeps P (answer m)"
  unfolding answer_def by (intro keeps_bind keeps_return)

lemma ok_file_result [wf_intros]: "keeps db_ok (file_result E ctx storage i key)"
  unfolding file_result_def by (intro wf_intros)

lemma ok_cancel [wf_intros]: "keeps db_ok (HandleCancelTask E ctx i)"
  unfolding HandleCancelTask_def reject_def by (intro wf_intros)

lemma ok_result [wf_intros]: "keeps db_ok (HandleGetTaskResult E num ctx storage i)"
  unfolding HandleGetTaskResult_def by (intro wf_intros)

lemma ok_serve [wf_intros]: "keeps db_ok (serve E D rq ep ctx)"
  unfolding serve_def by (cases ep) (simp; intro wf_intros)+

text \<open>What the middleware adds: the context, a fresh log context and the line.\<close>

lemma handle_request_final:
  "final (handle_request E D rq trace_id reads) w
    = (let ctx = [MiddlewareKey ''trace_id'' \<mapsto> TextValue trace_id, MiddlewareKey ''log_context'' \<mapsto> LogPtr];
           w1 = w\<lparr> req_log := empty_log \<rparr>
       in if hr_path rq = ''/metrics'' \<or> hr_path rq = ''/health'' then final (dispatch E D rq ctx) w1
          else next_state (final (dispatch E D rq ctx) (next_state w1)))"
  by (simp add: handle_request_def TraceMiddleware_def RequestLogger_def Let_def)

text \<open>What the client gets, and what its handler did, for a request that has a route.\<close>

definition reply :: "env \<Rightarrow> deployment \<Rightarrow> http_request \<Rightarrow> string \<Rightarrow> nat list \<Rightarrow> 'x world_scheme \<Rightarrow> http_response" where
  "reply E D rq trace_id reads w = fst (snd (value_of (handle_request E D rq trace_id reads) w))"

lemma served:
  fixes w :: "'x world_scheme"
  assumes "route (hr_method rq) (hr_path rq) = RouteTo ep" "hr_path rq \<noteq> ''/metrics''" "hr_path rq \<noteq> ''/health''"
  obtains ctx and w1 :: "'x world_scheme" where "tables w1 = tables w" "tick w1 = Suc (tick w)"
    "reply E D rq trace_id reads w = response_of (value_of (serve E D rq ep ctx) w1)"
    "tables (final (handle_request E D rq trace_id reads) w) = tables (final (serve E D rq ep ctx) w1)"
    "tick (final (serve E D rq ep ctx) w1) < tick (final (handle_request E D rq trace_id reads) w)"
proof -
  define ctx where "ctx = [MiddlewareKey ''trace_id'' \<mapsto> TextValue trace_id, MiddlewareKey ''log_context'' \<mapsto> LogPtr]"
  define w1 where "w1 = next_state (w\<lparr> req_log := empty_log \<rparr>)"
  show thesis
  proof (rule that [of w1 ctx])
    show "reply E D rq trace_id reads w = response_of (value_of (serve E D rq ep ctx) w1)"
      "tables (final (handle_request E D rq trace_id reads) w) = tables (final (serve E D rq ep ctx) w1)"
      "tick (final (serve E D rq ep ctx) w1) < tick (final (handle_request E D rq trace_id reads) w)"
      using assms by (simp_all add: reply_def handle_request_def TraceMiddleware_def RequestLogger_def dispatch_def
          Let_def ctx_def w1_def split_def)
  qed (simp_all add: w1_def)
qed

text \<open>A submission.\<close>

definition submission :: "http_request \<Rightarrow> bytes \<Rightarrow> bool" where
  "submission rq body \<longleftrightarrow> hr_method rq = ''POST'' \<and> hr_path rq = ''/tasks'' \<and> hr_body rq = body"

lemma route_tasks: "route ''POST'' ''/tasks'' = RouteTo EpCreate"
  by code_simp

lemma submission_served:
  fixes w :: "'x world_scheme"
  assumes "submission rq body"
  obtains ctx and w1 :: "'x world_scheme" where "tables w1 = tables w" "tick w1 = Suc (tick w)"
    "reply E D rq trace_id reads w = value_of (HandleCreateTask E ctx body) w1"
    "tables (final (handle_request E D rq trace_id reads) w) = tables (final (HandleCreateTask E ctx body) w1)"
    "tick (final (HandleCreateTask E ctx body) w1) < tick (final (handle_request E D rq trace_id reads) w)"
proof -
  have r: "route (hr_method rq) (hr_path rq) = RouteTo EpCreate" "hr_path rq \<noteq> ''/metrics''" "hr_path rq \<noteq> ''/health''"
    using assms by (simp_all add: submission_def route_tasks)
  show thesis
    by (rule served [OF r, of w E D trace_id reads], rule that)
      (use assms in \<open>simp_all add: serve_def answer_def response_of_def submission_def\<close>)
qed

end
