(* ===== verification/System.thy ===== *)
theory System
  imports Server
begin

text \<open>
  The running platform as a transition system: requests, task runs of the worker pool and its store
  operations, in any order, on one state. Handlers run one after the other here; Interleaving lets them
  overlap.
\<close>

section \<open>Rows are never lost\<close>

text \<open>What of a row never changes: all but status, result and the time of the last change.\<close>

definition row_core :: "event \<Rightarrow> string \<times> string \<times> string \<times> int option \<times> string \<times> string option \<times> string option \<times> int option" where
  "row_core e = (ev_id e, ev_type e, ev_payload e, ev_created_at e, ev_trace_id e, ev_priority e, ev_parentid e,
    ev_scheduled_at e)"

definition rows_kept :: "'x db_scheme \<Rightarrow> 'y db_scheme \<Rightarrow> bool" where
  "rows_kept w w' \<longleftrightarrow> (\<exists>cs. map row_core (events w') = map row_core (events w) @ cs)"

lemma rows_kept_refl [simp]: "rows_kept w w"
  by (simp add: rows_kept_def)

lemma rows_kept_trans: "rows_kept w w' \<Longrightarrow> rows_kept w' w'' \<Longrightarrow> rows_kept w w''"
  by (auto simp: rows_kept_def)

definition grows :: "('x world_scheme, 'a) state \<Rightarrow> bool" where
  "grows m \<longleftrightarrow> (\<forall>w. rows_kept w (final m w))"

named_theorems grow_rules \<open>programs that keep every row\<close>

lemma growsD: "grows m \<Longrightarrow> rows_kept w (final m w)"
  by (simp add: grows_def)

lemma grows_frame: "frames events m \<Longrightarrow> grows m"
  by (simp add: grows_def rows_kept_def frames_def)

lemma grows_return [grow_rules]: "grows (State_Monad.return a)"
  by (simp add: grows_def)

lemma grows_get [grow_rules]: "grows State_Monad.get"
  by (simp add: grows_def)

lemma grows_bind [grow_rules]: "grows m \<Longrightarrow> (\<And>a. grows (f a)) \<Longrightarrow> grows (State_Monad.bind m f)"
  using rows_kept_trans by (simp add: grows_def) blast

lemma grows_if [grow_rules]: "grows m \<Longrightarrow> grows m' \<Longrightarrow> grows (if b then m else m')"
  by simp

lemma grows_sum [grow_rules]:
  "(\<And>e. grows (f e)) \<Longrightarrow> (\<And>a. grows (g a)) \<Longrightarrow> grows (case r of Inl e \<Rightarrow> f e | Inr a \<Rightarrow> g a)"
  by (simp split: sum.split)

lemma grows_option [grow_rules]:
  "grows m \<Longrightarrow> (\<And>a. grows (g a)) \<Longrightarrow> grows (case r of None \<Rightarrow> m | Some a \<Rightarrow> g a)"
  by (simp split: option.split)

lemma grows_prod [grow_rules]: "(\<And>a b. grows (f a b)) \<Longrightarrow> grows (case r of (a, b) \<Rightarrow> f a b)"
  by (simp split: prod.split)

lemma grows_answer [grow_rules]: "grows m \<Longrightarrow> grows (answer m)"
  unfolding answer_def by (intro grow_rules)

lemma row_core_rewrites [simp]:
  "row_core (cancel_row now e) = row_core e" "row_core (reset_row now e) = row_core e"
  "row_core (status_row now st e) = row_core e" "row_core (result_row now r e) = row_core e"
  by (simp_all add: row_core_def cancel_row_def reset_row_def status_row_def result_row_def stamp_def)

lemma update_core: "(\<And>e. row_core (f e) = row_core e) \<Longrightarrow> map row_core (update_rows P f es) = map row_core es"
  by (rule map_update_rows)

text \<open>The statements.\<close>

lemma rows_kept_tick [simp]: "rows_kept (w\<lparr> tick := n \<rparr>) w' = rows_kept w w'" "rows_kept w (w'\<lparr> tick := n \<rparr>) = rows_kept w w'"
  by (simp_all add: rows_kept_def)

lemma grows_exec:
  assumes "\<And>now w a w'. f now w = Inr (a, w') \<Longrightarrow> rows_kept w w'"
  shows "grows (db_exec E f)"
  by (auto simp: grows_def db_exec_def dest: assms split: sum.split option.split)

lemma grows_statements [grow_rules]:
  "grows (CancelEventIfPending E i)" "grows (ResetTaskForRetry E i)" "grows (UpdateEventResult E i r)"
  "grows (UpdateEventStatus E i st)" "grows (InsertEvent E p)" "grows (UpsertDeliveryLog E u)"
  "grows (CreateIdempotencyKey E k)" "grows (DeleteExpiredIdempotencyKeys E)"
  unfolding statements
  by (rule grows_exec; auto simp: rows_kept_def update_core split: if_splits option.splits)+

lemmas grows_services [grow_rules] = event_frames [THEN grows_frame] event_key_frames [THEN grows_frame]
  respond_frames(3,4) [THEN grows_frame]

lemma grows_update [grow_rules]: "(\<And>w. events (f w) = events w) \<Longrightarrow> grows (State_Monad.update f)"
  by (simp add: grows_def rows_kept_def)

lemma grows_repository [grow_rules]:
  "grows (SaveProcessedEvent E i ty pl st tr pr pa sch)" "grows (RepoUpdateEventStatus E i x)"
  "grows (RepoUpdateEventResult E i r)" "grows (CancelTask E i)" "grows (AdminResetTaskForRetry E i)"
  "grows (UpdateStatus E i x)" "grows (RecordAttempt E i x att err)" "grows (CleanupExpired E)" "grows (GetTask E i)"
  "grows (GetChildTasks E i)" "grows (GetStatusCounts E)" "grows (GetRetryHistory E i)" "grows (AdminListEvents E p)"
  unfolding SaveProcessedEvent_def RepoUpdateEventStatus_def RepoUpdateEventResult_def CancelTask_def
    AdminResetTaskForRetry_def UpdateStatus_def RecordAttempt_def LogDeliveryStatus_def CleanupExpired_def GetTask_def
    GetChildTasks_def GetStatusCounts_def GetRetryHistory_def AdminListEvents_def Let_def
  by (intro grow_rules)+

lemma grows_parts [grow_rules]:
  "grows (execute_in_past E t)" "grows (still_due E t)" "grows (HealthStats E)" "grows (reject E ctx step st err)"
  "grows (enqueue_or_schedule E i p ex)" "grows (enqueue_answer E ctx i p)"
  "grows (file_result E ctx storage i key)"
  unfolding execute_in_past_def still_due_def HealthStats_def reject_def enqueue_or_schedule_def enqueue_answer_def
    file_result_def
  by (intro grow_rules)+

lemma grows_found [grow_rules]: "grows (found_tasks E is)"
  by (induction "is") (simp_all add: grow_rules)

text \<open>The handlers.\<close>

lemma grows_serve [grow_rules]: "grows (serve E D rq ep ctx)"
  unfolding serve_def HandleCreateTask_def create_validated_def create_stored_def create_check_def create_persist_def
    create_enqueue_def HandleCancelTask_def HandleGetTaskResult_def HandleDashboardStats_def HandleListTasks_def
    HandleGetTask_def HandleGetTaskChildren_def HandleGetTaskRetries_def HandleRetryTask_def reset_and_enqueue_def
    HandleRequeueTask_def HandleListDLQ_def HandleRetryDLQTask_def HandleRemoveDLQTask_def HandleQueueDepth_def
    HandleWorkerHealth_def Let_def
  by (cases ep) (simp only: endpoint.case; intro grow_rules)+

lemma grows_request [grow_rules]: "grows (handle_request E D rq trace_id reads)"
  unfolding handle_request_def TraceMiddleware_def RequestLogger_def dispatch_def Let_def
  by (intro grow_rules; simp add: grow_rules split: routed.split)

lemma grows_writes_result: "writes_result i m \<Longrightarrow> grows m"
  by (auto simp: grows_def writes_result_def result_written_def rows_kept_def) (metis append_Nil2 update_core row_core_rewrites(4))

lemma grows_create_next [grow_rules]: "grows (create_next E task nxt)"
  unfolding create_next_def by (intro grow_rules)

lemma grows_Wrap: "grows (h task) \<Longrightarrow> grows (Wrap E h task)"
  unfolding Wrap_def by (intro grow_rules)

lemma grows_mux: "mux E S storage ty = Some f \<Longrightarrow> grows (f task)"
  by (elim mux_cases) (metis grows_Wrap grows_writes_result worker_handler.own_result)

section \<open>What is queued is stored\<close>

definition stored :: "string \<Rightarrow> 'x db_scheme \<Rightarrow> bool" where
  "stored i w \<longleftrightarrow> i \<in> ev_id ` set (events w)"

definition call_stored :: "queue_call \<Rightarrow> 'x db_scheme \<Rightarrow> bool" where
  "call_stored c w \<longleftrightarrow> (case c of EnqueueCall i p r \<Rightarrow> stored i w | ScheduleCall i p at r \<Rightarrow> stored i w | _ \<Rightarrow> True)"

definition queue_ok :: "'x world_scheme \<Rightarrow> bool" where
  "queue_ok w \<longleftrightarrow> (\<forall>c\<in>set (queue_log w). call_stored c w)"

lemma stored_kept: "rows_kept w w' \<Longrightarrow> stored i w \<Longrightarrow> stored i w'"
proof -
  assume "rows_kept w w'" "stored i w"
  then obtain cs where "map row_core (events w') = map row_core (events w) @ cs" by (auto simp: rows_kept_def)
  then have "map fst (map row_core (events w')) = map fst (map row_core (events w)) @ map fst cs" by simp
  then have "map ev_id (events w') = map ev_id (events w) @ map fst cs" by (simp add: comp_def row_core_def)
  then have "ev_id ` set (events w) \<subseteq> ev_id ` set (events w')" by (metis list.set_map set_append sup_ge1)
  then show ?thesis using \<open>stored i w\<close> by (auto simp: stored_def)
qed

lemma call_stored_kept: "rows_kept w w' \<Longrightarrow> call_stored c w \<Longrightarrow> call_stored c w'"
  using stored_kept by (auto simp: call_stored_def split: queue_call.splits)

text \<open>\<open>enqueues i m\<close>: where \<open>i\<close> is stored, \<open>m\<close> keeps the queue in order.\<close>

definition enqueues :: "string \<Rightarrow> ('x world_scheme, 'a) state \<Rightarrow> bool" where
  "enqueues i m \<longleftrightarrow> (\<forall>w. stored i w \<longrightarrow> queue_ok w \<longrightarrow> queue_ok (final m w))"

named_theorems queue_rules \<open>programs that queue stored tasks only\<close>

lemma quiet_queue: "frames queue_log m \<Longrightarrow> grows m \<Longrightarrow> keeps queue_ok m"
  by (auto simp: keeps_def queue_ok_def frames_def grows_def intro: call_stored_kept)

lemma enqueues_keeps: "keeps queue_ok m \<Longrightarrow> enqueues i m"
  by (simp add: enqueues_def keeps_def)

lemma enqueues_bind:
  "grows m \<Longrightarrow> enqueues i m \<Longrightarrow> (\<And>a. enqueues i (f a)) \<Longrightarrow> enqueues i (State_Monad.bind m f)"
  using stored_kept by (simp add: enqueues_def grows_def) blast

lemma enqueues_sum: "(\<And>e. enqueues i (f e)) \<Longrightarrow> (\<And>a. enqueues i (g a)) \<Longrightarrow>
    enqueues i (case r of Inl e \<Rightarrow> f e | Inr a \<Rightarrow> g a)"
  by (simp split: sum.split)

lemma log_queue_ok: "queue_ok w \<Longrightarrow> call_stored c w \<Longrightarrow> queue_ok (log_call c (next_state w))"
  by (auto simp: queue_ok_def log_call_def call_stored_def stored_def split: queue_call.splits)

lemma enqueues_calls [queue_rules]:
  "enqueues i (EnqueueWithPriority E i p)" "enqueues i (Schedule E i p at)"
  by (simp_all add: enqueues_def log_queue_ok call_stored_def)

lemma enqueues_submit [queue_rules]: "enqueues i (enqueue_or_schedule E i p ex)"
  unfolding enqueue_or_schedule_def by (cases ex) (simp_all add: queue_rules)

text \<open>A row that was found or saved is stored.\<close>

lemma stored_lookup: "stored i w \<longleftrightarrow> lookup w i \<noteq> None"
  by (auto simp: stored_def lookup_None)

lemma keeps_queue_found:
  assumes "frames queue_log m" "grows m" "\<And>w a. value_of m w = Inr a \<Longrightarrow> stored i (final m w)"
    "\<And>e. keeps queue_ok (f e)" "\<And>a. enqueues i (g a)"
  shows "keeps queue_ok (State_Monad.bind m (\<lambda>r. case r of Inl e \<Rightarrow> f e | Inr a \<Rightarrow> g a))"
proof (rule keepsI)
  fix w :: "'a world_scheme"
  assume "queue_ok w"
  then have q: "queue_ok (final m w)" using quiet_queue [OF assms(1,2)] by (simp add: keeps_def)
  show "queue_ok (final (State_Monad.bind m (\<lambda>r. case r of Inl e \<Rightarrow> f e | Inr a \<Rightarrow> g a)) w)"
  proof (cases "value_of m w")
    case (Inl e)
    then show ?thesis using q assms(4) [of e] by (simp add: keeps_def)
  next
    case (Inr a)
    then show ?thesis using q assms(3) [OF Inr] assms(5) [of a] by (simp add: enqueues_def)
  qed
qed

lemma found_stored:
  "value_of (GetEventByID E i) w = Inr e \<Longrightarrow> stored i (final (GetEventByID E i) w)"
  using get_event_Inr [of E i w e] by (simp add: stored_lookup)

lemma saved_stored:
  "value_of (SaveProcessedEvent E i ty pl st tr pr pa sch) w = Inr u
    \<Longrightarrow> stored i (final (SaveProcessedEvent E i ty pl st tr pr pa sch) w)"
  using save_lookup [of E i ty pl st tr pr pa sch w i] by (simp add: stored_lookup)

lemma reset_stored:
  fixes w :: "'x world_scheme"
  assumes "value_of (AdminResetTaskForRetry E i) w = Inr p"
  shows "stored i (final (AdminResetTaskForRetry E i) w)"
proof -
  have a: "answers E w" using assms by (rule reset_Inr)
  have "stored i w"
  proof (rule ccontr)
    assume "\<not> stored i w"
    then have "find (retryable_row i) (events w) = None"
      by (auto simp: stored_def find_None_iff retryable_row_def)
    then show False using assms a by (simp add: AdminResetTaskForRetry_def ResetTaskForRetry_def)
  qed
  then show ?thesis by (rule stored_kept [OF growsD [OF grows_repository(5)]])
qed

text \<open>The handlers that queue.\<close>

lemma enqueues_answer [queue_rules]: "enqueues i (enqueue_answer E ctx i p)"
  unfolding enqueue_answer_def
  by (intro enqueues_bind enqueues_sum queue_rules grow_rules enqueues_keeps quiet_queue respond_frames)

lemma queue_reset: "keeps queue_ok (reset_and_enqueue E ctx i)"
  unfolding reset_and_enqueue_def
  by (rule keeps_queue_found) (auto intro: queue_rules grow_rules frame quiet_queue reset_stored)

lemma queue_create_enqueue: "enqueues i (create_enqueue E ctx req i)"
  unfolding create_enqueue_def
  by (intro enqueues_bind enqueues_sum queue_rules grow_rules enqueues_keeps quiet_queue frame)

lemma queue_tick: "keeps queue_ok next_tick" "keeps queue_ok (with_log ctx f)" "keeps queue_ok (AddEvent E ctx step st err)"
  by (intro quiet_queue frame grow_rules)+

lemma queue_reject: "keeps queue_ok (reject E ctx step st err)"
  unfolding reject_def by (intro keeps_bind queue_tick quiet_queue frame grow_rules)

lemma queue_save:
  assumes "\<And>e. keeps queue_ok (f e)" "\<And>u. enqueues i (g u)"
  shows "keeps queue_ok (State_Monad.bind (SaveProcessedEvent E i ty pl st tr pr pa sch)
    (\<lambda>r. case r of Inl e \<Rightarrow> f e | Inr u \<Rightarrow> g u))"
  by (rule keeps_queue_found [OF _ _ saved_stored assms]) (intro frame grow_rules)+

lemma queue_create_next: "keeps queue_ok (create_next E task nxt)"
  unfolding create_next_def
  by (intro keeps_bind keeps_case_option keeps_return queue_tick queue_save enqueues_bind queue_rules
      enqueues_keeps grow_rules)

lemma queue_create_persist: "keeps queue_ok (create_persist E ctx req key)"
  unfolding create_persist_def Let_def
  by (intro keeps_bind keeps_case_option queue_tick queue_save queue_reject enqueues_bind enqueues_sum
      enqueues_keeps [OF queue_reject] enqueues_keeps [OF quiet_queue] queue_create_enqueue grow_rules frame)

lemma queue_logged: "keeps queue_ok (RemoveFromDLQ E i)" "keeps queue_ok (GetQueueDepths E)" "keeps queue_ok (GetDLQItems E)"
  by (simp_all add: keeps_def log_queue_ok call_stored_def GetQueueDepths_def GetDLQItems_def)

text \<open>Those that only read and answer are quiet.\<close>

lemma quiet_parts [frame]:
  "frames queue_log (execute_in_past E t)" "frames queue_log (still_due E t)" "frames queue_log (HealthStats E)"
  "frames queue_log (GetStatusCounts E)" "frames queue_log (AdminListEvents E p)" "frames queue_log (GetChildTasks E i)"
  "frames queue_log (GetRetryHistory E i)" "frames queue_log (file_result E ctx storage i key)"
  unfolding execute_in_past_def still_due_def HealthStats_def GetStatusCounts_def AdminListEvents_def GetChildTasks_def
    GetRetryHistory_def file_result_def Let_def
  by (intro frame)+

lemma quiet_found [frame]: "frames queue_log (found_tasks E is)"
  by (induction "is") (simp_all add: frame)

lemma quiet_answer [frame]: "frames queue_log m \<Longrightarrow> frames queue_log (answer m)"
  unfolding answer_def by (intro frame)

lemma queue_check: "keeps queue_ok (create_check E ctx req)"
  unfolding create_check_def
  by (intro keeps_bind keeps_case_sum keeps_case_prod keeps_if keeps_return queue_tick queue_reject quiet_queue frame grow_rules)

lemma queue_create: "keeps queue_ok (HandleCreateTask E ctx body)"
  unfolding HandleCreateTask_def create_validated_def create_stored_def Let_def
  by (intro keeps_bind keeps_case_sum keeps_case_option keeps_case_prod keeps_if keeps_return queue_reject
      queue_check queue_create_persist | intro quiet_queue frame grow_rules)+

lemma queue_quiet_handlers:
  "keeps queue_ok (HandleCancelTask E ctx i)" "keeps queue_ok (HandleGetTaskResult E num ctx storage i)"
  "keeps queue_ok (HandleListTasks E ctx q)"
  "keeps queue_ok (HandleGetTask E ctx i)" "keeps queue_ok (HandleGetTaskChildren E ctx i)"
  "keeps queue_ok (HandleGetTaskRetries E ctx i)" "keeps queue_ok (HandleWorkerHealth E)"
  unfolding HandleCancelTask_def HandleGetTaskResult_def HandleListTasks_def HandleGetTask_def
    HandleGetTaskChildren_def HandleGetTaskRetries_def HandleWorkerHealth_def reject_def Let_def
  by (intro quiet_queue; (intro frame grow_rules; simp))+

lemma queue_handlers:
  "keeps queue_ok (HandleRetryTask E ctx i)" "keeps queue_ok (HandleRetryDLQTask E ctx i)"
  "keeps queue_ok (HandleRemoveDLQTask E ctx i)" "keeps queue_ok (HandleListDLQ E ctx)"
  "keeps queue_ok (HandleQueueDepth E ctx)" "keeps queue_ok (HandleDashboardStats E ctx)"
  unfolding HandleDashboardStats_def HandleRetryTask_def HandleRetryDLQTask_def HandleRemoveDLQTask_def HandleListDLQ_def HandleQueueDepth_def
  by (intro keeps_bind keeps_case_sum keeps_if queue_logged queue_reset | (intro quiet_queue frame grow_rules; simp))+

lemma enqueues_option: "enqueues i m \<Longrightarrow> (\<And>a. enqueues i (g a)) \<Longrightarrow> enqueues i (case r of None \<Rightarrow> m | Some a \<Rightarrow> g a)"
  by (simp split: option.split)

lemma enqueues_if: "enqueues i m \<Longrightarrow> enqueues i m' \<Longrightarrow> enqueues i (if b then m else m')"
  by simp

lemma queue_requeue: "keeps queue_ok (HandleRequeueTask E ctx i)"
  unfolding HandleRequeueTask_def Let_def
  by (intro keeps_if keeps_queue_found [where i = i] found_stored enqueues_if enqueues_bind enqueues_option enqueues_sum
      queue_rules grow_rules; (intro enqueues_keeps)?; (intro quiet_queue frame grow_rules)?; simp?)

lemma queue_answer: "keeps queue_ok m \<Longrightarrow> keeps queue_ok (answer m)"
  unfolding answer_def by (intro keeps_bind keeps_return)

lemma queue_serve: "keeps queue_ok (serve E D rq ep ctx)"
  unfolding serve_def
  by (cases ep) (simp only: endpoint.case;
      intro queue_answer queue_create queue_quiet_handlers queue_handlers queue_requeue keeps_return)+

lemma queue_request: "keeps queue_ok (handle_request E D rq trace_id reads)"
proof -
  have upd: "keeps queue_ok (State_Monad.update (\<lambda>w. w\<lparr> req_log := empty_log \<rparr>))"
    by (simp add: keeps_def queue_ok_def call_stored_def stored_def split: queue_call.split)
  have now: "keeps queue_ok (time_now E)" by (intro quiet_queue frame grow_rules)
  have disp: "keeps queue_ok (dispatch E D rq ctx)" for ctx
    unfolding dispatch_def by (auto intro: keeps_bind keeps_return queue_serve split: routed.split)
  show ?thesis
    unfolding handle_request_def TraceMiddleware_def RequestLogger_def Let_def
    by (intro keeps_bind keeps_if keeps_return keeps_get keeps_case_prod upd now disp)
qed

lemma queue_Wrap: "keeps queue_ok (h task) \<Longrightarrow> keeps queue_ok (Wrap E h task)"
  unfolding Wrap_def by (intro keeps_bind keeps_case_option keeps_if keeps_case_prod keeps_return queue_create_next)

lemma queue_mux: "mux E S storage ty = Some f \<Longrightarrow> keeps queue_ok (f task)"
  by (elim mux_cases)
    (metis queue_Wrap quiet_queue grows_writes_result worker_handler.own_result worker_handler.no_queue_call)

section \<open>Steps\<close>

text \<open>
  A request with its trace identifier and the sizes of the reads of its body; a run of a stored
  task by the worker pool; what else the pool does through its store.
\<close>

datatype action =
    Request http_request string "nat list"
  | RunTask string
  | SetStatus string string
  | Attempt string string int string

inductive step :: "env \<Rightarrow> deployment \<Rightarrow> 'i services \<Rightarrow> 'x world_scheme \<Rightarrow> action \<Rightarrow> 'x world_scheme \<Rightarrow> bool"
  for E D S where
  request: "step E D S w (Request rq trace_id reads) (final (handle_request E D rq trace_id reads) w)"
| run_task: "value_of (GetTask E i) w = Inr task \<Longrightarrow> mux E S (storage_ready D) (wt_type task) = Some f \<Longrightarrow>
    step E D S w (RunTask i) (final (f task) (final (GetTask E i) w))"
| set_status: "step E D S w (SetStatus i st) (final (UpdateStatus E i st) w)"
| attempt: "step E D S w (Attempt i st n err) (final (RecordAttempt E i st n err) w)"

inductive_cases step_cases: "step E D S w a w'"

inductive_simps step_simps:
  "step E D S w (Request rq trace_id reads) w'" "step E D S w (RunTask i) w'"
  "step E D S w (SetStatus i st) w'" "step E D S w (Attempt i st n err) w'"

text \<open>The same as a function: a task that cannot be read or has no handler is not run.\<close>

definition perform :: "env \<Rightarrow> deployment \<Rightarrow> 'i services \<Rightarrow> action \<Rightarrow> 'x world_scheme \<Rightarrow> 'x world_scheme option" where
  "perform E D S a w = (case a of
      Request rq trace_id reads \<Rightarrow> Some (final (handle_request E D rq trace_id reads) w)
    | RunTask i \<Rightarrow> (case value_of (GetTask E i) w of
        Inl e \<Rightarrow> None
      | Inr task \<Rightarrow> map_option (\<lambda>f. final (f task) (final (GetTask E i) w)) (mux E S (storage_ready D) (wt_type task)))
    | SetStatus i st \<Rightarrow> Some (final (UpdateStatus E i st) w)
    | Attempt i st n err \<Rightarrow> Some (final (RecordAttempt E i st n err) w))"

lemma step_perform: "step E D S w a w' \<longleftrightarrow> perform E D S a w = Some w'"
  by (cases a) (auto simp: step_simps perform_def split: sum.splits)

inductive steps :: "env \<Rightarrow> deployment \<Rightarrow> 'i services \<Rightarrow> 'x world_scheme \<Rightarrow> action list \<Rightarrow> 'x world_scheme \<Rightarrow> bool"
  for E D S where
  done_steps: "steps E D S w [] w"
| more_steps: "step E D S w a w' \<Longrightarrow> steps E D S w' as w'' \<Longrightarrow> steps E D S w (a # as) w''"

inductive_simps steps_simps [simp]: "steps E D S w [] w'" "steps E D S w (a # as) w'"

lemma steps_append: "steps E D S w (as @ bs) w' \<longleftrightarrow> (\<exists>u. steps E D S w as u \<and> steps E D S u bs w')"
  by (induction as arbitrary: w) auto

lemma grows_step: "step E D S w a w' \<Longrightarrow> rows_kept w w'"
  by (erule step_cases)
    (simp_all add: growsD grows_request grows_repository rows_kept_trans [OF growsD [OF grows_repository(9)] growsD [OF grows_mux]])

lemma quiet_store: "frames queue_log (GetTask E i)" "frames queue_log (UpdateStatus E i st)"
  "frames queue_log (RecordAttempt E i st n err)"
proof -
  show "frames queue_log (GetTask E i)" "frames queue_log (UpdateStatus E i st)"
    unfolding GetTask_def UpdateStatus_def by (intro frame)+
  show "frames queue_log (RecordAttempt E i st n err)"
    unfolding RecordAttempt_def LogDeliveryStatus_def by (intro frame statement_frames(8)) simp_all
qed

lemma queue_store: "keeps queue_ok (GetTask E i)" "keeps queue_ok (UpdateStatus E i st)" "keeps queue_ok (RecordAttempt E i st n err)"
  by (intro quiet_queue quiet_store grow_rules)+

lemma queue_step: "step E D S w a w' \<Longrightarrow> queue_ok w \<Longrightarrow> queue_ok w'"
  by (erule step_cases) (auto intro: keepsD queue_request queue_store queue_mux)

lemma ok_request: "keeps db_ok (handle_request E D rq trace_id reads)"
proof -
  have "keeps db_ok (dispatch E D rq ctx)" for ctx
    unfolding dispatch_def by (auto intro: keeps_bind keeps_return ok_serve split: routed.split)
  moreover have "keeps db_ok (State_Monad.update (\<lambda>w. w\<lparr> req_log := empty_log \<rparr>))" by (simp add: keeps_def)
  ultimately show ?thesis
    unfolding handle_request_def TraceMiddleware_def RequestLogger_def Let_def by (intro wf_intros; simp)
qed

lemma ok_step: "step E D S w a w' \<Longrightarrow> db_ok w \<Longrightarrow> db_ok w'"
  by (erule step_cases) (auto intro: keepsD ok_request ok_repository ok_mux)

text \<open>The states the platform can be in, started on any well-formed tables.\<close>

definition initial :: "'x world_scheme \<Rightarrow> bool" where
  "initial w \<longleftrightarrow> db_ok w \<and> queue_log w = []"

definition reachable :: "env \<Rightarrow> deployment \<Rightarrow> 'i services \<Rightarrow> 'x world_scheme \<Rightarrow> bool" where
  "reachable E D S w \<longleftrightarrow> (\<exists>w0 as. initial w0 \<and> steps E D S w0 as w)"

lemma steps_invariant:
  assumes "\<And>w a w'. step E D S w a w' \<Longrightarrow> P w \<Longrightarrow> P w'"
  shows "steps E D S w as w' \<Longrightarrow> P w \<Longrightarrow> P w'"
  by (induction rule: steps.induct) (auto intro: assms)

lemma reachable_invariant:
  assumes "reachable E D S w" "\<And>w. initial w \<Longrightarrow> P w" "\<And>w a w'. step E D S w a w' \<Longrightarrow> P w \<Longrightarrow> P w'"
  shows "P w"
proof -
  obtain w0 as where "initial w0" "steps E D S w0 as w" using assms(1) by (auto simp: reachable_def)
  then show ?thesis using steps_invariant [of E D S P w0 as w] assms(2,3) by blast
qed

lemma initial_ok: "initial w \<Longrightarrow> db_ok w \<and> queue_ok w"
  by (simp add: initial_def queue_ok_def)

lemma steps_kept: "steps E D S w as w' \<Longrightarrow> rows_kept w w'"
  by (induction rule: steps.induct) (auto intro: rows_kept_trans dest: grows_step)

end
