(* ===== verification/Interleaving.thy ===== *)
theory Interleaving
  imports Threads System
begin

text \<open>
  The handlers as threads: the same code as in Task_Handler, Admin_Handler, Server, Chaining and the
  task handlers, cut at every access to the tables, the queue and the object store. Clock readings,
  fresh identifiers and fetches of pages touch nothing another thread can see; where they are
  grouped with an access, it is the access that counts. A handler with at most one access is a
  thread of one turn.

  Main result: a thread run without interruption is the handler, so \<open>step\<close> is the special case in
  which nobody overlaps.
\<close>

section \<open>Submission\<close>

definition create_enqueue_thread :: "env \<Rightarrow> ctx \<Rightarrow> task_request \<Rightarrow> string \<Rightarrow> ('x world_scheme, http_response) prog" where
  "create_enqueue_thread E ctx req i = Then (enqueue_or_schedule E i (tr_priority req) (tr_execute_at req)) (\<lambda>r.
    case r of
      Inl err \<Rightarrow> Then (AddEvent E ctx ''failed_enqueue'' ''failed'' (Some err)) (\<lambda>_.
        Then (with_log ctx (\<lambda>l. l\<lparr> lc_status := ''failed'' \<rparr>)) (\<lambda>_.
        Then (RepoUpdateEventStatus E i ''failed'') (\<lambda>_.
        atomic (RespondWithError ctx 500 err))))
    | Inr _ \<Rightarrow> atomic (RespondWithJSON 200 (accepted_json i (tr_execute_at req))))"

definition create_persist_thread :: "env \<Rightarrow> ctx \<Rightarrow> task_request \<Rightarrow> string \<Rightarrow> ('x world_scheme, http_response) prog" where
  "create_persist_thread E ctx req0 key = Then next_tick (\<lambda>t.
    let i = new_uuid E t; req = set_trace (traceparent E t) req0 in
    Then (with_log ctx (\<lambda>l. l\<lparr> lc_event_id := i \<rparr>)) (\<lambda>_.
    case marshal_request req of
      None \<Rightarrow> atomic (reject E ctx ''failed_marshalling'' 500 (ErrorString ''json: error calling MarshalJSON''))
    | Some full \<Rightarrow>
        Then (SaveProcessedEvent E i (tr_type req) full ''pending'' (ctx_trace_id ctx)
          (tr_priority req) [] (tr_execute_at req)) (\<lambda>r.
        case r of
          Inl err \<Rightarrow> atomic (reject E ctx ''failed_db_saving'' 500 err)
        | Inr _ \<Rightarrow>
            Then (CheckAndRecordToDB E key i (Some \<lparr> md_command = tr_type req, md_source = ''api'' \<rparr>)) (\<lambda>r.
            case r of
              Inl err \<Rightarrow> atomic (reject E ctx ''failed_db_inserting'' 500 err)
            | Inr already \<Rightarrow> create_enqueue_thread E ctx req i))))"

text \<open>The idempotency check reads one row.\<close>

definition create_stored_thread :: "env \<Rightarrow> ctx \<Rightarrow> task_request \<Rightarrow> ('x world_scheme, http_response) prog" where
  "create_stored_thread E ctx req = Then (create_check E ctx req) (\<lambda>r.
    case r of Inl a \<Rightarrow> Done a | Inr key \<Rightarrow> create_persist_thread E ctx req key)"

definition create_validated_thread :: "env \<Rightarrow> ctx \<Rightarrow> task_request \<Rightarrow> ('x world_scheme, http_response) prog" where
  "create_validated_thread E ctx req =
    (if tr_type req = [] then atomic (reject E ctx ''request_type_empty'' 400 (ErrorString ''missing type''))
     else if tr_type req = ''generate_report'' then
       atomic (reject E ctx ''generate_report_direct_submit'' 400 direct_report_error)
     else if tr_payload req = [] then
       atomic (reject E ctx ''request_payload_empty'' 400 (ErrorString ''missing payload''))
     else Then (execute_in_past E (tr_execute_at req)) (\<lambda>past.
       if past then
         atomic (reject E ctx ''past_executes_at_time'' 400 (ErrorString ''execute_at must be in the future''))
       else
         (let req = default_priority req in
          case Validate (tr_type req) (tr_payload req) of
            Some err \<Rightarrow> atomic (reject E ctx ''type_and_payload_validator'' 400 err)
          | None \<Rightarrow>
              (case next_check req of
                 Some (stp, err) \<Rightarrow> atomic (reject E ctx stp 400 err)
               | None \<Rightarrow> create_stored_thread E ctx req))))"

definition HandleCreateTask_thread :: "env \<Rightarrow> ctx \<Rightarrow> bytes \<Rightarrow> ('x world_scheme, http_response) prog" where
  "HandleCreateTask_thread E ctx body =
    (case decode_stream decode_request empty_request body of (req, ok) \<Rightarrow>
       if \<not> ok then atomic (reject E ctx ''decode_request_body'' 400 (json_error E body))
       else create_validated_thread E ctx req)"

lemma exec_create_enqueue [exec_rules]: "exec (create_enqueue_thread E ctx req i) = create_enqueue E ctx req i"
  by (simp add: create_enqueue_thread_def create_enqueue_def exec_rules cong: sum.case_cong if_cong)

lemma exec_create_persist [exec_rules]: "exec (create_persist_thread E ctx req key) = create_persist E ctx req key"
  unfolding create_persist_thread_def create_persist_def Let_def exec_rules
  by (intro arg_cong2 [where f = State_Monad.bind] option.case_cong sum.case_cong refl ext)

lemma exec_create [exec_rules]: "exec (HandleCreateTask_thread E ctx body) = HandleCreateTask E ctx body"
  by (simp add: HandleCreateTask_thread_def HandleCreateTask_def create_validated_thread_def create_validated_def
      create_stored_thread_def create_stored_def exec_rules Let_def if_distrib [of exec] split_def
      cong: sum.case_cong option.case_cong if_cong)

section \<open>The other requests\<close>

definition HandleGetTaskResult_thread ::
  "env \<Rightarrow> (string \<Rightarrow> string option) \<Rightarrow> ctx \<Rightarrow> bool \<Rightarrow> string \<Rightarrow> ('x world_scheme, http_outcome) prog" where
  "HandleGetTaskResult_thread E num ctx storage i = Then (GetEventByID E i) (\<lambda>r.
    case r of
      Inl _ \<Rightarrow> atomic (answer (RespondWithError ctx 404 (ErrorString ''task not found'')))
    | Inr ev \<Rightarrow>
        (if ev_status ev \<noteq> Some ''processed'' then
           atomic (answer (RespondWithJSON 202 (Some (jmap [(''event_id'', jstring i),
             (''status'', jstring (text_or_empty (ev_status ev))),
             (''message'', jstring ''task not yet processed'')]))))
         else if text_or_empty (ev_result ev) = [] then
           atomic (answer (RespondWithError ctx 404 (ErrorString ''no result for this task'')))
         else
           (case result_map num (text_or_empty (ev_result ev)) of
              Inl _ \<Rightarrow> atomic (answer (RespondWithError ctx 500 (ErrorString ''malformed result'')))
            | Inr None \<Rightarrow> Done (Panic ''assignment to entry in nil map'')
            | Inr (Some m) \<Rightarrow>
                (if any_string (map_of m ''kind'') = Some ''file'' then
                   atomic (answer (file_result E ctx storage i
                     (case any_string (map_of m ''key'') of None \<Rightarrow> [] | Some k \<Rightarrow> k)))
                 else
                   atomic (answer (RespondWithJSON 200 (Some (jmap
                     ((''event_id'', jstring i) # filter (\<lambda>kv. fst kv \<noteq> ''event_id'') m)))))))))"

lemma exec_result [exec_rules]:
  "exec (HandleGetTaskResult_thread E num ctx storage i) = HandleGetTaskResult E num ctx storage i"
  by (simp add: HandleGetTaskResult_thread_def HandleGetTaskResult_def exec_rules if_distrib [of exec]
      cong: sum.case_cong option.case_cong if_cong)

definition HandleDashboardStats_thread :: "env \<Rightarrow> ctx \<Rightarrow> ('x world_scheme, http_response) prog" where
  "HandleDashboardStats_thread E ctx = Then (GetStatusCounts E) (\<lambda>r.
    case r of
      Inl err \<Rightarrow> atomic (RespondWithError ctx 500 err)
    | Inr counts \<Rightarrow> Then (GetRecentProcessedCount E) (\<lambda>r.
        case r of
          Inl err \<Rightarrow> atomic (RespondWithError ctx 500 err)
        | Inr recent \<Rightarrow> Then (GetQueueDepths E) (\<lambda>r.
            case r of
              Inl err \<Rightarrow> atomic (RespondWithError ctx 500 err)
            | Inr depths \<Rightarrow> Then (HealthStats E) (\<lambda>health.
                atomic (RespondWithJSON 200 (Some (jmap [(''total_tasks'', jnat (total_count counts)),
                  (''by_status'', jmap (by_status counts)), (''processed_last_24h'', jnat recent),
                  (''queue_depths'', depths_json depths), (''worker_health'', health)])))))))"

definition AdminListEvents_thread :: "env \<Rightarrow> list_events_params \<Rightarrow> ('x world_scheme, (event list \<times> nat) result) prog" where
  "AdminListEvents_thread E p =
    (let page_size = (if lp_page_size p \<le> 0 then 20 else lp_page_size p);
         page = (if lp_page p \<le> 0 then 1 else lp_page p)
     in Then (CountEventsFiltered E (filter_of p)) (\<lambda>r.
       case r of
         Inl e \<Rightarrow> Done (Inl e)
       | Inr n \<Rightarrow> Then (ListEventsFiltered E (filter_of p) (page_offset page page_size) (word_of_int page_size)) (\<lambda>r.
           case r of Inl e \<Rightarrow> Done (Inl e) | Inr evs \<Rightarrow> Done (Inr (evs, n)))))"

definition HandleListTasks_thread :: "env \<Rightarrow> ctx \<Rightarrow> (string \<Rightarrow> string) \<Rightarrow> ('x world_scheme, http_response) prog" where
  "HandleListTasks_thread E ctx q =
    (let page0 = fst (parse_int (q ''page''));
         size0 = fst (parse_int (q ''page_size''));
         page = (if page0 < 1 then 1 else page0);
         page_size = (if size0 < 1 \<or> size0 > 100 then 20 else size0)
     in andThen (AdminListEvents_thread E \<lparr> lp_status = q ''status'', lp_type = q ''type'',
          lp_priority = q ''priority'', lp_search = q ''search'', lp_page = page, lp_page_size = page_size \<rparr>) (\<lambda>r.
       case r of
         Inl err \<Rightarrow> atomic (RespondWithError ctx 500 err)
       | Inr (evs, n) \<Rightarrow> atomic (RespondWithJSON 200 (Some (jmap [(''tasks'', JArr (map task_json evs)),
           (''total'', jnat n), (''page'', jint page), (''page_size'', jint page_size),
           (''total_pages'', jnat (float_div_ceil n (nat page_size)))])))))"

lemma exec_dashboard [exec_rules]: "exec (HandleDashboardStats_thread E ctx) = HandleDashboardStats E ctx"
  by (simp add: HandleDashboardStats_thread_def HandleDashboardStats_def exec_rules cong: sum.case_cong if_cong)

lemma exec_list [exec_rules]: "exec (HandleListTasks_thread E ctx q) = HandleListTasks E ctx q"
  by (simp add: HandleListTasks_thread_def HandleListTasks_def AdminListEvents_thread_def AdminListEvents_def exec_rules
      Let_def split_def cong: sum.case_cong)

definition reset_and_enqueue_thread :: "env \<Rightarrow> ctx \<Rightarrow> string \<Rightarrow> ('x world_scheme, http_response) prog" where
  "reset_and_enqueue_thread E ctx i = Then (AdminResetTaskForRetry E i) (\<lambda>r.
    case r of
      Inl err \<Rightarrow> if err_is err ErrNotRetryable then atomic (RespondWithError ctx 409 err)
        else atomic (RespondWithError ctx 500 err)
    | Inr priority \<Rightarrow> atomic (enqueue_answer E ctx i priority))"

definition HandleRetryTask_thread :: "env \<Rightarrow> ctx \<Rightarrow> string \<Rightarrow> ('x world_scheme, http_response) prog" where
  "HandleRetryTask_thread E ctx i =
    (if i = [] then atomic (RespondWithError ctx 400 id_required) else reset_and_enqueue_thread E ctx i)"

primrec found_tasks_thread :: "env \<Rightarrow> string list \<Rightarrow> ('x world_scheme, event list) prog" where
  "found_tasks_thread E [] = Done []"
| "found_tasks_thread E (i # is) = Then (GetEventByID E i) (\<lambda>r.
    andThen (found_tasks_thread E is) (\<lambda>es. Done (case r of Inl _ \<Rightarrow> es | Inr e \<Rightarrow> e # es)))"

definition HandleListDLQ_thread :: "env \<Rightarrow> ctx \<Rightarrow> ('x world_scheme, http_response) prog" where
  "HandleListDLQ_thread E ctx = Then (GetDLQItems E) (\<lambda>r.
    case r of
      Inl err \<Rightarrow> atomic (RespondWithError ctx 500 err)
    | Inr ids \<Rightarrow> andThen (found_tasks_thread E ids) (\<lambda>es.
        atomic (RespondWithJSON 200 (Some (jmap [(''total'', jnat (length ids)), (''tasks'', JArr (map task_json es))])))))"

definition HandleRetryDLQTask_thread :: "env \<Rightarrow> ctx \<Rightarrow> string \<Rightarrow> ('x world_scheme, http_response) prog" where
  "HandleRetryDLQTask_thread E ctx i =
    (if i = [] then atomic (RespondWithError ctx 400 id_required)
     else Then (RemoveFromDLQ E i) (\<lambda>r.
       case r of
         Inl err \<Rightarrow> atomic (RespondWithError ctx 404 err)
       | Inr _ \<Rightarrow> reset_and_enqueue_thread E ctx i))"

definition HandleRequeueTask_thread :: "env \<Rightarrow> ctx \<Rightarrow> string \<Rightarrow> ('x world_scheme, http_response) prog" where
  "HandleRequeueTask_thread E ctx i =
    (if i = [] then atomic (RespondWithError ctx 400 id_required)
     else Then (GetEventByID E i) (\<lambda>r.
       case r of
         Inl err \<Rightarrow> atomic (RespondWithError ctx 404 err)
       | Inr e \<Rightarrow>
           (if ev_status e \<noteq> Some ''pending'' then
              atomic (RespondWithError ctx 409 (ErrorString ''only pending tasks can be requeued''))
            else
              (let req = fst (unmarshal decode_requeue empty_requeue (ev_payload e));
                   priority = requeue_priority req e
               in Then (still_due E (rq_execute_at req)) (\<lambda>due.
                 case due of
                   Some at \<Rightarrow> Then (Schedule E i priority at) (\<lambda>r.
                     case r of
                       Inl err \<Rightarrow> atomic (RespondWithError ctx 500 err)
                     | Inr _ \<Rightarrow> atomic (RespondWithJSON 200 (scheduled_json i priority at)))
                 | None \<Rightarrow> atomic (enqueue_answer E ctx i priority))))))"

lemma exec_reset [exec_rules]: "exec (reset_and_enqueue_thread E ctx i) = reset_and_enqueue E ctx i"
  by (simp add: reset_and_enqueue_thread_def reset_and_enqueue_def exec_rules cong: sum.case_cong if_cong)

lemma exec_found [exec_rules]: "exec (found_tasks_thread E is) = found_tasks E is"
  by (induction "is") (simp_all add: exec_rules)

lemma exec_retries [exec_rules]:
  "exec (HandleRetryTask_thread E ctx i) = HandleRetryTask E ctx i"
  "exec (HandleListDLQ_thread E ctx) = HandleListDLQ E ctx"
  "exec (HandleRetryDLQTask_thread E ctx i) = HandleRetryDLQTask E ctx i"
  "exec (HandleRequeueTask_thread E ctx i) = HandleRequeueTask E ctx i"
  by (simp_all add: HandleRetryTask_thread_def HandleRetryTask_def HandleListDLQ_thread_def HandleListDLQ_def
      HandleRetryDLQTask_thread_def HandleRetryDLQTask_def HandleRequeueTask_thread_def HandleRequeueTask_def
      exec_rules Let_def cong: sum.case_cong option.case_cong if_cong)

definition answer_thread :: "('s, http_response) prog \<Rightarrow> ('s, http_outcome) prog" where
  "answer_thread p = andThen p (\<lambda>a. Done (Answer a))"

text \<open>The handlers that are not cut have at most one access.\<close>

definition serve_thread :: "env \<Rightarrow> deployment \<Rightarrow> http_request \<Rightarrow> endpoint \<Rightarrow> ctx \<Rightarrow> ('x world_scheme, http_outcome) prog" where
  "serve_thread E D rq ep ctx = (case ep of
      EpHealth \<Rightarrow> Done (Answer health_page)
    | EpMetrics \<Rightarrow> Done (Answer (metrics_page D))
    | EpCreate \<Rightarrow> answer_thread (HandleCreateTask_thread E ctx (hr_body rq))
    | EpCancel i \<Rightarrow> atomic (answer (HandleCancelTask E ctx i))
    | EpResult i \<Rightarrow> HandleGetTaskResult_thread E (float_text D) ctx (storage_ready D) i
    | EpStats \<Rightarrow> answer_thread (HandleDashboardStats_thread E ctx)
    | EpList \<Rightarrow> answer_thread (HandleListTasks_thread E ctx (hr_query rq))
    | EpGet i \<Rightarrow> atomic (answer (HandleGetTask E ctx i))
    | EpChildren i \<Rightarrow> atomic (answer (HandleGetTaskChildren E ctx i))
    | EpRetries i \<Rightarrow> atomic (answer (HandleGetTaskRetries E ctx i))
    | EpRetry i \<Rightarrow> answer_thread (HandleRetryTask_thread E ctx i)
    | EpRequeue i \<Rightarrow> answer_thread (HandleRequeueTask_thread E ctx i)
    | EpDLQ \<Rightarrow> answer_thread (HandleListDLQ_thread E ctx)
    | EpDLQRetry i \<Rightarrow> answer_thread (HandleRetryDLQTask_thread E ctx i)
    | EpDLQRemove i \<Rightarrow> atomic (answer (HandleRemoveDLQTask E ctx i))
    | EpDepth \<Rightarrow> atomic (answer (HandleQueueDepth E ctx))
    | EpWorkers \<Rightarrow> atomic (answer (HandleWorkerHealth E)))"

lemma exec_answer [exec_rules]: "exec (answer_thread p) = answer (exec p)"
  by (simp add: answer_thread_def answer_def exec_rules)

lemma exec_serve [exec_rules]: "exec (serve_thread E D rq ep ctx) = serve E D rq ep ctx"
  by (cases ep) (simp_all add: serve_thread_def serve_def exec_rules, simp_all add: answer_def exec_rules)

definition dispatch_thread :: "env \<Rightarrow> deployment \<Rightarrow> http_request \<Rightarrow> ctx \<Rightarrow> ('x world_scheme, http_response) prog" where
  "dispatch_thread E D rq ctx = (case route (hr_method rq) (hr_path rq) of
      RouteTo ep \<Rightarrow> andThen (serve_thread E D rq ep ctx) (\<lambda>r. Done (response_of r))
    | NotFound \<Rightarrow> Done (http_error ''404 page not found'' 404)
    | NotAllowed \<Rightarrow> Done \<lparr> rs_status = 405, rs_content_type = [], rs_body = [] \<rparr>)"

lemma exec_dispatch [exec_rules]: "exec (dispatch_thread E D rq ctx) = dispatch E D rq ctx"
  by (simp add: dispatch_thread_def dispatch_def exec_rules split: routed.split)

text \<open>The middleware around a handler: a fresh log context, the two readings of the clock, the line.\<close>

definition RequestLogger_thread :: "env \<Rightarrow> http_request
    \<Rightarrow> (ctx \<Rightarrow> ('x world_scheme, 'a \<times> write_call list \<times> nat list) prog) \<Rightarrow> ctx
    \<Rightarrow> ('x world_scheme, 'a \<times> write_call list \<times> (string \<times> log_value) list option) prog" where
  "RequestLogger_thread E rq inner ctx = (let ctx' = ctx(MiddlewareKey ''log_context'' \<mapsto> LogPtr) in
    Then (State_Monad.update (\<lambda>w. w\<lparr> req_log := empty_log \<rparr>)) (\<lambda>_.
    if hr_path rq = ''/metrics'' \<or> hr_path rq = ''/health'' then
      andThen (inner ctx') (\<lambda>r. Done (case r of (a, cs, ns) \<Rightarrow> (a, cs, None)))
    else
      Then (time_now E) (\<lambda>start.
      andThen (inner ctx') (\<lambda>r.
      Then (time_now E) (\<lambda>stop.
      Then State_Monad.get (\<lambda>w.
      Done (case r of (a, cs, ns) \<Rightarrow> (a, cs,
        Some (log_attrs rq ctx' (instant stop - instant start) (spy_read ns) (spied cs) (req_log w))))))))))"

definition request_thread :: "env \<Rightarrow> deployment \<Rightarrow> http_request \<Rightarrow> string \<Rightarrow> nat list
    \<Rightarrow> ('x world_scheme, (string \<times> string) \<times> http_response \<times> write_call list \<times> (string \<times> log_value) list option) prog" where
  "request_thread E D rq trace_id reads = andThen
    (RequestLogger_thread E rq (\<lambda>ctx. andThen (dispatch_thread E D rq ctx) (\<lambda>a. Done (a, written a, reads)))
      (Map.empty(MiddlewareKey ''trace_id'' \<mapsto> TextValue trace_id)))
    (\<lambda>a. Done ((''X-Trace-ID'', trace_id), a))"

lemma exec_request [exec_rules]: "exec (request_thread E D rq trace_id reads) = handle_request E D rq trace_id reads"
  by (simp add: request_thread_def handle_request_def TraceMiddleware_def RequestLogger_thread_def RequestLogger_def
      exec_rules Let_def)

section \<open>The workers\<close>

definition store_file_thread ::
  "env \<Rightarrow> string \<Rightarrow> worker_task \<Rightarrow> string \<Rightarrow> string \<Rightarrow> bytes \<Rightarrow> ('x world_scheme, goerr option) prog" where
  "store_file_thread E label task key content_type data = Then (Upload E key content_type data) (\<lambda>r.
    case r of
      Inl err \<Rightarrow> Done (Some (WrapError (label @ '': upload: '') err))
    | Inr _ \<Rightarrow> Then (RepoUpdateEventResult E (wt_id task) (jprint (file_json key))) (\<lambda>r.
        Done (case r of Inl err \<Rightarrow> Some (WrapError (label @ '': save result: '') err) | Inr _ \<Rightarrow> None)))"

text \<open>Fetching a page or an image is no access.\<close>

type_synonym 'x handler_thread = "worker_task \<Rightarrow> ('x world_scheme, goerr option) prog"

definition ScrapeURL_thread :: "env \<Rightarrow> 'i services \<Rightarrow> bool \<Rightarrow> 'x handler_thread" where
  "ScrapeURL_thread E S storage task =
    (case unmarshal decode_url [] (wt_payload task) of (url, ok) \<Rightarrow>
      if \<not> ok then Done (Some (WrapError ''scrape: parse params: '' (json_error E (wt_payload task))))
      else if url = [] then Done (Some (ErrorString ''scrape: url is required''))
      else if \<not> storage then Done (Some (ErrorString ''scrape: storage client not configured''))
      else Then (scrape_page E S url) (\<lambda>r.
        case r of
          Inl err \<Rightarrow> Done (Some err)
        | Inr page \<Rightarrow> store_file_thread E ''scrape'' task (scrape_key task) ''application/json'' (jprint (page_json page))))"

definition report_from_thread :: "env \<Rightarrow> worker_task \<Rightarrow> string \<Rightarrow> ('x world_scheme, goerr option) prog" where
  "report_from_thread E task key = Then (Download E key) (\<lambda>r.
    case r of
      Inl err \<Rightarrow> Done (Some (WrapError ''report: download scraped data: '' err))
    | Inr body \<Rightarrow>
        (case decode_stream decode_page empty_page (fst body) of (page, ok) \<Rightarrow>
          if \<not> ok then Done (Some (WrapError ''report: decode scraped data: '' (stream_error E body)))
          else store_file_thread E ''report'' task (report_key task) ''text/csv'' (csv_text (report_rows page))))"

definition GenerateReport_thread :: "env \<Rightarrow> bool \<Rightarrow> 'x handler_thread" where
  "GenerateReport_thread E storage task =
    (case unmarshal decode_scraped_key [] (wt_payload task) of (key, ok) \<Rightarrow>
      if \<not> ok then Done (Some (WrapError ''report: parse params: '' (json_error E (wt_payload task))))
      else if \<not> storage then Done (Some (ErrorString ''report: storage client not configured''))
      else if key \<noteq> [] then report_from_thread E task key
      else Then (parentFileResultKey E (meta task ''root_task_id'')) (\<lambda>r.
        case r of
          Inl err \<Rightarrow> Done (Some (WrapError scraped_key_required err))
        | Inr parent_key \<Rightarrow> report_from_thread E task parent_key))"

definition ResizeImage_thread :: "env \<Rightarrow> 'i services \<Rightarrow> bool \<Rightarrow> 'x handler_thread" where
  "ResizeImage_thread E S storage task =
    (case unmarshal decode_resize empty_resize (wt_payload task) of (p0, ok) \<Rightarrow>
      if \<not> ok then Done (Some (WrapError ''resize: parse payload: '' (json_error E (wt_payload task))))
      else let p = with_defaults p0 in Then (fetch_image S (rp_image_url p)) (\<lambda>r.
        case r of
          Inl err \<Rightarrow> Done (Some err)
        | Inr raw \<Rightarrow>
            (case convert S p raw of
               Inl err \<Rightarrow> Done (Some err)
             | Inr (content_type, data) \<Rightarrow>
                 (if \<not> storage then Done (Some (ErrorString ''resize: storage client not configured''))
                  else store_file_thread E ''resize'' task (resize_key task p) content_type data))))"

definition create_next_thread :: "env \<Rightarrow> worker_task \<Rightarrow> task_request \<Rightarrow> ('x world_scheme, goerr option) prog" where
  "create_next_thread E task nxt = Then next_tick (\<lambda>t.
    case marshal_request nxt of
      None \<Rightarrow> Done (Some (WrapError ''chaining: marshal next: '' (ErrorString ''json: error calling MarshalJSON'')))
    | Some text_of_next \<Rightarrow>
        Then (SaveProcessedEvent E (new_uuid E t) (tr_type nxt) text_of_next ''pending'' (meta task ''trace_id'')
          (tr_priority nxt) (chain_root task) (tr_execute_at nxt)) (\<lambda>r.
        case r of
          Inl err \<Rightarrow> Done (Some (WrapError ''chaining: save next task: '' err))
        | Inr _ \<Rightarrow> Then (enqueue_or_schedule E (new_uuid E t) (tr_priority nxt) (tr_execute_at nxt)) (\<lambda>r.
            Done (error_of r))))"

definition Wrap_thread :: "env \<Rightarrow> 'x handler_thread \<Rightarrow> 'x handler_thread" where
  "Wrap_thread E h task = andThen (h task) (\<lambda>err.
    case err of
      Some e \<Rightarrow> Done (Some e)
    | None \<Rightarrow>
        (if meta task ''next'' = [] then Done None
         else (case unmarshal decode_request empty_request (meta task ''next'') of (nxt, ok) \<Rightarrow>
           if \<not> ok then Done (Some (WrapError ''chaining: parse next: '' (json_error E (meta task ''next''))))
           else if tr_type nxt = [] then Done None
           else create_next_thread E task nxt)))"

lemma exec_store_file [exec_rules]: "exec (store_file_thread E label task key ct data) = store_file E label task key ct data"
  by (simp add: store_file_thread_def store_file_def exec_rules cong: sum.case_cong if_cong)

lemma exec_report_from [exec_rules]: "exec (report_from_thread E task key) = report_from E task key"
  by (simp add: report_from_thread_def report_from_def exec_rules if_distrib [of exec] split_def cong: sum.case_cong if_cong)

lemma exec_handlers [exec_rules]:
  "exec (ScrapeURL_thread E S storage task) = ScrapeURL E S storage task"
  "exec (GenerateReport_thread E storage task) = GenerateReport E storage task"
  "exec (ResizeImage_thread E S storage task) = ResizeImage E S storage task"
  by (simp_all add: ScrapeURL_thread_def ScrapeURL_def GenerateReport_thread_def GenerateReport_def
      ResizeImage_thread_def ResizeImage_def exec_rules if_distrib [of exec] split_def Let_def cong: sum.case_cong if_cong)

lemma exec_create_next [exec_rules]: "exec (create_next_thread E task nxt) = create_next E task nxt"
  by (simp add: create_next_thread_def create_next_def exec_rules cong: sum.case_cong option.case_cong)

lemma exec_Wrap [exec_rules]: "exec (h' task) = h task \<Longrightarrow> exec (Wrap_thread E h' task) = Wrap E h task"
  by (simp add: Wrap_thread_def Wrap_def exec_rules if_distrib [of exec] split_def cong: option.case_cong if_cong)

text \<open>The handlers registered in \<open>cmd/main.go\<close>.\<close>

definition task_threads :: "env \<Rightarrow> 'i services \<Rightarrow> bool \<Rightarrow> (string \<times> 'x handler_thread) list" where
  "task_threads E S storage = [(''resize_image'', ResizeImage_thread E S storage),
    (''scrape_url'', ScrapeURL_thread E S storage), (''generate_report'', GenerateReport_thread E storage)]"

definition mux_thread :: "env \<Rightarrow> 'i services \<Rightarrow> bool \<Rightarrow> string \<Rightarrow> 'x handler_thread option" where
  "mux_thread E S storage task_type = map_option (Wrap_thread E) (map_of (task_threads E S storage) task_type)"

lemma exec_mux: "mux E S storage ty = Some f \<Longrightarrow> \<exists>p. mux_thread E S storage ty = Some p \<and> (\<forall>task. exec (p task) = f task)"
  by (auto simp: mux_def mux_thread_def task_handlers_def task_threads_def exec_rules split: if_splits)

section \<open>The platform\<close>

text \<open>What an action ends in.\<close>

datatype ended =
    Replied "(string \<times> string) \<times> http_response \<times> write_call list \<times> (string \<times> log_value) list option"
  | RanTask "goerr option"
  | NotRun
  | Recorded "unit result"

fun thread_of :: "env \<Rightarrow> deployment \<Rightarrow> 'i services \<Rightarrow> action \<Rightarrow> ('x world_scheme, ended) prog" where
  "thread_of E D S (Request rq trace_id reads) = andThen (request_thread E D rq trace_id reads) (\<lambda>a. Done (Replied a))"
| "thread_of E D S (RunTask i) = Then (GetTask E i) (\<lambda>r.
    case r of
      Inl e \<Rightarrow> Done NotRun
    | Inr task \<Rightarrow>
        (case mux_thread E S (storage_ready D) (wt_type task) of
           None \<Rightarrow> Done NotRun
         | Some f \<Rightarrow> andThen (f task) (\<lambda>e. Done (RanTask e))))"
| "thread_of E D S (SetStatus i st) = Then (UpdateStatus E i st) (\<lambda>r. Done (Recorded r))"
| "thread_of E D S (Attempt i st n err) = Then (RecordAttempt E i st n err) (\<lambda>r. Done (Recorded r))"

text \<open>
  A pool of threads: an action arrives, or a thread takes its turn. The log context of a thread is
  empty until the middleware puts one.
\<close>

datatype move = Arrive action | Turn nat

inductive moves :: "env \<Rightarrow> deployment \<Rightarrow> 'i services \<Rightarrow> (action, 'x, ended) pool \<Rightarrow> move list \<Rightarrow> (action, 'x, ended) pool \<Rightarrow> bool"
  for E D S where
  no_move: "moves E D S c [] c"
| arrive: "moves E D S (w, ts @ [\<lparr> th_task = a, th_rest = thread_of E D S a, th_log = empty_log \<rparr>]) ms c
    \<Longrightarrow> moves E D S (w, ts) (Arrive a # ms) c"
| take: "turn c i c' \<Longrightarrow> moves E D S c' ms c'' \<Longrightarrow> moves E D S c (Turn i # ms) c''"

inductive_simps moves_simps: "moves E D S c [] c'" "moves E D S c (m # ms) c'"

lemma moves_append: "moves E D S c ms c' \<Longrightarrow> moves E D S c' ms' c'' \<Longrightarrow> moves E D S c (ms @ ms') c''"
  by (induction rule: moves.induct) (auto intro: moves.intros)

end
