(* ===== verification/Reply_Forms.thy ===== *)
theory Reply_Forms
  imports Server
begin

text \<open>
  How a handler can answer. There are few ways, so a predicate that holds of these holds of the
  reply to any request in any state (locale \<open>every_reply\<close>); first instance: the statuses there are.
\<close>

section \<open>What a program gives\<close>

definition gives :: "('a \<Rightarrow> bool) \<Rightarrow> ('s, 'a) state \<Rightarrow> bool" where
  "gives P m \<longleftrightarrow> (\<forall>w. P (value_of m w))"

lemma gives_bind: "(\<And>a. gives P (f a)) \<Longrightarrow> gives P (State_Monad.bind m f)"
  by (simp add: gives_def)

lemma gives_then: "gives Q m \<Longrightarrow> (\<And>a. Q a \<Longrightarrow> gives P (f a)) \<Longrightarrow> gives P (State_Monad.bind m f)"
  by (simp add: gives_def)

lemma gives_return: "P a \<Longrightarrow> gives P (State_Monad.return a)"
  by (simp add: gives_def)

lemma gives_branches:
  "gives P m \<Longrightarrow> gives P m' \<Longrightarrow> gives P (if b then m else m')"
  "(\<And>e. gives P (f e)) \<Longrightarrow> (\<And>a. gives P (g a)) \<Longrightarrow> gives P (case r of Inl e \<Rightarrow> f e | Inr a \<Rightarrow> g a)"
  "gives P m \<Longrightarrow> (\<And>a. gives P (h a)) \<Longrightarrow> gives P (case q of None \<Rightarrow> m | Some a \<Rightarrow> h a)"
  "(\<And>a b. gives P (k a b)) \<Longrightarrow> gives P (case p of (a, b) \<Rightarrow> k a b)"
  by (simp_all split: sum.split option.split prod.split)

lemma gives_answer: "gives P m \<Longrightarrow> gives (\<lambda>r. P (response_of r)) (answer m)"
  by (simp add: gives_def answer_def response_of_def)

section \<open>Every reply\<close>

locale every_reply =
  fixes P :: "http_response \<Rightarrow> bool"
  assumes error: "st \<in> {400, 404, 409, 500, 503} \<Longrightarrow> P (http_error (error_message st (Some err)) st)"
    and json: "code \<in> {200, 202, 409} \<Longrightarrow>
      P \<lparr> rs_status = code, rs_content_type = ''application/json'', rs_body = jprint j \<rparr>"
    and unprintable: "P (http_error ''An error occured during marshalling'' 500)"
    and router: "P (http_error ''404 page not found'' 404)" "P \<lparr> rs_status = 405, rs_content_type = [], rs_body = [] \<rparr>"
      "P (response_of (Panic m))" "P health_page"
begin

lemma by_error: "st \<in> {400, 404, 409, 500, 503} \<Longrightarrow> gives P (RespondWithError ctx st err)"
  by (simp add: gives_def error)

lemma by_json: "code \<in> {200, 202, 409} \<Longrightarrow> gives P (RespondWithJSON code j)"
  by (cases j) (simp_all add: gives_def json unprintable)

lemma by_reject: "st \<in> {400, 404, 409, 500, 503} \<Longrightarrow> gives P (reject E ctx stp st err)"
  by (simp add: gives_def error)

lemmas answers_by = gives_bind gives_branches by_error by_json by_reject

lemma stored: "gives P (create_stored E ctx req)"
proof -
  have check: "gives (\<lambda>r. case r of Inl a \<Rightarrow> P a | Inr key \<Rightarrow> True) (create_check E ctx req)"
    by (simp add: gives_def create_check_def error json split: sum.split prod.split)
  have persist: "gives P (create_persist E ctx req key)" for key
    unfolding create_persist_def create_enqueue_def Let_def by (intro answers_by; simp)
  show ?thesis
    unfolding create_stored_def by (rule gives_then [OF check]) (auto intro: gives_return persist split: sum.splits)
qed

lemma handlers:
  "gives P (HandleCreateTask E ctx body)" "gives P (HandleCancelTask E ctx i)" "gives P (HandleDashboardStats E ctx)"
  "gives P (HandleListTasks E ctx q)" "gives P (HandleGetTask E ctx i)" "gives P (HandleGetTaskChildren E ctx i)"
  "gives P (HandleGetTaskRetries E ctx i)" "gives P (HandleRetryTask E ctx i)" "gives P (HandleRequeueTask E ctx i)"
  "gives P (HandleListDLQ E ctx)" "gives P (HandleRetryDLQTask E ctx i)" "gives P (HandleRemoveDLQTask E ctx i)"
  "gives P (HandleQueueDepth E ctx)" "gives P (HandleWorkerHealth E)"
  unfolding HandleCreateTask_def create_validated_def HandleCancelTask_def HandleDashboardStats_def HandleListTasks_def
    HandleGetTask_def HandleGetTaskChildren_def HandleGetTaskRetries_def HandleRetryTask_def reset_and_enqueue_def
    enqueue_answer_def HandleRequeueTask_def HandleListDLQ_def HandleRetryDLQTask_def HandleRemoveDLQTask_def
    HandleQueueDepth_def HandleWorkerHealth_def Let_def
  by (intro answers_by stored; simp)+

text \<open>The one handler that can panic.\<close>

lemma result: "gives (\<lambda>r. P (response_of r)) (HandleGetTaskResult E num ctx storage i)"
proof -
  have "gives P (file_result E ctx storage i key)" for key
    unfolding file_result_def by (intro answers_by; simp)
  then show ?thesis
    unfolding HandleGetTaskResult_def
    by (intro gives_bind gives_branches gives_answer by_error by_json; simp add: gives_return router)
qed

lemma serve: "P (metrics_page D) \<Longrightarrow> gives (\<lambda>r. P (response_of r)) (serve E D rq ep ctx)"
  unfolding serve_def
  by (cases ep) (simp_all add: gives_answer handlers result gives_return router)

lemma reply:
  assumes "P (metrics_page D)"
  shows "P (reply E D rq trace_id reads w)"
proof -
  have "gives P (dispatch E D rq ctx)" for ctx
    unfolding dispatch_def
    using serve [OF assms, of E rq _ ctx] by (auto simp: gives_def router split: routed.split)
  then show ?thesis
    by (auto simp: gives_def reply_def handle_request_def TraceMiddleware_def RequestLogger_def Let_def split_def)
qed

end

section \<open>The statuses there are\<close>

lemma match_metrics: "match_path [[], ''metrics''] ss = Some y \<Longrightarrow> ss = [[], ''metrics'']"
proof (cases ss)
  case (Cons s ts)
  moreover assume "match_path [[], ''metrics''] ss = Some y"
  ultimately show ?thesis by (cases ts; cases "tl ts") (auto split: if_splits)
qed simp

lemma route_metrics: "route m path = RouteTo EpMetrics \<Longrightarrow> path = ''/metrics''"
proof -
  assume r: "route m path = RouteTo EpMetrics"
  obtain x where "find (\<lambda>(m', pat, ep). m' = m \<and> path_param pat path \<noteq> None) routes = Some x"
    and x: "(\<lambda>(m', pat, ep). ep (the (path_param pat path))) x = EpMetrics"
    using r by (cases "find (\<lambda>(m', pat, ep). m' = m \<and> path_param pat path \<noteq> None) routes")
      (simp_all add: route_def split: if_splits)
  then have "x \<in> set routes \<and> (\<lambda>(m', pat, ep). m' = m \<and> path_param pat path \<noteq> None) x"
    unfolding find_Some_iff by (metis nth_mem)
  with x have "path_param ''/metrics'' path \<noteq> None" by (cases x) (auto simp: routes_def)
  obtain ss where ss: "ss = split_on (CHR ''/'') path" by simp
  have "split_on (CHR ''/'') ''/metrics'' = [[], ''metrics'']" by code_simp
  with \<open>path_param ''/metrics'' path \<noteq> None\<close> have "ss = [[], ''metrics'']"
    using match_metrics [of ss] by (auto simp: path_param_def ss)
  then show ?thesis using split_on_join [of "CHR ''/''" path] ss by simp
qed

definition possible_status :: "nat set" where
  "possible_status = {200, 202, 400, 404, 405, 409, 500, 503}"

interpretation statuses: every_reply "\<lambda>a. rs_status a \<in> possible_status"
  by unfold_locales
    (auto simp: possible_status_def http_error_def response_of_def health_page_def)

text \<open>The page of the metrics is not the platform's; every other reply has one of these statuses.\<close>

lemma reply_status:
  assumes "hr_path rq \<noteq> ''/metrics''"
  shows "rs_status (reply E D rq trace_id reads (w :: 'x world_scheme)) \<in> possible_status"
proof -
  define D' where "D' = D\<lparr> metrics_page := health_page \<rparr>"
  have "(dispatch E D rq ctx :: ('x world_scheme, http_response) state) = dispatch E D' rq ctx" for ctx
  proof (cases "route (hr_method rq) (hr_path rq)")
    case (RouteTo ep)
    then have "ep \<noteq> EpMetrics" using route_metrics assms by blast
    then show ?thesis using RouteTo by (cases ep) (simp_all add: dispatch_def serve_def D'_def)
  qed (simp_all add: dispatch_def)
  then have "reply E D rq trace_id reads w = reply E D' rq trace_id reads w"
    by (simp add: reply_def handle_request_def)
  then show ?thesis
    using statuses.reply [of D' E rq trace_id reads w] by (simp add: D'_def health_page_def possible_status_def)
qed

end
