(* ===== verification/Scenario.thy ===== *)
theory Scenario
  imports Task_Handler "HOL-Library.Code_Target_Nat"
begin

text \<open>
  A concrete system to run the model on: a healthy environment with fixed clocks, one whose queue
  refuses every call, empty tables and one submitted body. The facts here discharge the
  hypotheses of the properties at these inputs. A digest is never computed: the facts about keys
  hold for any text.
\<close>

definition calm :: env where
  "calm = \<lparr> clock = (\<lambda>t. \<lparr> instant = 1800000000 * second, zone = 0 \<rparr>),
    db_now = (\<lambda>t. 1800000000000000), db_fault = (\<lambda>t. None),
    pg_time = (\<lambda>t. (instant t + zone t * second) div 1000), ilike = (\<lambda>a b. False), tie_order = (\<lambda>t i. 0),
    new_uuid = (\<lambda>t. ''id-'' @ dec t), traceparent = (\<lambda>t. []),
    json_error = (\<lambda>s. ErrorString ''invalid body''), queue_fault = (\<lambda>t. None),
    queue_depths = (\<lambda>t. Inr []), dlq_items = (\<lambda>t. Inr []), health_stats = (\<lambda>t. JNull),
    put_object = (\<lambda>t. None), get_object = (\<lambda>t k. Inr ([], None)), presign = (\<lambda>t k. Inr ''http://minio/'') \<rparr>"

definition no_queue :: env where
  "no_queue = calm\<lparr> queue_fault := (\<lambda>t. Some (ErrorString ''redis: connection refused'')) \<rparr>"

definition world0 :: world where
  "world0 = \<lparr> tick = 0, events = [], delivery_logs = [], idempotency_keys = [],
    queue_log = [], objects = [], req_log = empty_log, sender_log = None \<rparr>"

definition ctx0 :: ctx where
  "ctx0 = Map.empty(MiddlewareKey ''log_context'' \<mapsto> LogPtr)"

definition payload0 :: string where
  "payload0 = ''{\"url\":\"http://a\"}''"

definition body0 :: string where
  "body0 = ''{\"type\":\"scrape_url\",\"payload\":{\"url\":\"http://a\"}}''"

definition req0 :: task_request where
  "req0 = TaskRequest ''scrape_url'' payload0 ''medium'' None None []"

lemma calm_up [simp]: "db_up calm" "queue_up calm" "db_up no_queue" "queue_down no_queue"
  by (simp_all add: calm_def no_queue_def db_up_def queue_up_def queue_down_def answers_def)

lemma calm_lasting [simp]: "lasting calm" "lasting no_queue"
  by (simp_all add: lasting_def calm_def no_queue_def time_add_def)

lemma world0_ok [simp]: "db_ok world0"
  by (simp add: world0_def db_ok_def)

lemma decode_body0: "decode_stream decode_request empty_request body0
    = (TaskRequest ''scrape_url'' payload0 [] None None [], True)"
  by code_simp

lemma default_req0: "default_priority (TaskRequest ''scrape_url'' payload0 [] None None []) = req0"
  by (simp add: default_priority_def req0_def)

lemma passes_req0: "passes req0"
  by code_simp

lemma submittable0: "submittable E body0 req0"
  using decode_body0 default_req0 passes_req0 unfolding submittable_def by (metis req0_def task_request.sel(4) option.distinct(1))

lemma raw_payload0: "raw_json payload0 \<noteq> None"
  by code_simp

lemma marshal_req0: "marshal_request (set_trace tp req0) \<noteq> None"
  using raw_payload0 by (auto simp: marshal_request_def req0_def set_trace_def time_member_def)

lemma writable_req0: "writable_times req0"
  by (simp add: req0_def)

lemma world0_free [simp]: "lookup world0 i = None" "key_row world0 k = None"
  by (simp_all add: world0_def lookup_def key_row_def)

lemma world0_empty [simp]: "events world0 = []" "queue_log world0 = []" "idempotency_keys world0 = []"
  by (simp_all add: world0_def)

lemma create0: "rs_status (value_of (HandleCreateTask calm ctx0 body0) world0) = 200"
proof (rule create_unprotected [OF _ _ _ decode_body0, of calm world0 ctx0])
qed (simp_all add: default_req0 passes_req0 writable_req0 unprotected_None)

end
