(* ===== verification/Store_Properties.thy ===== *)
theory Store_Properties
  imports Scenario
begin

text \<open>
  What the stores guarantee to the handlers and to the workers: cancelling and retrying, results,
  idempotency keys, the round trip of a stored request, and validation. Each property is followed
  by its application to a concrete state.
\<close>

section \<open>States to apply them to\<close>

definition event0 :: event where
  "event0 = \<lparr> ev_id = ''e1'', ev_type = ''scrape_url'', ev_payload = payload0, ev_created_at = Some 5,
    ev_status = Some ''pending'', ev_updated_at = Some 5, ev_trace_id = [], ev_priority = Some ''high'',
    ev_parentid = None, ev_scheduled_at = None, ev_result = None \<rparr>"

definition key0 :: "int \<Rightarrow> idempotency_key" where
  "key0 expires = \<lparr> ik_key = request_key req0, ik_event_id = ''e1'', ik_created_at = Some 5,
    ik_expires_at = Some expires, ik_metadata = ''{}'' \<rparr>"

definition world1 :: world where
  "world1 = world0\<lparr> events := [event0] \<rparr>"

definition world_failed :: world where
  "world_failed = world0\<lparr> events := [event0\<lparr> ev_status := Some ''failed'' \<rparr>] \<rparr>"

definition world_key :: "int \<Rightarrow> world" where
  "world_key expires = world1\<lparr> idempotency_keys := [key0 expires] \<rparr>"

lemma worlds_ok [simp]: "db_ok world1" "db_ok world_failed" "db_ok (world_key x)"
  by (simp_all add: world1_def world_failed_def world_key_def world0_def db_ok_def key0_def event0_def)

lemma world_lookups [simp]:
  "lookup world1 i = (if i = ''e1'' then Some event0 else None)"
  "lookup world_failed i = (if i = ''e1'' then Some (event0\<lparr> ev_status := Some ''failed'' \<rparr>) else None)"
  "lookup (world_key x) i = (if i = ''e1'' then Some event0 else None)"
  by (auto simp: world1_def world_failed_def world_key_def lookup_def find_row_Cons event0_def)

lemma worlds_quiet [simp]: "queue_log world1 = []" "queue_log world_failed = []" "queue_log (world_key x) = []"
  by (simp_all add: world1_def world_failed_def world_key_def)

lemma key_row_world [simp]: "key_row (world_key x) (request_key req0) = Some (key0 x)"
  by (simp add: world_key_def key_row_def find_row_Cons key0_def)

lemma status_event0 [simp]: "task_status world1 ''e1'' = Some ''pending''"
  "task_status world_failed ''e1'' = Some ''failed''"
  by (simp_all add: task_status_def event0_def)

lemma dec_inject: "dec m = dec n \<Longrightarrow> m = n"
  using digits_val_dec by metis

lemma calm_uuids: "inj (new_uuid calm)" "new_uuid calm t \<noteq> ''e1''"
  by (auto intro!: injI dest: dec_inject simp: calm_def)

section \<open>Cancelling and retrying\<close>

text \<open>
  C21: CancelTask succeeds exactly on a task that is there and pending, and then sets its status to
  cancelled; every other task, and a task in any other state, keeps its status.
\<close>

theorem cancel_task_semantics:
  assumes "db_ok w" "answers E w"
  shows "value_of (CancelTask E i) w = (if task_status w i = Some ''pending'' then Inr () else Inl ErrNotCancellable)
    \<and> (\<forall>j. task_status (final (CancelTask E i) w) j =
        (if j = i \<and> task_status w i = Some ''pending'' then Some ''cancelled'' else task_status w j))"
  using cancel_value [OF assms] cancel_lookup [OF assms(2), of i]
  by (cases "lookup w i") (auto simp: task_status_def cancel_row_def stamp_def)

theorem cancel_task_semantics_witness:
  "value_of (CancelTask calm ''e1'') world1 = Inr ()
    \<and> task_status (final (CancelTask calm ''e1'') world1) ''e1'' = Some ''cancelled''"
  using cancel_task_semantics [of world1 calm "''e1''"] by simp

text \<open>
  A task is cancelled once: after a request to cancel was answered with 200, the next one for
  the same task is answered with 409, whatever faults the database shows.
\<close>

theorem cancel_answered_once:
  fixes w :: "'x world_scheme"
  assumes "db_ok w" "rs_status (value_of (HandleCancelTask E ctx i) w) = 200"
  shows "rs_status (value_of (HandleCancelTask E ctx i) (final (HandleCancelTask E ctx i) w)) = 409"
proof -
  have ok: "i \<noteq> []" "value_of (CancelTask E i) w = Inr ()"
    using assms(2) by (auto simp: HandleCancelTask_def split: sum.splits if_splits)
  have "final (HandleCancelTask E ctx i) w = final (CancelTask E i) w"
    using ok by (simp add: HandleCancelTask_def)
  moreover have "value_of (CancelTask E i) (final (CancelTask E i) w) \<noteq> Inr ()"
    using assms(1) ok(2) by (rule sqlc.cancelled_once)
  ultimately show ?thesis using ok(1) by (auto simp: HandleCancelTask_def split: sum.split)
qed

lemma cancel0: "rs_status (value_of (HandleCancelTask calm ctx0 ''e1'') world1) = 200"
  by (simp add: HandleCancelTask_def cancel_value)

theorem cancel_answered_once_witness:
  "rs_status (value_of (HandleCancelTask calm ctx0 ''e1'') (final (HandleCancelTask calm ctx0 ''e1'') world1)) = 409"
  using cancel_answered_once [OF worlds_ok(1) cancel0] .

lemma reset_final:
  assumes "answers E w"
  shows "final (AdminResetTaskForRetry E i) w
    = w\<lparr> tick := Suc (tick w), events := update_rows (retryable_row i) (reset_row (db_now E (tick w))) (events w) \<rparr>"
proof (cases "find (retryable_row i) (events w)")
  case None
  then have "update_rows (retryable_row i) f (events w) = events w" for f
    by (auto simp: update_rows_def find_None_iff intro!: map_idI)
  with None assms show ?thesis by (simp add: AdminResetTaskForRetry_def ResetTaskForRetry_def)
qed (use assms in \<open>simp add: AdminResetTaskForRetry_def ResetTaskForRetry_def\<close>)

text \<open>
  C22: ResetTaskForRetry succeeds exactly on a failed or cancelled task and returns the priority the
  task was stored with (medium when it has none). It sets that task's status to pending and its
  time of change to the time of the database; every other column of it, every other task and
  every other table stay as they are.
\<close>

theorem reset_semantics:
  assumes "db_ok w" "answers E w"
  shows "value_of (AdminResetTaskForRetry E i) w =
      (if retryable w i then Inr (retry_priority w i) else Inl ErrNotRetryable)
    \<and> final (AdminResetTaskForRetry E i) w = w\<lparr> tick := Suc (tick w), events := map
        (\<lambda>e. if ev_id e = i \<and> (ev_status e = Some ''failed'' \<or> ev_status e = Some ''cancelled'')
          then e\<lparr> ev_status := Some ''pending'', ev_updated_at := Some (db_now E (tick w)) \<rparr> else e) (events w) \<rparr>
    \<and> (\<forall>j. task_status (final (AdminResetTaskForRetry E i) w) j =
        (if j = i \<and> retryable w i then Some ''pending'' else task_status w j))"
proof -
  have "task_status (final (AdminResetTaskForRetry E i) w) j =
      (if j = i \<and> retryable w i then Some ''pending'' else task_status w j)" for j
    using reset_lookup [OF assms, of i j]
    by (cases "lookup w i") (auto simp: task_status_def retryable_def reset_row_def stamp_def)
  then show ?thesis
    using reset_value [OF assms, of i]
      reset_final [OF assms(2), of i, unfolded update_rows_def retryable_row_def reset_row_def stamp_def]
    by (simp cong: if_cong)
qed

theorem reset_semantics_witness:
  "value_of (AdminResetTaskForRetry calm ''e1'') world_failed = Inr ''high''
    \<and> task_status (final (AdminResetTaskForRetry calm ''e1'') world_failed) ''e1'' = Some ''pending''"
proof -
  have "db_ok world_failed" "answers calm world_failed" by simp_all
  note reset = reset_semantics [OF this, of "''e1''"]
  show ?thesis
    using reset [THEN conjunct1] reset [THEN conjunct2, THEN conjunct2, rule_format, of "''e1''"]
    by (simp add: retryable_def retry_priority_def event0_def text_or_empty_def)
qed

text \<open>
  A result that a worker has recorded is still there after the status is set: once both
  updates have succeeded, reading the task gives that result and that status.
\<close>

theorem result_kept:
  fixes w :: "'x db_scheme"
  assumes "value_of (RepoUpdateEventResult E i r) w = Inr ()" "lookup w i = Some e0"
    and "value_of (RepoUpdateEventStatus E i st) (final (RepoUpdateEventResult E i r) w) = Inr ()"
    and "value_of (GetEventByID E i)
      (final (RepoUpdateEventStatus E i st) (final (RepoUpdateEventResult E i r) w)) = Inr e"
  shows "ev_result e = Some r \<and> ev_status e = Some st"
  using assms by (rule sqlc.result_survives_status)

lemma result0:
  "value_of (RepoUpdateEventResult calm ''e1'' r) world1 = Inr ()"
  "value_of (RepoUpdateEventStatus calm ''e1'' st) w = Inr ()"
  by (simp_all add: RepoUpdateEventResult_def UpdateEventResult_def RepoUpdateEventStatus_def UpdateEventStatus_def)

theorem result_kept_witness:
  "\<exists>e. value_of (GetEventByID calm ''e1'') (final (RepoUpdateEventStatus calm ''e1'' ''processed'')
      (final (RepoUpdateEventResult calm ''e1'' ''{}'') world1)) = Inr e
    \<and> ev_result e = Some ''{}'' \<and> ev_status e = Some ''processed''"
proof -
  define w where "w = final (RepoUpdateEventStatus calm ''e1'' ''processed'')
      (final (RepoUpdateEventResult calm ''e1'' ''{}'') world1)"
  have "lookup w ''e1'' \<noteq> None" by (simp add: w_def status_lookup result_lookup)
  then obtain e where "value_of (GetEventByID calm ''e1'') w = Inr e" by (auto simp: get_event_value)
  then show ?thesis
    using result_kept [OF result0(1) _ result0(2), of event0 "''processed''" "''{}''" e]
    by (auto simp: w_def)
qed

section \<open>Idempotency keys\<close>

text \<open>
  A key is taken once: after a recording that reported the key as new, recording it again for
  any task never reports it as new, whatever faults the database shows.
\<close>

theorem key_taken_once:
  fixes w :: "'x db_scheme"
  assumes "db_ok w" "value_of (CheckAndRecordToDB E k i meta) w = Inr False"
  shows "value_of (CheckAndRecordToDB E k j meta) (final (CheckAndRecordToDB E k i meta) w) \<noteq> Inr False"
  using assms by (rule keys.taken_once)

theorem key_taken_once_witness:
  "value_of (CheckAndRecordToDB calm ''k'' ''e2'' None) (final (CheckAndRecordToDB calm ''k'' ''e1'' None) world1)
    \<noteq> Inr False"
  by (rule key_taken_once [OF worlds_ok(1)])
    (simp add: record_value world1_def world0_def key_row_def lookup_def find_row_Cons event0_def)

text \<open>
  A key whose row has expired but has not been cleaned up is no protection and is not renewed:
  the check does not see it, recording reports it as taken, and the row stays as it is.
\<close>

theorem expired_key_not_renewed:
  fixes w :: "'x db_scheme"
  assumes "db_ok w" "db_up E" "key_row w k = Some r" "\<forall>t. \<not> key_active (db_now E t) r"
  shows "value_of (Isprocessed E k) w = Inr (False, [])
    \<and> value_of (CheckAndRecordToDB E k i meta) w = Inr True
    \<and> idempotency_keys (final (CheckAndRecordToDB E k i meta) w) = idempotency_keys w"
  using assms by (simp add: active_value record_value record_final)

theorem expired_key_not_renewed_witness:
  "value_of (Isprocessed calm (request_key req0)) (world_key 0) = Inr (False, [])
    \<and> value_of (CheckAndRecordToDB calm (request_key req0) ''e2'' None) (world_key 0) = Inr True"
  using expired_key_not_renewed [OF worlds_ok(3) calm_up(1) key_row_world, of 0]
  by (simp add: key0_def key_active_def calm_def)

text \<open>
  The statistics add up: every key is either active or expired. After a clean-up that reports
  n rows there are n keys fewer, and no key is left that expired before the time of the clean-up.
\<close>

theorem cleanup_statistics:
  assumes "db_ok w" "value_of (CleanupExpired E) w = Inr n"
    and "value_of (GetStats E) (final (CleanupExpired E) w) = Inr (n_all, active, expired)"
  shows "n_all = active + expired \<and> n_all + n = length (idempotency_keys w)
    \<and> (\<forall>r\<in>set (idempotency_keys (final (CleanupExpired E) w)). \<not> key_expired (db_now E (tick w)) r)"
proof -
  have n: "value_of (DeleteExpiredIdempotencyKeys E) w = Inr n"
    using assms(2) by (simp add: CleanupExpired_def)
  then have a: "answers E w" unfolding DeleteExpiredIdempotencyKeys_def by (blast dest: value_exec_Inr)
  then have d: "n = count_rows (key_expired (db_now E (tick w))) (idempotency_keys w)"
    using n by (simp add: DeleteExpiredIdempotencyKeys_def)
  define w' where "w' = final (CleanupExpired E) w"
  have w': "idempotency_keys w' = filter (\<lambda>r. \<not> key_expired (db_now E (tick w)) r) (idempotency_keys w)"
    using a by (simp add: w'_def CleanupExpired_def DeleteExpiredIdempotencyKeys_def)
  have "db_ok w'" unfolding w'_def by (intro keepsD [OF ok_idempotency(3)] assms(1))
  then have dated: "\<forall>r\<in>set (idempotency_keys w'). ik_expires_at r \<noteq> None" by (simp add: db_ok_def)
  have split: "length rs = count_rows (key_active now) rs + count_rows (key_past now) rs"
    if "\<forall>r\<in>set rs. ik_expires_at r \<noteq> None" for rs now
    using that by (induction rs) (auto simp: count_rows_def key_active_def key_past_def)
  obtain now where "n_all = length (idempotency_keys w')"
    "active = count_rows (key_active now) (idempotency_keys w')"
    "expired = count_rows (key_past now) (idempotency_keys w')"
    using assms(3) unfolding w'_def [symmetric]
    by (auto simp: GetStats_def GetIdempotencyKeyStats_def value_query wrap_result_def split: option.splits sum.splits)
  moreover have "length (filter (\<lambda>r. \<not> P r) rs) + count_rows P rs = length rs" for P and rs :: "idempotency_key list"
    by (induction rs) (simp_all add: count_rows_def)
  ultimately show ?thesis
    using d split [OF dated] unfolding w'_def [symmetric] by (simp add: w')
qed

lemma calm_now [simp]: "db_now calm t = 1800000000000000"
  by (simp add: calm_def)

lemma cleanup0:
  "value_of (CleanupExpired calm) (world_key 0) = Inr 1"
  "value_of (GetStats calm) (final (CleanupExpired calm) (world_key 0)) = Inr (0, 0, 0)"
  using calm_up(1)
  by (simp_all add: CleanupExpired_def DeleteExpiredIdempotencyKeys_def GetStats_def
      GetIdempotencyKeyStats_def count_rows_def key_expired_def calm_now
      world_key_def key0_def wrap_result_def)

theorem cleanup_statistics_witness:
  "(0::nat) = 0 + 0 \<and> 0 + 1 = length (idempotency_keys (world_key 0))"
  using cleanup_statistics [OF worlds_ok(3) cleanup0] by blast

text \<open>
  C29: A submission whose key is stored but expired is accepted each time it is sent: as long as
  nobody cleans up, the key protects against no duplicate.
\<close>

theorem expired_key_accepts_duplicates:
  fixes w :: "'x world_scheme" and ctx :: ctx
  assumes "db_up E" "queue_up E" "db_ok w"
    and "decode_stream decode_request empty_request body = (r, True)"
    and "passes (default_priority r)" "tr_execute_at r = None"
    and "key_row w (request_key (default_priority r)) = Some k" "\<forall>t. \<not> key_active (db_now E t) k"
    and "inj (new_uuid E)" "\<forall>t. lookup w (new_uuid E t) = None"
    and "writable_times r"
  defines "w' \<equiv> final (HandleCreateTask E ctx body) w"
  shows "rs_status (value_of (HandleCreateTask E ctx body) w) = 200
    \<and> rs_status (value_of (HandleCreateTask E ctx body) w') = 200
    \<and> length (events (final (HandleCreateTask E ctx body) w')) = length (events w) + 2"
proof -
  have first: "unprotected E w (request_key (default_priority r))"
    using assms(7,8) by (auto simp: unprotected_def)
  from assms(10) have "\<forall>t\<ge>tick w. lookup w (new_uuid E t) = None" by blast
  from create_unprotected [OF assms(1-6) first this assms(11), of ctx]
  obtain t row where one: "rs_status (value_of (HandleCreateTask E ctx body) w) = 200"
    "events w' = events w @ [row]" "ev_id row = new_uuid E t" "t < tick w'"
    "key_row w' (request_key (default_priority r)) = Some k"
    unfolding w'_def using assms(7) by (metis option.distinct(1))
  have "db_ok w'" unfolding w'_def by (rule keepsD [OF ok_create assms(3)])
  moreover have "unprotected E w' (request_key (default_priority r))"
    using one(5) assms(8) by (auto simp: unprotected_def)
  moreover have "\<forall>u\<ge>tick w'. lookup w' (new_uuid E u) = None"
    using assms(9,10) one(2-4) by (auto simp: lookup_None inj_eq)
  ultimately show ?thesis
    using create_unprotected [OF assms(1,2) _ assms(4-6) _ _ assms(11), of w' ctx] one(1,2)
    by (metis (no_types, lifting) add_2_eq_Suc' append_assoc length_append_singleton)
qed

lemma events_key: "events (world_key x) = [event0]"
  by (simp add: world_key_def world1_def)

theorem expired_key_accepts_duplicates_witness:
  "rs_status (value_of (HandleCreateTask calm ctx0 body0) (world_key 0)) = 200
    \<and> length (events (final (HandleCreateTask calm ctx0 body0)
        (final (HandleCreateTask calm ctx0 body0) (world_key 0)))) = 3"
proof -
  have "\<forall>t. \<not> key_active (db_now calm t) (key0 0)" by (simp add: key_active_def key0_def calm_def)
  from expired_key_accepts_duplicates [OF calm_up(1,2) worlds_ok(3) decode_body0 _ _ _ this calm_uuids(1), of 0 ctx0]
  show ?thesis
    using calm_uuids(2) by (simp add: default_req0 passes_req0 writable_req0 events_key)
qed

text \<open>
  Two requests with the same key that overlap are both accepted: when both run the idempotency
  check before either has recorded the key, both are answered with 200, two tasks are stored, the
  queue is called twice, and the key belongs to the first; that the second recording reports the
  key as taken is not looked at.
\<close>

theorem overlapping_duplicates:
  fixes w :: "'x world_scheme" and c1 c2 :: ctx and req :: task_request
  assumes "db_up E" "queue_up E" "db_ok w" "key_row w (request_key req) = None"
    and "inj (new_uuid E)" "\<forall>t. lookup w (new_uuid E t) = None"
    and "\<forall>tp. marshal_request (set_trace tp req) \<noteq> None"
  defines "w1 \<equiv> final (create_check E c1 req) w"
  defines "w2 \<equiv> final (create_check E c2 req) w1"
  defines "w3 \<equiv> final (create_persist E c1 req (request_key req)) w2"
  defines "w4 \<equiv> final (create_persist E c2 req (request_key req)) w3"
  shows "value_of (create_check E c1 req) w = Inr (request_key req)
    \<and> value_of (create_check E c2 req) w1 = Inr (request_key req)
    \<and> rs_status (value_of (create_persist E c1 req (request_key req)) w2) = 200
    \<and> rs_status (value_of (create_persist E c2 req (request_key req)) w3) = 200
    \<and> length (events w4) = length (events w) + 2 \<and> length (queue_log w4) = length (queue_log w) + 2
    \<and> key_owner w4 (request_key req) = Some (new_uuid E (tick w2))"
proof -
  have t: "tables w1 = tables w" "tables w2 = tables w"
    unfolding w1_def w2_def by (simp_all add: framesD [OF create_check_frames])
  have checks: "value_of (create_check E c1 req) w = Inr (request_key req)"
    "value_of (create_check E c2 req) w1 = Inr (request_key req)"
    using create_check_free [OF assms(1), of w req c1] create_check_free [OF assms(1), of w1 req c2]
      assms(3,4) same_tables [OF t(1)] by (simp_all add: unprotected_None)
  have "lookup w2 (new_uuid E (tick w2)) = None" using same_tables(1) [OF t(2)] assms(6) by simp
  from create_persist_up [OF assms(1,2) this assms(7), of c1 "request_key req"]
  obtain row c t' meta where p: "rs_status (value_of (create_persist E c1 req (request_key req)) w2) = 200"
    "events w3 = events w2 @ [row]" "ev_id row = new_uuid E (tick w2)" "queue_log w3 = queue_log w2 @ [c]"
    "tick w2 < tick w3"
    "idempotency_keys w3 = idempotency_keys w2 @ [recorded_key E t' (request_key req) (new_uuid E (tick w2)) meta]"
    unfolding w3_def using assms(4) same_tables(2) [OF t(2)] by metis
  have key: "key_row w3 (request_key req) = Some (recorded_key E t' (request_key req) (new_uuid E (tick w2)) meta)"
    using assms(4) same_tables(2) [OF t(2)] p(6)
    by (simp add: key_row_def find_row_append find_row_Cons recorded_key_def)
  have "events w2 = events w" "queue_log w2 = queue_log w" using t(2) by (simp_all add: tables_def)
  moreover have "lookup w3 (new_uuid E (tick w3)) = None"
    using assms(5,6) p(2,3,5) calculation by (auto simp: lookup_None inj_eq)
  from create_persist_up [OF assms(1,2) this assms(7), of c2 "request_key req"]
  obtain row' c' where "rs_status (value_of (create_persist E c2 req (request_key req)) w3) = 200"
    "events w4 = events w3 @ [row']" "queue_log w4 = queue_log w3 @ [c']" "idempotency_keys w4 = idempotency_keys w3"
    unfolding w4_def using key by (metis option.distinct(1))
  ultimately show ?thesis
    using checks p key by (simp add: key_owner_def key_row_def recorded_key_def)
qed

theorem overlapping_duplicates_witness:
  "\<exists>(w2 :: world) (w4 :: world). rs_status (value_of (create_persist calm ctx0 req0 (request_key req0)) w2) = 200
    \<and> length (events w4) = 2 \<and> length (queue_log w4) = 2
    \<and> key_owner w4 (request_key req0) = Some (new_uuid calm (tick w2))"
  using overlapping_duplicates [OF calm_up(1,2) world0_ok world0_free(2) calm_uuids(1), of req0 ctx0 ctx0]
  by (simp add: marshal_req0 numeral_2_eq_2) blast

section \<open>Requests on their way to the worker\<close>

text \<open>
  C23: What is stored for a request is read back as that request: decoding the marshalled text
  gives the type, the payload as canonical text, the priority, the time, the next step and the
  trace context that were there (texts with their invalid UTF-8 replaced), and no error.
\<close>

theorem stored_request_roundtrip:
  assumes "request_ok r" "marshal_request r = Some s"
  shows "unmarshal decode_request empty_request s = (normal_request r, True)"
  using request.unmarshal_encode [OF assms(1)] marshal_request_json [OF assms(2)] by simp

lemma depth_req0: "case request_json req0 of None \<Rightarrow> False | Some j \<Rightarrow> jdepth j \<le> max_depth"
  by code_simp

lemma request_ok0: "request_ok req0"
  using depth_req0 by (auto simp: request_ok_def req0_def simp del: request_json.simps split: option.splits)

theorem stored_request_roundtrip_witness:
  "\<exists>s. marshal_request req0 = Some s \<and> unmarshal decode_request empty_request s = (normal_request req0, True)"
proof -
  have "set_trace [] req0 = req0" by (simp add: set_trace_def req0_def)
  then obtain s where s: "marshal_request req0 = Some s" using marshal_req0 [of "[]"] by auto
  then show ?thesis using stored_request_roundtrip [OF request_ok0 s] by blast
qed

text \<open>
  A worker that reads the row of a stored request gets that request's payload in canonical
  form, its trace context, its next step as text, and the row's own identifier as the root of the
  chain unless the row has a parent.
\<close>

theorem worker_reads_request:
  assumes "request_ok r" "marshal_request r = Some s" "ev_payload e = s"
  shows "wt_id (task_of e) = ev_id e \<and> wt_type (task_of e) = ev_type e
    \<and> wt_payload (task_of e) = normal_raw (tr_payload r)
    \<and> wt_metadata (task_of e) ''next'' =
        (case tr_next r of None \<Rightarrow> None | Some n \<Rightarrow> marshal_request n)
    \<and> wt_metadata (task_of e) ''root_task_id'' =
        Some (if text_or_empty (ev_parentid e) = [] then ev_id e else text_or_empty (ev_parentid e))"
  using assms by (rule task_reads_request)

theorem worker_reads_request_witness:
  "\<exists>s. wt_payload (task_of (event0\<lparr> ev_payload := s \<rparr>)) = normal_raw payload0
    \<and> wt_metadata (task_of (event0\<lparr> ev_payload := s \<rparr>)) ''root_task_id'' = Some ''e1''"
proof -
  have "set_trace [] req0 = req0" by (simp add: set_trace_def req0_def)
  then obtain s where s: "marshal_request req0 = Some s" using marshal_req0 [of "[]"] by auto
  show ?thesis
    using worker_reads_request [OF request_ok0 s, of "event0\<lparr> ev_payload := s \<rparr>"]
    by (intro exI [of _ s]) (simp add: req0_def event0_def text_or_empty_def)
qed

section \<open>Validation\<close>

text \<open>
  The validator accepts exactly this: a payload that is a document, for resize_image one that
  decodes into parameters in range, for scrape_url one with a non-empty url, for generate_report
  any object or null; every other task type is refused.
\<close>

theorem validate_accepts:
  "Validate ty s = None \<longleftrightarrow> (\<exists>j. jparse s = Some j \<and>
    (ty = ''resize_image'' \<and> snd (decode_resize empty_resize j) = NoErr \<and> resize_ok (fst (decode_resize empty_resize j))
     \<or> ty = ''scrape_url'' \<and> snd (decode_url [] j) = NoErr \<and> fst (decode_url [] j) \<noteq> []
     \<or> ty = ''generate_report'' \<and> (case j of JObj ms \<Rightarrow> True | JNull \<Rightarrow> True | _ \<Rightarrow> False)))"
  by (auto simp: Validate_def unmarshal_def check_resize_None decode_raw_map_def
      split: option.splits prod.splits json.splits if_splits)

text \<open>
  The validator judges the text that is stored as it judged the text that was sent, so a
  worker never reads a payload that validation would have refused.
\<close>

theorem stored_payload_valid:
  assumes "Validate ty s = None"
  shows "Validate ty (normal_raw s) = None"
proof -
  obtain j where "jparse s = Some j" using Validate_parses [OF assms] by blast
  moreover from this have "s \<noteq> []" by (auto simp: jparse_Nil)
  ultimately have "compact s = Some (normal_raw s)"
    by (simp add: compact_def normal_raw_def raw_json_def)
  then show ?thesis using Validate_compact [of s "normal_raw s" ty] assms by simp
qed

theorem stored_payload_valid_witness: "Validate ''scrape_url'' (normal_raw payload0) = None"
proof (rule stored_payload_valid)
  show "Validate ''scrape_url'' payload0 = None" using passes_req0 by (simp add: passes_def req0_def)
qed

section \<open>The submission properties on concrete requests\<close>

theorem create_task_accepted_witness:
  "\<exists>i req full t. lookup world0 i = None
    \<and> events (final (HandleCreateTask calm ctx0 body0) world0) = [accepted_row calm ctx0 t i req full]
    \<and> queue_log (final (HandleCreateTask calm ctx0 body0) world0) = [submitted i req]"
  using create_task_accepted [OF create0] by fastforce

definition body_report :: string where
  "body_report = ''{\"type\":\"generate_report\",\"payload\":{}}''"

lemma decode_report: "decode_stream decode_request empty_request body_report
    = (TaskRequest ''generate_report'' ''{}'' [] None None [], True)"
  by code_simp

theorem direct_report_refused_witness:
  "rs_status (value_of (HandleCreateTask calm ctx0 body_report) world0) = 400
    \<and> tables (final (HandleCreateTask calm ctx0 body_report) world0) = tables world0"
  by (rule direct_report_refused [OF decode_report]) simp

lemma report0: "rs_status (value_of (HandleCreateTask calm ctx0 body_report) world0) = 400"
  by (simp add: HandleCreateTask_def decode_report create_validated_def)

theorem create_task_refused_witness:
  "tables (final (HandleCreateTask calm ctx0 body_report) world0) = tables world0"
  by (rule create_task_refused) (simp add: report0)

theorem create_task_succeeds_witness:
  "rs_status (value_of (HandleCreateTask calm ctx0 body0) world0) = 200"
  by (rule create_task_succeeds [OF _ _ _ decode_body0]) (simp_all add: default_req0 passes_req0 writable_req0)

theorem duplicate_submission_witness:
  "rs_status (value_of (HandleCreateTask calm ctx0 body0) (world_key 2000000000000000)) = 409"
proof -
  have "\<forall>t. key_active (db_now calm t) (key0 2000000000000000)" by (simp add: key_active_def key0_def)
  from duplicate_submission [OF submittable0 calm_up(1) worlds_ok(3) key_row_world this]
  show ?thesis by simp
qed

theorem failed_enqueue_blocks_retry_witness:
  "\<exists>i. task_status (final (HandleCreateTask no_queue ctx0 body0) world0) i = Some ''failed''
    \<and> rs_status (value_of (HandleCreateTask no_queue ctx0 body0) world0) = 500"
  using failed_enqueue_blocks_retry [OF submittable0 calm_up(3,4) calm_lasting(2) world0_ok world0_free(2), of ctx0]
  by (auto simp: writable_req0)

end
