(* ===== verification/Worker_Properties.thy ===== *)
theory Worker_Properties
  imports Worker Store_Properties
begin

text \<open>
  What the worker's side guarantees: what a run of a task leaves behind, how a chain of tasks goes
  on and ends, what the scraper stores and the report reads, and which addresses a task may make
  the server connect to. The scenario is that of Scenario with a small web behind it.
\<close>

section \<open>A small web\<close>

definition doc0 :: html_node where
  "doc0 = HtmlNode ElementNode ''html'' []
    [HtmlNode ElementNode ''title'' [] [HtmlNode TextNode ''A page'' [] []],
     HtmlNode ElementNode ''script'' [] [HtmlNode TextNode ''var x'' [] []],
     HtmlNode ElementNode ''h1'' [] [HtmlNode TextNode '' Head '' [] []],
     HtmlNode ElementNode ''a'' [(''href'', ''http://b/'')] [HtmlNode TextNode ''link'' [] []]]"

definition web0 :: "unit services" where
  "web0 = \<lparr> lookup_host = (\<lambda>t host. Inr [''93.184.216.34'']), new_request_error = (\<lambda>u. None),
    http_get = (\<lambda>t dial url. case dial ''a:80'' of
        DialTo a \<Rightarrow> Inr \<lparr> rp_code = 200, rp_body = ''<html>'', rp_read_error = None \<rparr>
      | DialError e \<Rightarrow> Inl e | DialPanic m \<Rightarrow> Inl (ErrorString m)),
    html_parse = (\<lambda>b e. Inr doc0), image_decode = (\<lambda>b. Inr ()),
    image_fill = (\<lambda>i w h. ()), image_stretch = (\<lambda>i w h. ()), image_fit = (\<lambda>i w h. ()),
    encode_png = (\<lambda>i. Inr ''png''), encode_jpeg = (\<lambda>i q. Inr ''jpeg'') \<rparr>"

definition report_req :: task_request where
  "report_req = TaskRequest ''generate_report'' ''{}'' [] None None []"

definition chain_req :: task_request where
  "chain_req = TaskRequest ''scrape_url'' payload0 ''medium'' None (Some report_req) []"

definition chain_text :: string where
  "chain_text = the (marshal_request chain_req)"

definition chain_event :: event where
  "chain_event = event0\<lparr> ev_payload := chain_text \<rparr>"

definition world_chain :: world where
  "world_chain = world0\<lparr> events := [chain_event] \<rparr>"

lemma web_dial [simp]: "http_get web0 t (SafeDial (lookup_host web0 t')) url
    = Inr \<lparr> rp_code = 200, rp_body = ''<html>'', rp_read_error = None \<rparr>"
proof -
  have "SafeDial (\<lambda>host. Inr [''93.184.216.34'']) ''a:80'' = DialTo ''93.184.216.34:80''"
    by code_simp
  then show ?thesis by (simp add: web0_def)
qed

lemma chain_req_ok: "request_ok chain_req" "marshal_request chain_req = Some chain_text"
proof -
  have "case request_json chain_req of None \<Rightarrow> False | Some j \<Rightarrow> jdepth j \<le> max_depth" by code_simp
  then obtain j where j: "request_json chain_req = Some j" "jdepth j \<le> max_depth"
    by (auto split: option.splits)
  moreover have "valid_times chain_req" by (simp add: chain_req_def report_req_def)
  ultimately show "request_ok chain_req" by (simp add: request_ok_def)
  from j(1) show "marshal_request chain_req = Some chain_text"
    by (simp add: chain_text_def marshal_request_def)
qed

section \<open>One run of a task\<close>

lemma child_row_fields [simp]:
  "ev_id (child_row E t i task nxt full) = i" "ev_type (child_row E t i task nxt full) = tr_type nxt"
  "ev_payload (child_row E t i task nxt full) = full"
  "ev_status (child_row E t i task nxt full) = Some ''pending''"
  "ev_parentid (child_row E t i task nxt full) = opt_text (chain_root task)"
  "ev_priority (child_row E t i task nxt full) = opt_text (tr_priority nxt)"
  "ev_trace_id (child_row E t i task nxt full) = meta task ''trace_id''"
  "ev_result (child_row E t i task nxt full) = None"
  by (simp_all add: child_row_def saved_event_def)

lemma lookup_snoc: "events w' = es @ [c] \<Longrightarrow> ev_id c \<notin> ev_id ` set es \<Longrightarrow>
    lookup w' j = (if j = ev_id c then Some c else find_row ev_id j es)"
proof -
  assume w: "events w' = es @ [c]" and "ev_id c \<notin> ev_id ` set es"
  then have "find_row ev_id (ev_id c) es = None" by (simp add: find_row_None_iff)
  with w show ?thesis by (auto simp: lookup_def find_row_append find_row_Cons split: option.split)
qed

lemma run_adds_row:
  assumes "mux E S storage (wt_type task) = Some f" "declared_next task = Some nxt"
    "value_of (f task) w = None"
  shows "\<exists>t full. marshal_request nxt = Some full \<and> lookup w (new_uuid E t) = None
    \<and> map ev_id (events (final (f task) w)) = map ev_id (events w) @ [new_uuid E t]
    \<and> lookup (final (f task) w) (new_uuid E t) = Some (child_row E (Suc t) (new_uuid E t) task nxt full)
    \<and> (\<forall>j. j \<noteq> new_uuid E t \<longrightarrow> task_status (final (f task) w) j = task_status w j)
    \<and> queue_log (final (f task) w) = queue_log w @ [submitted (new_uuid E t) nxt]"
proof -
  obtain h where f: "f = Wrap E h" "worker_handler h" using assms(1) by (rule mux_cases)
  obtain full t where run: "marshal_request nxt = Some full" "lookup w (new_uuid E t) = None"
    "events (final (Wrap E h task) w) = events (final (h task) w) @ [child_row E (Suc t) (new_uuid E t) task nxt full]"
    "queue_log (final (Wrap E h task) w) = queue_log w @ [submitted (new_uuid E t) nxt]"
    using worker_handler.run_with_next [OF f(2) assms(2), of E w] assms(3) f(1) by metis
  note ids = worker_handler.keeps_ids [OF f(2), of task w]
  have "new_uuid E t \<notin> ev_id ` set (events (final (h task) w))"
    using run(2) ids by (metis lookup_None list.set_map)
  then have lu: "lookup (final (f task) w) j = (if j = new_uuid E t
      then Some (child_row E (Suc t) (new_uuid E t) task nxt full) else lookup (final (h task) w) j)" for j
    using lookup_snoc [OF run(3), of j] by (simp add: f(1) lookup_def)
  then have "\<forall>j. j \<noteq> new_uuid E t \<longrightarrow> task_status (final (f task) w) j = task_status w j"
    using worker_handler.keeps_status [OF f(2), of task w] by (simp add: task_status_def)
  with run ids lu show ?thesis by (auto simp: f(1))
qed

text \<open>
  C15: When a registered handler and its wrapper report success for a task that declares a next
  step, exactly one row was added, under a fresh identifier: the declared step, pending, with the
  parent's trace and the root of the chain; it was handed to the queue exactly once; no other task
  changed its status.
\<close>

theorem chain_step_once:
  assumes "mux E S storage (wt_type task) = Some f" "declared_next task = Some nxt"
    "value_of (f task) w = None"
  shows "\<exists>t full. marshal_request nxt = Some full \<and> lookup w (new_uuid E t) = None
    \<and> map ev_id (events (final (f task) w)) = map ev_id (events w) @ [new_uuid E t]
    \<and> lookup (final (f task) w) (new_uuid E t) = Some (child_row E (Suc t) (new_uuid E t) task nxt full)
    \<and> (\<forall>j. j \<noteq> new_uuid E t \<longrightarrow> task_status (final (f task) w) j = task_status w j)
    \<and> queue_log (final (f task) w) = queue_log w @ [submitted (new_uuid E t) nxt]"
  using assms by (rule run_adds_row)

text \<open>
  When the handler of a task fails, its wrapper reports that very error, adds no row, calls no
  queue and changes no status, whatever next step the task declares.
\<close>

theorem failed_step_stops:
  assumes "map_of (task_handlers E S storage) (wt_type task) = Some h" "value_of (h task) w = Some err"
  shows "\<exists>f. mux E S storage (wt_type task) = Some f \<and> value_of (f task) w = Some err
    \<and> queue_log (final (f task) w) = queue_log w
    \<and> map ev_id (events (final (f task) w)) = map ev_id (events w)
    \<and> (\<forall>j. task_status (final (f task) w) j = task_status w j)"
proof -
  have m: "mux E S storage (wt_type task) = Some (Wrap E h)" by (simp add: mux_def assms(1))
  note h = registered [OF assms(1)]
  have "final (Wrap E h task) w = final (h task) w" using Wrap_error [of h task w err E] assms(2) by simp
  then show ?thesis
    using worker_handler.failed_run [OF h assms(2), of E] worker_handler.keeps_status [OF h, of task w] m by auto
qed

text \<open>
  C27: When the queue refuses the next step of a task whose handler succeeded, the run reports an
  error although the next step is stored; a second run of the same task stores it a second time.
  Both rows stay pending and every call to the queue was refused.
\<close>

theorem unqueued_step_stored_twice:
  fixes w :: "'x world_scheme"
  assumes "map_of (task_handlers E S storage) (wt_type task) = Some h"
    and "value_of (h task) w = None" "value_of (h task) (final (Wrap E h task) w) = None"
    and "declared_next task = Some nxt" "marshal_request nxt = Some full"
    and "db_up E" "queue_down E" "inj (new_uuid E)" "\<And>t. lookup w (new_uuid E t) = None"
  shows "\<exists>i j c d w2. i \<noteq> j \<and> w2 = final (Wrap E h task) (final (Wrap E h task) w)
    \<and> value_of (Wrap E h task) w \<noteq> None \<and> value_of (Wrap E h task) (final (Wrap E h task) w) \<noteq> None
    \<and> map ev_id (events w2) = map ev_id (events w) @ [i, j]
    \<and> (\<forall>k. k = i \<or> k = j \<longrightarrow> task_status w2 k = Some ''pending'')
    \<and> queue_log w2 = queue_log w @ [c, d] \<and> refused_call c \<and> refused_call d"
proof -
  define w1 where "w1 = final (Wrap E h task) w"
  note h = registered [OF assms(1)]
  note run = worker_handler.run_unqueued [OF h _ assms(4,5,6,7)]
  obtain t e1 c where r1: "tick w \<le> t" "t < tick w1" "value_of (Wrap E h task) w = Some e1"
    "events w1 = events (final (h task) w) @ [child_row E (Suc t) (new_uuid E t) task nxt full]"
    "queue_log w1 = queue_log w @ [c]" "refused_call c"
    using run [OF assms(2,9)] unfolding w1_def by blast
  have ids1: "map ev_id (events w1) = map ev_id (events w) @ [new_uuid E t]"
    using r1(4) worker_handler.keeps_ids [OF h, of task w] by simp
  have free: "lookup w1 (new_uuid E t') = None" if "tick w1 \<le> t'" for t'
  proof -
    have "new_uuid E t' \<noteq> new_uuid E t" using that r1(2) assms(8) by (auto dest: injD)
    moreover have "new_uuid E t' \<notin> set (map ev_id (events w))" using assms(9) by (simp add: lookup_None)
    ultimately have "new_uuid E t' \<notin> set (map ev_id (events w1))" unfolding ids1 by simp
    then show ?thesis by (simp add: lookup_None)
  qed
  obtain t2 e2 d where r2: "tick w1 \<le> t2" "value_of (Wrap E h task) w1 = Some e2"
    "events (final (Wrap E h task) w1) = events (final (h task) w1) @ [child_row E (Suc t2) (new_uuid E t2) task nxt full]"
    "queue_log (final (Wrap E h task) w1) = queue_log w1 @ [d]" "refused_call d"
    using run [OF assms(3) [folded w1_def] free] by blast
  have ids2: "map ev_id (events (final (Wrap E h task) w1)) = map ev_id (events w) @ [new_uuid E t, new_uuid E t2]"
    using r2(3) worker_handler.keeps_ids [OF h, of task w1] ids1 by simp
  have ne: "new_uuid E t \<noteq> new_uuid E t2" using r1(2) r2(1) assms(8) by (auto dest: injD)
  have st1: "task_status w1 (new_uuid E t) = Some ''pending''"
  proof -
    have "new_uuid E t \<notin> ev_id ` set (events (final (h task) w))"
      using assms(9) worker_handler.keeps_ids [OF h, of task w] by (metis lookup_None list.set_map)
    then show ?thesis using lookup_snoc [OF r1(4), of "new_uuid E t"] by (simp add: task_status_def)
  qed
  have new: "new_uuid E t2 \<notin> ev_id ` set (events (final (h task) w1))"
    using free [OF r2(1)] worker_handler.keeps_ids [OF h, of task w1] by (metis lookup_None list.set_map)
  have "task_status (final (Wrap E h task) w1) k = Some ''pending''" if "k = new_uuid E t \<or> k = new_uuid E t2" for k
    using that st1 new ne lookup_snoc [OF r2(3), of k] worker_handler.keeps_status [OF h, of task w1 k]
    by (auto simp: task_status_def lookup_def)
  then show ?thesis
    using ne ids2 r1 r2 unfolding w1_def by (intro exI [of _ "new_uuid E t"] exI [of _ "new_uuid E t2"]) auto
qed

section \<open>Applied to the small web\<close>

definition page_key0 :: string where
  "page_key0 = ''scraped/e1.json''"

lemma url0: "unmarshal decode_url [] payload0 = (''http://a'', True)"
  by code_simp

lemma save_result_up: "db_up E \<Longrightarrow> value_of (RepoUpdateEventResult E i r) w = Inr ()"
  by (simp add: RepoUpdateEventResult_def UpdateEventResult_def)

lemma store_file_up:
  "db_up E \<Longrightarrow> (\<And>t. put_object E t = None) \<Longrightarrow> value_of (store_file E label task key ct data) w = None"
  by (simp add: store_file_def Upload_def save_result_up)

lemma web_html [simp]: "html_parse web0 b e = Inr doc0"
  by (simp add: web0_def)

lemma scrape_page0: "value_of (scrape_page E web0 url) w = Inr (extractPage (clock E (Suc (tick w))) doc0 url)"
  by (simp add: scrape_page_def safe_get_def limited_def max_page_bytes_def)

lemma scrape_runs:
  assumes "db_up E" "\<And>t. put_object E t = None" "wt_payload task = payload0"
  shows "value_of (ScrapeURL E web0 True task) w = None"
  using assms by (simp add: ScrapeURL_def url0 scrape_page0 store_file_up)

definition task_chain :: worker_task where
  "task_chain = task_of chain_event"

lemma objects_up [simp]: "put_object calm t = None" "put_object no_queue t = None"
  by (simp_all add: calm_def no_queue_def)

lemma normal_payload0: "normal_raw payload0 = payload0"
  by code_simp

lemma task_chain [simp]: "wt_id task_chain = ''e1''" "wt_type task_chain = ''scrape_url''"
  "wt_payload task_chain = payload0" "declared_next task_chain = Some (normal_request report_req)"
  using task_reads_request [OF chain_req_ok, of chain_event] declared_next_row [OF chain_req_ok, of chain_event]
  by (simp_all add: task_chain_def chain_event_def event0_def chain_req_def normal_payload0 next_step_def report_req_def)


lemma create_next_up:
  fixes w :: "'x world_scheme"
  assumes "marshal_request nxt = Some full" "db_up E" "queue_up E" "lookup w (new_uuid E (tick w)) = None"
  shows "value_of (create_next E task nxt) w = None"
proof (rule create_next_saved [OF assms(1,2,4), of task])
  fix w1 :: "'x world_scheme"
  assume "value_of (create_next E task nxt) w
      = error_of (value_of (enqueue_or_schedule E (new_uuid E (tick w)) (tr_priority nxt) (tr_execute_at nxt)) w1)"
  moreover have "queue_fault E t = None" for t using assms(3) by (simp add: queue_up_def)
  ultimately show ?thesis by (simp add: enqueue_or_schedule_def error_of_def split: option.splits)
qed

lemma report_marshalled: "\<exists>full. marshal_request (normal_request report_req) = Some full"
proof -
  have "request_ok (normal_request report_req)"
    using request_ok_next [OF chain_req_ok(1)] by (intro request_ok_normal) (simp add: chain_req_def)
  then show ?thesis by (auto simp: request_ok_def marshal_request_def)
qed

lemma world_chain_free: "lookup world_chain (new_uuid calm t) = None" "lookup world_chain (new_uuid no_queue t) = None"
  using calm_uuids(2) [of t]
  by (auto simp: world_chain_def chain_event_def event0_def lookup_def find_row_Cons no_queue_def)

lemma chain_scrape_runs: "value_of (ScrapeURL calm web0 True task_chain) w = None"
    "value_of (ScrapeURL no_queue web0 True task_chain) w = None"
  by (rule scrape_runs; simp)+

lemma chain_run:
  assumes "\<And>t. lookup w0 (new_uuid calm t) = None"
  shows "value_of (Wrap calm (ScrapeURL calm web0 True) task_chain) w0 = None"
proof -
  define w where "w = final (ScrapeURL calm web0 True task_chain) w0"
  obtain full where full: "marshal_request (normal_request report_req) = Some full" using report_marshalled by blast
  have "lookup w (new_uuid calm (tick w)) = None"
    using scrape.keeps_ids [of calm web0 True task_chain w0] assms [of "tick w"]
    unfolding w_def by (metis lookup_None list.set_map)
  then show ?thesis
    using Wrap_next(1) [of "ScrapeURL calm web0 True" task_chain w0, OF chain_scrape_runs(1) task_chain(4)]
      create_next_up [OF full, of calm w task_chain] by (simp add: w_def)
qed

lemmas chain_run0 = chain_run [OF world_chain_free(1)]

lemma scrape_mux:
  "map_of (task_handlers E S storage) ''scrape_url'' = Some (ScrapeURL E S storage)"
  "mux E S storage ''scrape_url'' = Some (Wrap E (ScrapeURL E S storage))"
  by (simp_all add: mux_def task_handlers_def)

theorem chain_step_once_witness:
  "\<exists>i. map ev_id (events (final (Wrap calm (ScrapeURL calm web0 True) task_chain) world_chain)) = [''e1'', i]
    \<and> queue_log (final (Wrap calm (ScrapeURL calm web0 True) task_chain) world_chain)
      = [EnqueueCall i [] None]"
  using chain_step_once [of calm web0 True task_chain "Wrap calm (ScrapeURL calm web0 True)"
      "normal_request report_req" world_chain, OF _ _ chain_run0]
  by (auto simp: scrape_mux world_chain_def world0_def chain_event_def event0_def submitted_def report_req_def)

theorem failed_step_stops_witness:
  "\<exists>f. mux calm web0 False ''scrape_url'' = Some f
    \<and> value_of (f task_chain) world_chain = Some (ErrorString ''scrape: storage client not configured'')
    \<and> queue_log (final (f task_chain) world_chain) = []"
proof -
  have "value_of (ScrapeURL calm web0 False task_chain) world_chain = Some (ErrorString ''scrape: storage client not configured'')"
    by (simp add: ScrapeURL_def url0)
  from failed_step_stops [of calm web0 False task_chain, simplified, OF scrape_mux(1) this] show ?thesis
    by (auto simp: world_chain_def)
qed

theorem unqueued_step_stored_twice_witness:
  "\<exists>i j w2. i \<noteq> j \<and> w2 = final (Wrap no_queue (ScrapeURL no_queue web0 True) task_chain)
      (final (Wrap no_queue (ScrapeURL no_queue web0 True) task_chain) world_chain)
    \<and> map ev_id (events w2) = [''e1'', i, j]"
proof -
  obtain full where full: "marshal_request (normal_request report_req) = Some full" using report_marshalled by blast
  have inj: "inj (new_uuid no_queue)" using calm_uuids(1) by (simp add: no_queue_def)
  show ?thesis
    using unqueued_step_stored_twice [of no_queue web0 True task_chain "ScrapeURL no_queue web0 True" world_chain,
        OF _ chain_scrape_runs(2) chain_scrape_runs(2) task_chain(4) full calm_up(3,4) inj world_chain_free(2)]
    by (auto simp: scrape_mux world_chain_def chain_event_def event0_def)
qed

section \<open>How a chain goes on\<close>

text \<open>The steps a stored row still has before it.\<close>

definition steps_left :: "event \<Rightarrow> nat" where
  "steps_left e = (case declared_next (task_of e) of None \<Rightarrow> 0 | Some n \<Rightarrow> Suc (chain_steps n))"

lemma next_step_ok:
  assumes "request_ok r" "next_step r = Some nxt"
  obtains n where "tr_next r = Some n" "nxt = normal_request n" "request_ok n" "request_ok nxt"
  using assms request_ok_next [OF assms(1)]
  by (auto simp: next_step_def request_ok_normal split: option.splits if_splits)

lemma normal_raw_idem: "raw_json s = Some p \<Longrightarrow> normal_raw (normal_raw s) = normal_raw s"
  using raw_json_normal [of s p] by (simp add: normal_raw_def)

lemma payload_normal: "request_ok n \<Longrightarrow> normal_raw (tr_payload (normal_request n)) = tr_payload (normal_request n)"
proof (cases n)
  case (TaskRequest ty pl pr ex nx tc)
  moreover assume "request_ok n"
  ultimately obtain p where "raw_json pl = Some p" by (auto simp: request_ok_def split: bind_splits)
  then show ?thesis using normal_raw_idem TaskRequest by simp
qed

lemma next_step_less: "next_step r = Some n \<Longrightarrow> chain_steps n < chain_steps r"
  by (cases r) (auto simp: next_step_def split: option.splits if_splits)

text \<open>
  C16: The worker that reads the row of a next step gets the type and payload that were declared,
  the root of the chain it belongs to, and the step declared after it; and with every step the
  chain has fewer steps left, so every chain ends.
\<close>

theorem chain_goes_on:
  assumes "request_ok r" "marshal_request r = Some s" "ev_payload e = s" "ev_id e \<noteq> []"
    "next_step r = Some nxt" "marshal_request nxt = Some full" "c = child_row E t i (task_of e) nxt full"
  shows "wt_type (task_of c) = tr_type nxt \<and> wt_payload (task_of c) = tr_payload nxt
    \<and> chain_root (task_of c) = chain_root (task_of e)
    \<and> declared_next (task_of e) = Some nxt \<and> declared_next (task_of c) = next_step nxt
    \<and> steps_left c < steps_left e"
proof -
  obtain n where n: "nxt = normal_request n" "request_ok n" "request_ok nxt"
    using next_step_ok [OF assms(1,5)] by blast
  have c: "ev_payload c = full" "ev_type c = tr_type nxt" "ev_id c = i"
    "ev_parentid c = opt_text (chain_root (task_of e))" by (simp_all add: assms(7))
  have root: "chain_root (task_of e) \<noteq> []"
    using task_reads_request [OF assms(1-3)] assms(4) by (auto simp: chain_root_def meta_def text_or_empty_def)
  note parent = declared_next_row [OF assms(1-3)] and child = declared_next_row [OF n(3) assms(6) c(1)]
  have "chain_root (task_of c) = chain_root (task_of e)"
    using task_reads_request [OF n(3) assms(6) c(1)] c root
    by (simp add: chain_root_def [of "task_of c"] meta_def text_or_empty_def opt_text_def)
  moreover have "steps_left c < steps_left e"
    using parent child assms(5) next_step_less [of nxt] by (simp add: steps_left_def split: option.split)
  ultimately show ?thesis
    using task_reads_request [OF n(3) assms(6) c(1)] parent child assms(5) payload_normal [OF n(2)] n(1) c by simp
qed

theorem chain_goes_on_witness:
  "\<exists>full. chain_root (task_of (child_row calm 0 ''c'' task_chain (normal_request report_req) full)) = ''e1''
    \<and> steps_left (child_row calm 0 ''c'' task_chain (normal_request report_req) full) < steps_left chain_event"
proof -
  obtain full where full: "marshal_request (normal_request report_req) = Some full" using report_marshalled by blast
  have e: "ev_payload chain_event = chain_text" "ev_id chain_event \<noteq> []" "next_step chain_req = Some (normal_request report_req)"
    by (simp_all add: chain_event_def event0_def chain_req_def report_req_def next_step_def)
  have "chain_root task_chain = ''e1''"
    using task_reads_request [OF chain_req_ok, of chain_event] 
    by (simp add: chain_root_def meta_def task_chain_def chain_event_def event0_def text_or_empty_def)
  then show ?thesis
    using chain_goes_on [OF chain_req_ok e full refl, of calm 0 "''c''"] by (auto simp: task_chain_def)
qed

end
