(* ===== verification/System_Properties.thy ===== *)
theory System_Properties
  imports System Reply_Forms Worker_Properties
begin

text \<open>
  What holds of the platform as a whole: the invariant of every reachable state, what no step can
  undo, and what the log says of a request.
\<close>

section \<open>Every reachable state\<close>

text \<open>
  In every state the platform can reach, started on well-formed tables with nothing queued:
  identifiers and idempotency keys are unique, every key belongs to a stored task, and every task
  ever handed to the queue is stored.
\<close>

theorem reachable_consistent:
  assumes "reachable E D S w"
  shows "distinct (map ev_id (events w)) \<and> distinct (map ik_key (idempotency_keys w))
    \<and> ik_event_id ` set (idempotency_keys w) \<subseteq> ev_id ` set (events w)
    \<and> {i. \<exists>p r. EnqueueCall i p r \<in> set (queue_log w)} \<subseteq> ev_id ` set (events w)
    \<and> {i. \<exists>p at r. ScheduleCall i p at r \<in> set (queue_log w)} \<subseteq> ev_id ` set (events w)"
proof -
  have "db_ok w \<and> queue_ok w"
    using assms initial_ok by (rule reachable_invariant) (auto intro: ok_step queue_step)
  then show ?thesis
    by (fastforce simp: db_ok_def queue_ok_def call_stored_def stored_def)
qed

text \<open>
  No step takes a task away or changes what was submitted: along any run the identifier, type,
  payload, priority, parent, trace and the times of creation and schedule of every row stay as
  they are, in order, and new rows come after them.
\<close>

theorem rows_immutable:
  assumes "steps E D S w as w'"
  shows "\<exists>cs. map row_core (events w') = map row_core (events w) @ cs"
  using steps_kept [OF assms] by (simp add: rows_kept_def)

text \<open>A run of the stored task of the small web.\<close>

definition D0 :: deployment where
  "D0 = \<lparr> storage_ready = True, float_text = (\<lambda>s. None), metrics_page = health_page \<rparr>"

definition world_run :: world where
  "world_run = final (Wrap calm (ScrapeURL calm web0 True) task_chain) (final (GetTask calm ''e1'') world_chain)"

lemma get_chain: "value_of (GetTask calm ''e1'') world_chain = Inr task_chain"
proof -
  have "lookup world_chain ''e1'' = Some chain_event"
    by (simp add: world_chain_def lookup_def find_row_Cons chain_event_def event0_def)
  moreover have "answers calm world_chain" using calm_up(1) by (simp add: db_up_def)
  ultimately show ?thesis by (simp add: GetTask_def get_event_value task_chain_def)
qed

lemma run_step: "step calm D0 web0 world_chain (RunTask ''e1'') world_run"
  unfolding world_run_def by (rule run_task [OF get_chain]) (simp add: D0_def scrape_mux)

lemma run_reachable: "reachable calm D0 web0 world_run"
proof -
  have "initial world_chain"
    by (simp add: initial_def db_ok_def world_chain_def world0_def chain_event_def event0_def)
  then show ?thesis using run_step unfolding reachable_def by (metis steps_simps)
qed

theorem reachable_consistent_witness:
  "distinct (map ev_id (events world_run))
    \<and> {i. \<exists>p r. EnqueueCall i p r \<in> set (queue_log world_run)} \<subseteq> ev_id ` set (events world_run)"
  using reachable_consistent [OF run_reachable] by simp

theorem rows_immutable_witness:
  "\<exists>cs. map row_core (events world_run) = map row_core (events world_chain) @ cs"
proof -
  have "steps calm D0 web0 world_chain [RunTask ''e1''] world_run" using run_step by auto
  then show ?thesis by (rule rows_immutable)
qed

section \<open>The line of a request\<close>

text \<open>The error of the log context is never set.\<close>

abbreviation log_error :: "'x world_scheme \<Rightarrow> goerr option" where
  "log_error w \<equiv> lc_error (req_log w)"

named_theorems error_frames \<open>programs that leave the error of the log context alone\<close>

lemma error_with_log [error_frames]:
  "(\<And>l. lc_error (f l) = lc_error l) \<Longrightarrow> frames log_error (with_log ctx f)"
  by (simp add: frames_def)

lemma error_AddEvent [error_frames]: "frames log_error (AddEvent E ctx stp st err)"
  by (simp add: frames_def AddEvent_def add_event_def)

lemma error_services [error_frames]:
  "frames log_error next_tick" "frames log_error (time_now E)" "frames log_error (RespondWithError ctx st err)"
  "frames log_error (RespondWithJSON code j)" "frames log_error (EnqueueWithPriority E i p)"
  "frames log_error (Schedule E i p at)" "frames log_error (RemoveFromDLQ E i)" "frames log_error (GetQueueDepths E)"
  "frames log_error (GetDLQItems E)" "frames log_error (PresignedURL E key)"
  by (simp_all add: frames_def GetQueueDepths_def GetDLQItems_def PresignedURL_def)

lemmas error_statements [error_frames] =
  save_frames [of log_error, simplified] key_frames [of log_error, simplified] query_frames [of log_error, simplified]

lemma error_parts [error_frames]:
  "frames log_error (execute_in_past E t)" "frames log_error (still_due E t)" "frames log_error (HealthStats E)"
  "frames log_error (GetStatusCounts E)" "frames log_error (AdminListEvents E prm)" "frames log_error (GetChildTasks E i)"
  "frames log_error (GetRetryHistory E i)" "frames log_error (file_result E ctx storage i key)"
  "frames log_error (reject E ctx stp st err)" "frames log_error (enqueue_or_schedule E i p ex)"
  "frames log_error (enqueue_answer E ctx i p)" "frames log_error (reset_and_enqueue E ctx i)"
  unfolding execute_in_past_def still_due_def HealthStats_def GetStatusCounts_def AdminListEvents_def GetChildTasks_def
    GetRetryHistory_def file_result_def reject_def enqueue_or_schedule_def enqueue_answer_def reset_and_enqueue_def Let_def
  by (intro frames_bind frames_if frames_case_sum frames_case_option frames_case_prod frames_return frames_get error_frames)+

lemma error_found [error_frames]: "frames log_error (found_tasks E is)"
  by (induction "is") (simp_all add: frames_bind frames_return error_frames)

lemma error_answer [error_frames]: "frames log_error m \<Longrightarrow> frames log_error (answer m)"
  unfolding answer_def by (intro frames_bind frames_return)

lemma error_create [error_frames]: "frames log_error (HandleCreateTask E ctx body)"
  unfolding HandleCreateTask_def create_validated_def create_stored_def create_check_def create_persist_def
    create_enqueue_def Let_def
  by (intro frames_bind frames_if frames_case_sum frames_case_option frames_case_prod frames_return error_frames; simp)+

lemma error_serve [error_frames]: "frames log_error (serve E D rq ep ctx)"
  unfolding serve_def HandleCancelTask_def HandleGetTaskResult_def HandleDashboardStats_def HandleListTasks_def
    HandleGetTask_def HandleGetTaskChildren_def HandleGetTaskRetries_def HandleRetryTask_def
    HandleRequeueTask_def HandleListDLQ_def HandleRetryDLQTask_def HandleRemoveDLQTask_def HandleQueueDepth_def
    HandleWorkerHealth_def Let_def
  by (cases ep) (simp only: endpoint.case;
      intro frames_bind frames_if frames_case_sum frames_case_option frames_case_prod frames_return error_frames)+

lemma error_dispatch: "frames log_error (dispatch E D rq ctx)"
  unfolding dispatch_def by (auto intro: frames_bind frames_return error_serve split: routed.split)

lemma written_spied:
  assumes "rs_status a \<in> possible_status"
  shows "spied (written a) = \<lparr> bytes_written = length (rs_body a), status_code = rs_status a \<rparr>"
    and "sent_status (written a) = rs_status a"
  using assms
  by (auto simp: written_def spied_def empty_spy_def spy_call_def spy_header_def spy_write_def
      possible_status_def informational_def)

lemma handle_request_value:
  fixes w :: "'x world_scheme"
  assumes "value_of (handle_request E D rq trace_id reads) w = (h, a, cs, Some line)"
  obtains ctx duration and w' :: "'x world_scheme"
  where "line = log_attrs rq ctx duration (spy_read reads) (spied cs) (req_log w')" "cs = written a" "log_error w' = None"
    "hr_path rq \<noteq> ''/metrics''" "hr_path rq \<noteq> ''/health''"
proof -
  define ctx where "ctx = [MiddlewareKey ''trace_id'' \<mapsto> TextValue trace_id, MiddlewareKey ''log_context'' \<mapsto> LogPtr]"
  define w1 where "w1 = next_state (w\<lparr> req_log := empty_log \<rparr>)"
  have "log_error (final (dispatch E D rq ctx) w1) = log_error w1"
    by (rule framesD) (rule error_dispatch)
  then have "log_error (final (dispatch E D rq ctx) w1) = None" by (simp add: w1_def empty_log_def)
  then show thesis
    using assms unfolding ctx_def w1_def
    by (auto simp: handle_request_def TraceMiddleware_def RequestLogger_def Let_def split: if_splits intro!: that)
qed

text \<open>
  C37: The line logged for a request carries the redacted address, the status and the number of body
  bytes that were sent and the number of bytes read, and never an error: the error a handler
  answers with is put under a key of the context that the middleware does not set.
\<close>

theorem request_line:
  assumes "value_of (handle_request E D rq trace_id reads) w = (h, a, cs, Some line)"
  shows "(''client_ip'', LogText (redactIP (hr_remote rq))) \<in> set line
    \<and> (''response_status'', LogInt (int (sent_status cs))) \<in> set line \<and> sent_status cs = rs_status a
    \<and> (''response_body_bytes'', LogInt (int (length (rs_body a)))) \<in> set line
    \<and> (''request_body_bytes'', LogInt (int (sum_list reads))) \<in> set line
    \<and> ''error'' \<notin> fst ` set line"
proof (rule handle_request_value [OF assms])
  fix ctx duration and w' :: "'a world_scheme"
  assume line: "line = log_attrs rq ctx duration (spy_read reads) (spied cs) (req_log w')" "cs = written a"
    "log_error w' = None" "hr_path rq \<noteq> ''/metrics''"
  have "a = reply E D rq trace_id reads w" by (simp add: reply_def assms)
  then have "rs_status a \<in> possible_status" using reply_status [OF line(4)] by simp
  from written_spied [OF this] show ?thesis
    using line
    by (auto simp: log_attrs_def text_attr_def spy_read_sum split: if_splits option.splits)
qed

definition rq0 :: http_request where
  "rq0 = \<lparr> hr_method = ''GET'', hr_path = ''/api/admin/tasks/e9'', hr_query = (\<lambda>k. []), hr_body = [],
    hr_remote = ''10.1.2.3:5000'' \<rparr>"

theorem request_line_witness:
  "\<exists>h a cs line. value_of (handle_request calm D0 rq0 ''t1'' []) world1 = (h, a, cs, Some line) \<and> rs_status a = 404
    \<and> (''response_status'', LogInt 404) \<in> set line \<and> ''error'' \<notin> fst ` set line"
proof -
  have route: "route (hr_method rq0) (hr_path rq0) = RouteTo (EpGet ''e9'')" by code_simp
  have r: "rs_status (response_of (value_of (serve calm D0 rq0 (EpGet ''e9'') ctx) w)) = 404"
    if "lookup w ''e9'' = None" for ctx and w :: world
  proof -
    have "answers calm w" using calm_up(1) by (simp add: db_up_def)
    then show ?thesis using that
      by (simp add: serve_def answer_def HandleGetTask_def get_event_value response_of_def)
  qed
  obtain h a cs l where v: "value_of (handle_request calm D0 rq0 ''t1'' []) world1 = (h, a, cs, l)"
    by (metis prod_cases4)
  then have "rs_status a = 404" "\<exists>line. l = Some line"
    using r route by (auto simp: handle_request_def TraceMiddleware_def RequestLogger_def Let_def dispatch_def lookup_def
        rq0_def world1_def event0_def find_row_Cons)
  then obtain line where "l = Some line" "rs_status a = 404" by auto
  with v request_line [of calm D0 rq0 "''t1''" "[]" world1 h a cs line] show ?thesis by auto
qed



text \<open>
  The logged address of an IPv4 client shows its first three numbers and neither the last one
  nor the port. The same address mapped into IPv6 and written in hexadecimal is logged in full.
\<close>

theorem redaction_hides_host:
  assumes "a < 256" "b < 256" "c < 256" "d < 256" "list_all is_digit port"
  shows "redactIP (v4_text [a, b, c, d] @ CHR '':'' # port) = dec a @ ''.'' @ dec b @ ''.'' @ dec c @ ''.x''
    \<and> redactIP ''[::ffff:102:304]:80'' = ''::ffff:102:304''
    \<and> ParseIP ''::ffff:102:304'' = ParseIP ''1.2.3.4''"
proof -
  have "redactIP ''[::ffff:102:304]:80'' = ''::ffff:102:304''" "ParseIP ''::ffff:102:304'' = ParseIP ''1.2.3.4''"
    by code_simp+
  then show ?thesis using redact_v4 [OF assms] by simp
qed

theorem redaction_hides_host_witness:
  "redactIP ''203.0.113.9:4711'' = ''203.0.113.x''"
proof -
  have "v4_text [203, 0, 113, 9] = ''203.0.113.9''" "dec 203 = ''203''" "dec 0 = ''0''" "dec 113 = ''113''" by code_simp+
  moreover have "list_all is_digit ''4711''" by code_simp
  ultimately show ?thesis using redaction_hides_host [of 203 0 113 9 "''4711''"] by simp
qed

end
