(* ===== verification/Lifecycle.thy ===== *)
theory Lifecycle
  imports System_Properties
begin

text \<open>
  The life of a task: an abstract machine over the statuses of the tasks, and the proof that every
  step of the platform is a move of it. The statuses the worker pool sets are its own.
\<close>

section \<open>The life of a task\<close>

text \<open>
  The specification: each stored task has a status, and each of the three parties moves it in its
  own way. A client submits a task, pending, or failed when the queue does not take it; cancels a
  pending one; makes a failed or cancelled one pending again. A worker running a task only adds
  tasks. The pool sets the status of a task that is there.
\<close>

type_synonym tasks = "(string, string option) map"

datatype party = Client | Worker | Pool string string

inductive life :: "party \<Rightarrow> tasks \<Rightarrow> tasks \<Rightarrow> bool" where
  stay: "life p m m"
| submit: "m i = None \<Longrightarrow> p = Client \<or> p = Worker \<Longrightarrow> life p m (m(i \<mapsto> Some ''pending''))"
| submit_failed: "m i = None \<Longrightarrow> life Client m (m(i \<mapsto> Some ''failed''))"
| cancel: "m i = Some (Some ''pending'') \<Longrightarrow> life Client m (m(i \<mapsto> Some ''cancelled''))"
| retry: "m i = Some (Some ''failed'') \<or> m i = Some (Some ''cancelled'') \<Longrightarrow> life Client m (m(i \<mapsto> Some ''pending''))"
| set_status: "m i \<noteq> None \<Longrightarrow> life (Pool i st) m (m(i \<mapsto> Some st))"

inductive_cases life_cases: "life p m m'"

inductive_simps life_simps: "life Worker m m'" "life (Pool i st) m m'"

fun party_of :: "action \<Rightarrow> party" where
  "party_of (Request rq trace_id reads) = Client"
| "party_of (RunTask i) = Worker"
| "party_of (SetStatus i st) = Pool i st"
| "party_of (Attempt i st n err) = Worker"

text \<open>The tasks of a state, and the programs of a party.\<close>

definition tasks_of :: "'x db_scheme \<Rightarrow> tasks" where
  "tasks_of w i = map_option ev_status (lookup w i)"

definition does :: "party \<Rightarrow> ('x world_scheme, 'a) state \<Rightarrow> bool" where
  "does p m \<longleftrightarrow> (\<forall>w. life p (tasks_of w) (tasks_of (final m w)))"

lemma tasks_of_events: "events w' = events w \<Longrightarrow> tasks_of w' = tasks_of w"
  by (simp add: tasks_of_def fun_eq_iff lookup_def)

lemma tasks_of_frame: "frames events m \<Longrightarrow> tasks_of (final m w) = tasks_of w"
  by (rule tasks_of_events) (rule framesD)

lemma does_frame: "frames events m \<Longrightarrow> does p m"
  by (simp add: does_def tasks_of_frame life.stay)

lemma does_then: "does p m \<Longrightarrow> (\<And>a. frames events (f a)) \<Longrightarrow> does p (State_Monad.bind m f)"
  by (simp add: does_def tasks_of_frame)

lemma does_after: "frames events m \<Longrightarrow> (\<And>a. does p (f a)) \<Longrightarrow> does p (State_Monad.bind m f)"
  unfolding does_def using tasks_of_frame [of m] by (metis final_bind)

lemma does_if: "does p m \<Longrightarrow> does p m' \<Longrightarrow> does p (if b then m else m')"
  by simp

lemma does_sum: "(\<And>e. does p (f e)) \<Longrightarrow> (\<And>a. does p (g a)) \<Longrightarrow> does p (case r of Inl e \<Rightarrow> f e | Inr a \<Rightarrow> g a)"
  by (simp split: sum.split)

lemma does_option: "does p m \<Longrightarrow> (\<And>a. does p (g a)) \<Longrightarrow> does p (case r of None \<Rightarrow> m | Some a \<Rightarrow> g a)"
  by (simp split: option.split)

lemma does_prod: "(\<And>a b. does p (f a b)) \<Longrightarrow> does p (case r of (a, b) \<Rightarrow> f a b)"
  by (simp split: prod.split)

lemmas does_rules = does_if does_sum does_option does_prod

lemma tasks_of_update:
  assumes "\<And>e. ev_id (f e) = ev_id e" "\<And>e. P e \<Longrightarrow> ev_id e = i \<and> Q (ev_status e)" "\<And>e. ev_status (f e) = s"
    and "\<And>e. ev_id e = i \<Longrightarrow> Q (ev_status e) \<Longrightarrow> P e"
    and "events w' = update_rows P f (events w)"
  shows "tasks_of w' = tasks_of w \<or> (\<exists>v. tasks_of w i = Some v \<and> Q v \<and> tasks_of w' = (tasks_of w)(i \<mapsto> s))"
proof -
  have l: "lookup w' j = map_option (\<lambda>e. if P e then f e else e) (lookup w j)" for j
    using assms(1) by (simp add: lookup_def assms(5) find_row_update)
  have other: "tasks_of w' j = tasks_of w j" if "j \<noteq> i" for j
  proof (cases "lookup w j")
    case (Some e)
    then have "ev_id e = j" using find_row_SomeD by (fastforce simp: lookup_def)
    then show ?thesis using assms(2) [of e] that Some by (auto simp: tasks_of_def l)
  qed (simp add: tasks_of_def l)
  show ?thesis
  proof (cases "\<exists>e. lookup w i = Some e \<and> Q (ev_status e)")
    case True
    then obtain e where e: "lookup w i = Some e" "Q (ev_status e)" by blast
    then have "P e" using assms(4) find_row_SomeD [of ev_id i "events w"] by (simp add: lookup_def)
    then have "tasks_of w' = (tasks_of w)(i \<mapsto> s)" using e(1) other assms(3) by (auto simp: tasks_of_def l fun_eq_iff)
    then show ?thesis using e by (auto simp: tasks_of_def)
  next
    case False
    then have "tasks_of w' i = tasks_of w i" using assms(2) by (cases "lookup w i") (auto simp: tasks_of_def l)
    with other show ?thesis by (metis ext)
  qed
qed

lemma does_exec:
  assumes "\<And>now w a w'. f now w = Inr (a, w') \<Longrightarrow> life p (tasks_of w) (tasks_of w')"
  shows "does p (db_exec E f)"
proof -
  have t: "tasks_of (w\<lparr> tick := n \<rparr>) = tasks_of w" for w :: "'a world_scheme" and n by (rule tasks_of_events) simp
  show ?thesis
    unfolding does_def
    by (auto simp: db_exec_def t life.stay dest: assms split: sum.split option.split)
qed

section \<open>The statements\<close>

lemma life_update:
  assumes "\<And>e. ev_id (f e) = ev_id e" "\<And>e. ev_status (f e) = s" "\<And>e. P e = (ev_id e = i \<and> Q (ev_status e))"
    and "events w' = update_rows P f (events w)"
    and "\<And>m v. m i = Some v \<Longrightarrow> Q v \<Longrightarrow> life p m (m(i \<mapsto> s))"
  shows "life p (tasks_of w) (tasks_of w')"
proof -
  have "tasks_of w' = tasks_of w \<or> (\<exists>v. tasks_of w i = Some v \<and> Q v \<and> tasks_of w' = (tasks_of w)(i \<mapsto> s))"
    by (rule tasks_of_update [OF assms(1) _ assms(2) _ assms(4)]) (simp_all add: assms(3))
  then show ?thesis by (elim disjE exE conjE) (simp_all add: life.stay assms(5))
qed

lemma does_cancel: "does Client (CancelTask E i)"
proof -
  have "does Client (CancelEventIfPending E i :: ('x world_scheme, nat result) state)"
    unfolding CancelEventIfPending_def
    by (rule does_exec, rule life_update [where i = i and Q = "\<lambda>v. v = Some ''pending''"])
      (auto simp: pending_row_def cancel_row_def stamp_def intro: life.cancel)
  then show ?thesis unfolding CancelTask_def by (rule does_then) (auto intro: frame split: sum.split)
qed

lemma does_reset: "does Client (AdminResetTaskForRetry E i)"
proof -
  have "does Client (ResetTaskForRetry E i :: ('x world_scheme, string option result) state)"
    unfolding ResetTaskForRetry_def
    by (rule does_exec, rule life_update [where i = i and Q = "\<lambda>v. v = Some ''failed'' \<or> v = Some ''cancelled''"])
      (auto simp: retryable_row_def reset_row_def stamp_def split: option.splits intro: life.retry)
  then show ?thesis unfolding AdminResetTaskForRetry_def by (rule does_then) (auto intro: frame split: sum.split)
qed

lemma does_status: "does (Pool i st) (RepoUpdateEventStatus E i st)"
  unfolding RepoUpdateEventStatus_def UpdateEventStatus_def
  by (rule does_exec, rule life_update [where i = i and Q = "\<lambda>v. True"])
    (auto simp: has_id_def status_row_def stamp_def intro: life.set_status)

text \<open>Saving a task, and what may follow it.\<close>

lemma tasks_of_append:
  "events w' = events w @ [e] \<Longrightarrow> lookup w (ev_id e) = None \<Longrightarrow> tasks_of w' = (tasks_of w)(ev_id e \<mapsto> ev_status e)"
  by (auto simp: fun_eq_iff tasks_of_def lookup_def find_row_append find_row_Cons split: option.split)

lemma save_adds:
  fixes w :: "'x world_scheme" and save :: "('x world_scheme, unit result) state"
  assumes save_def: "save = SaveProcessedEvent E i ty pl st tr pr pa sch"
  shows "(tasks_of (final save w) = tasks_of w \<and> value_of save w \<noteq> Inr ())
    \<or> (tasks_of w i = None \<and> tasks_of (final save w) = (tasks_of w)(i \<mapsto> Some ''pending''))"
proof -
  have l: "lookup w i = None \<longleftrightarrow> i \<notin> ev_id ` set (events w)" by (rule lookup_None)
  have "events (final save w) = events w \<and> value_of save w \<noteq> Inr ()
    \<or> (lookup w i = None \<and> (\<exists>e. ev_id e = i \<and> ev_status e = Some ''pending'' \<and> events (final save w) = events w @ [e]))"
    unfolding save_def SaveProcessedEvent_def InsertEvent_def
    by (auto simp: db_exec_def l new_event_def split: option.split)
  then show ?thesis
    using tasks_of_append [of "final save w" w] tasks_of_events [of "final save w" w] by (auto simp: tasks_of_def)
qed

lemma does_save:
  fixes f :: "goerr \<Rightarrow> ('x world_scheme, 'a) state"
  assumes "p = Client \<or> p = Worker" "\<And>e. frames events (f e)"
    and "\<And>u w. tasks_of (final (g u) w) = tasks_of w
      \<or> (p = Client \<and> tasks_of (final (g u) w) = (tasks_of w)(i \<mapsto> Some ''failed''))"
  shows "does p (State_Monad.bind (SaveProcessedEvent E i ty pl st tr pr pa sch)
    (\<lambda>r. case r of Inl e \<Rightarrow> f e | Inr u \<Rightarrow> g u))"
  unfolding does_def
proof
  fix w :: "'x world_scheme"
  define save :: "('x world_scheme, unit result) state" where "save = SaveProcessedEvent E i ty pl st tr pr pa sch"
  have f: "tasks_of (final (f e) v) = tasks_of v" for e v by (rule tasks_of_frame) (rule assms(2))
  show "life p (tasks_of w) (tasks_of (final (State_Monad.bind (SaveProcessedEvent E i ty pl st tr pr pa sch)
      (\<lambda>r. case r of Inl e \<Rightarrow> f e | Inr u \<Rightarrow> g u)) w))"
    using save_adds [OF save_def, of w] assms(1,3)
    by (cases "value_of save w") (auto simp: save_def [symmetric] f intro: life.intros, metis fun_upd_upd life.submit life.submit_failed)
qed

section \<open>The handlers\<close>

lemma reject_frame: "frames events (reject E ctx stp st err)"
  unfolding reject_def by (intro frame)

text \<open>Most handlers only read.\<close>

lemma reading_frames:
  "frames events (HandleGetTaskResult E num ctx storage i)"
  "frames events (HandleDashboardStats E ctx)" "frames events (HandleListTasks E ctx q)"
  "frames events (HandleGetTask E ctx i)" "frames events (HandleGetTaskChildren E ctx i)"
  "frames events (HandleGetTaskRetries E ctx i)" "frames events (HandleWorkerHealth E)"
  "frames events (HandleRemoveDLQTask E ctx i)" "frames events (HandleQueueDepth E ctx)"
  "frames events (HandleRequeueTask E ctx i)"
proof -
  have parts: "frames events (file_result E ctx storage i key)" "frames events (GetStatusCounts E)"
    "frames events (HealthStats E)" "frames events (AdminListEvents E prm)" "frames events (GetChildTasks E j)"
    "frames events (GetRetryHistory E j)" "frames events (still_due E at)" "frames events (enqueue_answer E ctx j p)"
    for ctx storage i key prm j at p
    unfolding file_result_def GetStatusCounts_def HealthStats_def AdminListEvents_def GetChildTasks_def
      GetRetryHistory_def still_due_def enqueue_answer_def Let_def
    by (intro frame)+
  show "frames events (HandleGetTaskResult E num ctx storage i)"
    "frames events (HandleDashboardStats E ctx)" "frames events (HandleListTasks E ctx q)"
    "frames events (HandleGetTask E ctx i)" "frames events (HandleGetTaskChildren E ctx i)"
    "frames events (HandleGetTaskRetries E ctx i)" "frames events (HandleWorkerHealth E)"
    "frames events (HandleRemoveDLQTask E ctx i)" "frames events (HandleQueueDepth E ctx)"
    "frames events (HandleRequeueTask E ctx i)"
    unfolding HandleGetTaskResult_def HandleDashboardStats_def HandleListTasks_def HandleGetTask_def answer_def
      HandleGetTaskChildren_def HandleGetTaskRetries_def HandleWorkerHealth_def HandleRemoveDLQTask_def
      HandleQueueDepth_def HandleRequeueTask_def Let_def
    by (intro frame parts; simp)+
qed

lemma found_frame: "frames events (found_tasks E is)"
  by (induction "is") (simp_all add: frame)

lemma list_dlq_frame: "frames events (HandleListDLQ E ctx)"
  unfolding HandleListDLQ_def by (intro frame found_frame)

lemma does_create_enqueue: "does (Pool i ''failed'') (create_enqueue E ctx req i)"
proof -
  have enq: "frames events (enqueue_or_schedule E i p ex)" for p ex
    unfolding enqueue_or_schedule_def by (intro frame)
  have failed: "does (Pool i ''failed'') (do { RepoUpdateEventStatus E i ''failed''; RespondWithError ctx 500 err })" for err
    by (intro does_then does_status frame)
  show ?thesis
    unfolding create_enqueue_def
    by (intro does_after [OF enq] does_sum) (intro failed does_after frame | intro does_frame frame)+
qed

lemma does_create_persist: "does Client (create_persist E ctx q0 key :: ('x world_scheme, http_response) state)"
proof -
  have save: "does Client (do {
      r \<leftarrow> SaveProcessedEvent E i ty pl st tr pr pa sch;
      (case r of Inl err \<Rightarrow> reject E ctx stp 500 err
       | Inr _ \<Rightarrow> do {
          r \<leftarrow> CheckAndRecordToDB E key i md;
          (case r of Inl err \<Rightarrow> reject E ctx stp' 500 err | Inr already \<Rightarrow> create_enqueue E ctx req i) })
      } :: ('x world_scheme, http_response) state)" for i ty pl st tr pr pa sch md req stp stp'
  proof (rule does_save)
    fix u :: unit and w :: "'x world_scheme"
    have "does (Pool i ''failed'') (do {
        r \<leftarrow> CheckAndRecordToDB E key i md;
        (case r of Inl err \<Rightarrow> reject E ctx stp' 500 err | Inr already \<Rightarrow> create_enqueue E ctx req i)
      } :: ('x world_scheme, http_response) state)" (is "does _ ?rest")
      by (intro does_after does_sum does_create_enqueue frame does_frame [OF reject_frame])
    then show "tasks_of (final ?rest w) = tasks_of w
        \<or> (Client = Client \<and> tasks_of (final ?rest w) = (tasks_of w)(i \<mapsto> Some ''failed''))"
      unfolding does_def life_simps by blast
  qed (simp_all add: reject_frame)
  show ?thesis
    unfolding create_persist_def Let_def
    by (intro save does_option does_frame [OF reject_frame] does_after frame)
qed

lemma does_create: "does Client (HandleCreateTask E ctx body)"
proof -
  have check: "frames events (create_check E ctx req)" for req
    unfolding create_check_def reject_def by (intro frame)
  have past: "frames events (execute_in_past E at)" for at unfolding execute_in_past_def by (intro frame)
  have ret: "does Client (State_Monad.return a)" for a by (intro does_frame frame)
  show ?thesis
    unfolding HandleCreateTask_def create_validated_def create_stored_def Let_def
    by (intro does_rules does_after check past does_create_persist ret does_frame [OF reject_frame])
qed

lemma does_requests:
  "does Client (HandleCancelTask E ctx i)" "does Client (HandleRetryTask E ctx i)" "does Client (HandleRetryDLQTask E ctx i)"
proof -
  have reset: "does Client (reset_and_enqueue E ctx j)" for j
    unfolding reset_and_enqueue_def enqueue_answer_def by (intro does_then does_reset frame)
  show "does Client (HandleRetryTask E ctx i)" "does Client (HandleRetryDLQTask E ctx i)"
    unfolding HandleRetryTask_def HandleRetryDLQTask_def
    by (intro does_rules does_after reset does_frame frame; simp?)+
  show "does Client (HandleCancelTask E ctx i)"
    unfolding HandleCancelTask_def
    by (intro does_if does_then does_cancel does_frame [OF reject_frame] frame reject_frame)
qed

lemma does_answer: "does p m \<Longrightarrow> does p (answer m)"
  unfolding answer_def by (intro does_then frame)

lemma does_serve: "does Client (serve E D rq ep ctx)"
  unfolding serve_def
  by (cases ep) (simp_all add: does_answer does_create does_requests does_frame frames_return reading_frames list_dlq_frame)

lemma does_request: "does Client (handle_request E D rq trace_id reads)"
proof -
  have d: "does Client (dispatch E D rq ctx)" for ctx
    unfolding dispatch_def
    by (cases "route (hr_method rq) (hr_path rq)") (simp_all add: does_then does_serve does_frame frames_return)
  have u: "frames events (State_Monad.update (\<lambda>w. w\<lparr> req_log := empty_log \<rparr>))" by (simp add: frames_def)
  have i: "does Client (do { a \<leftarrow> dispatch E D rq ctx; State_Monad.return (a, written a, reads) })" for ctx
    by (intro does_then d frames_return)
  show ?thesis
    unfolding handle_request_def TraceMiddleware_def RequestLogger_def Let_def
    by (rule does_then) (intro does_after u does_if does_then i frame event_frames | simp add: frame split: prod.split)+
qed

section \<open>The workers\<close>

lemma handler_tasks:
  assumes "worker_handler h"
  shows "tasks_of (final (h task) w) = tasks_of w"
proof (cases rule: worker_handler.event_cases [OF assms, of task w])
  case 1
  then show ?thesis by (rule tasks_of_events)
next
  case (2 now r)
  have "ev_id (result_row now (Some r) e) = ev_id e" "ev_status (result_row now (Some r) e) = ev_status e" for e
    by (simp_all add: result_row_def stamp_def)
  then show ?thesis
    by (auto simp: fun_eq_iff tasks_of_def lookup_def find_row_update 2 option.map_comp comp_def intro!: map_option_cong)
qed

lemma does_create_next: "does Worker (create_next E task nxt :: ('x world_scheme, goerr option) state)"
proof -
  have "frames events (do { r \<leftarrow> enqueue_or_schedule E i p ex; State_Monad.return (error_of r) } :: ('x world_scheme, goerr option) state)" for i p ex
    unfolding enqueue_or_schedule_def by (intro frame)
  then have save: "does Worker (do {
      r \<leftarrow> SaveProcessedEvent E i ty pl st tr pr pa sch;
      (case r of Inl err \<Rightarrow> State_Monad.return (f err)
       | Inr _ \<Rightarrow> do { r \<leftarrow> enqueue_or_schedule E i p ex; State_Monad.return (error_of r) })
      } :: ('x world_scheme, goerr option) state)" for i ty pl st tr pr pa sch p ex and f :: "goerr \<Rightarrow> goerr option"
    by (intro does_save) (simp_all only: tasks_of_frame frames_return simp_thms)
  show ?thesis
    unfolding create_next_def by (intro save does_option does_frame [OF frames_return] does_after frame)
qed

lemma does_mux: "mux E S storage ty = Some f \<Longrightarrow> does Worker (f task :: ('x world_scheme, goerr option) state)"
proof -
  assume "mux E S storage ty = Some f"
  then obtain h :: "'x handler" where h: "f = Wrap E h" "worker_handler h" by (rule mux_cases)
  have rest: "does Worker ((case err of Some e \<Rightarrow> State_Monad.return (Some e)
     | None \<Rightarrow> (if meta task ''next'' = [] then State_Monad.return None
          else (case unmarshal decode_request empty_request (meta task ''next'') of (nxt, ok) \<Rightarrow>
            if \<not> ok then State_Monad.return (Some (WrapError ''chaining: parse next: '' (json_error E (meta task ''next''))))
            else if tr_type nxt = [] then State_Monad.return None
            else create_next E task nxt))) :: ('x world_scheme, goerr option) state)" for err
    by (intro does_rules does_create_next does_frame [OF frames_return])
  show ?thesis
    unfolding h(1) Wrap_def does_def final_bind
    by (intro allI, subst handler_tasks [OF h(2), of task, symmetric]) (rule rest [unfolded does_def, rule_format])
qed

section \<open>The platform refines it\<close>

lemma step_refines:
  assumes "step E D S w a w'"
  shows "life (party_of a) (tasks_of w) (tasks_of w')"
  using assms
proof (cases rule: step.cases)
  case (request rq trace_id reads)
  then show ?thesis by (simp add: does_request [unfolded does_def, rule_format])
next
  case (run_task j task f)
  have "tasks_of (final (GetTask E j) w) = tasks_of w" unfolding GetTask_def by (rule tasks_of_frame) (intro frame)
  then show ?thesis
    using does_mux [OF run_task(4), of task, unfolded does_def, rule_format, of "final (GetTask E j) w"] run_task(1,2) by simp
next
  case (set_status j st)
  then show ?thesis by (simp add: UpdateStatus_def does_status [unfolded does_def, rule_format])
next
  case (attempt j st n err)
  have "tasks_of (final (RecordAttempt E j st n err) w) = tasks_of w"
    unfolding RecordAttempt_def LogDeliveryStatus_def by (rule tasks_of_frame) (intro frame statement_frames(8); simp)
  then show ?thesis using attempt life.stay by simp
qed

inductive life_run :: "party list \<Rightarrow> tasks \<Rightarrow> tasks \<Rightarrow> bool" where
  done_life: "life_run [] m m"
| more_life: "life p m m' \<Longrightarrow> life_run ps m' m'' \<Longrightarrow> life_run (p # ps) m m''"

lemma steps_refine: "steps E D S w as w' \<Longrightarrow> life_run (map party_of as) (tasks_of w) (tasks_of w')"
  by (induction rule: steps.induct) (auto intro: life_run.intros step_refines)

lemma processed_kept:
  "life_run ps m m' \<Longrightarrow> m i = Some (Some ''processed'') \<Longrightarrow> (\<And>st. Pool i st \<notin> set ps) \<Longrightarrow> m' i = Some (Some ''processed'')"
proof (induction rule: life_run.induct)
  case (more_life p m m1 ps m2)
  have "m1 i = Some (Some ''processed'')"
    using more_life.hyps(1) more_life.prems by (cases rule: life.cases) (auto simp: fun_upd_def)
  then show ?case using more_life.IH more_life.prems(2) by simp
qed simp

lemma tasks_kept: "life_run ps m m' \<Longrightarrow> m i \<noteq> None \<Longrightarrow> m' i \<noteq> None"
proof (induction rule: life_run.induct)
  case (more_life p m m1 ps m2)
  have "m1 i \<noteq> None" using more_life.hyps(1) more_life.prems by (cases rule: life.cases) (auto simp: fun_upd_def)
  then show ?case using more_life.IH by simp
qed simp

text \<open>
  The platform refines the life of a task: along any run, the tasks and their statuses move as
  the specification lets the party of each step move them. So a processed task stays processed
  unless the pool itself sets its status.
\<close>

theorem platform_refines_life:
  assumes "steps E D S w as w'"
  shows "life_run (map party_of as) (tasks_of w) (tasks_of w')
    \<and> (\<forall>i. task_status w i = Some ''processed'' \<longrightarrow> (\<forall>st. SetStatus i st \<notin> set as)
        \<longrightarrow> task_status w' i = Some ''processed'')"
proof -
  have run: "life_run (map party_of as) (tasks_of w) (tasks_of w')" using assms by (rule steps_refine)
  have pool: "Pool i st \<notin> set (map party_of as)" if "SetStatus i st \<notin> set as" for i st
  proof
    assume "Pool i st \<in> set (map party_of as)"
    then obtain a where a: "a \<in> set as" "party_of a = Pool i st" unfolding set_map by force
    have "a = SetStatus i st" using a(2) by (cases a) auto
    then show False using that a(1) by simp
  qed
  have "task_status w' i = Some ''processed''"
    if "task_status w i = Some ''processed''" "\<forall>st. SetStatus i st \<notin> set as" for i
  proof -
    have "tasks_of w i = Some (Some ''processed'')" using that(1) by (auto simp: tasks_of_def task_status_Some)
    then have "tasks_of w' i = Some (Some ''processed'')" using processed_kept [OF run] pool that(2) by blast
    then show ?thesis by (auto simp: tasks_of_def task_status_Some)
  qed
  with run show ?thesis by blast
qed

theorem platform_refines_life_witness:
  "life_run [Worker] (tasks_of world_chain) (tasks_of world_run)"
proof -
  have "steps calm D0 web0 world_chain [RunTask ''e1''] world_run" using run_step by auto
  then show ?thesis using platform_refines_life [of calm D0 web0 world_chain "[RunTask ''e1'']" world_run] by simp
qed

section \<open>The moves of a stored task\<close>

definition request_move :: "string option \<Rightarrow> string option \<Rightarrow> bool" where
  "request_move a b \<longleftrightarrow> a = b \<or> (a = Some ''pending'' \<and> b = Some ''cancelled'')
    \<or> ((a = Some ''failed'' \<or> a = Some ''cancelled'') \<and> b = Some ''pending'')"

lemma status_tasks: "task_status w i = (case tasks_of w i of None \<Rightarrow> None | Some v \<Rightarrow> v)"
  by (simp add: task_status_def tasks_of_def split: option.split bind_split)

text \<open>
  A request changes the status of a task that is there in two ways only, from pending to
  cancelled and from failed or cancelled to pending; running a task and recording an attempt
  change no status; and the pool sets the status of the one task it names.
\<close>

theorem status_moves:
  assumes "step E D S w a w'" "lookup w i \<noteq> None"
  shows "case a of Request rq trace_id reads \<Rightarrow> request_move (task_status w i) (task_status w' i)
    | SetStatus j st \<Rightarrow> task_status w' i = task_status w i \<or> (j = i \<and> task_status w' i = Some st)
    | _ \<Rightarrow> task_status w' i = task_status w i"
proof -
  have i: "tasks_of w i \<noteq> None" using assms(2) by (simp add: tasks_of_def)
  show ?thesis
    using step_refines [OF assms(1)] i
    by (cases a) (auto simp: status_tasks request_move_def elim!: life_cases split: if_splits)
qed

theorem status_moves_witness: "task_status world_run ''e1'' = Some ''pending''"
proof -
  have "lookup world_chain ''e1'' = Some chain_event"
    by (simp add: world_chain_def lookup_def find_row_Cons chain_event_def event0_def)
  then show ?thesis
    using status_moves [OF run_step, of "''e1''"] by (simp add: task_status_def chain_event_def event0_def)
qed

end
