(* ===== verification/Stored_Tasks.thy ===== *)
theory Stored_Tasks
  imports Lifecycle
begin

text \<open>
  The type of a stored row. Every row the platform ever writes holds the encoding of a request: the
  columns beside the payload agree with it, and the request of a row without a parent has passed
  the checks of the submission handler. So the pool never reads a row it cannot understand.
\<close>

section \<open>Well-typed rows\<close>

definition well_typed :: "event \<Rightarrow> bool" where
  "well_typed e \<longleftrightarrow> ev_id e \<noteq> [] \<and> ev_parentid e \<noteq> Some []
    \<and> (\<exists>r. request_ok r \<and> marshal_request r = Some (ev_payload e) \<and> ev_type e = tr_type r
        \<and> ev_priority e = opt_text (tr_priority r) \<and> (ev_parentid e = None \<longrightarrow> passes r))"

definition tasks_typed :: "'x db_scheme \<Rightarrow> bool" where
  "tasks_typed w \<longleftrightarrow> (\<forall>e\<in>set (events w). well_typed e)"

definition cores :: "'x db_scheme \<Rightarrow> (string \<times> string \<times> string \<times> int option \<times> string \<times> string option \<times> string option \<times> int option) list" where
  "cores w = map row_core (events w)"

lemma well_typed_core: "row_core e = row_core e' \<Longrightarrow> well_typed e = well_typed e'"
  by (simp add: row_core_def well_typed_def)

lemma tasks_typed_cores: "cores w' = cores w \<Longrightarrow> tasks_typed w' = tasks_typed w"
proof -
  assume c: "cores w' = cores w"
  have iff: "tasks_typed v \<longleftrightarrow> (\<forall>c\<in>set (cores v). \<forall>e. row_core e = c \<longrightarrow> well_typed e)" for v :: "'b db_scheme"
    unfolding tasks_typed_def cores_def set_map using well_typed_core by blast
  have iff': "tasks_typed v \<longleftrightarrow> (\<forall>c\<in>set (cores v). \<forall>e. row_core e = c \<longrightarrow> well_typed e)" for v :: "'a db_scheme"
    unfolding tasks_typed_def cores_def set_map using well_typed_core by blast
  show ?thesis unfolding iff iff' c ..
qed

lemma typed_frame: "frames cores m \<Longrightarrow> keeps tasks_typed m"
  unfolding keeps_def frames_def using tasks_typed_cores by blast

lemma cores_events: "frames events m \<Longrightarrow> frames cores m"
  by (simp add: frames_def cores_def)

lemma cores_exec:
  assumes "\<And>now w a w'. f now w = Inr (a, w') \<Longrightarrow> cores w' = cores w"
  shows "frames cores (db_exec E f)"
  by (auto simp: frames_def db_exec_def cores_def dest: assms [unfolded cores_def] split: sum.split option.split)

lemma cores_repository [frame]:
  "frames cores (CancelTask E i)" "frames cores (AdminResetTaskForRetry E i)"
  "frames cores (RepoUpdateEventStatus E i st)" "frames cores (RepoUpdateEventResult E i r)"
proof -
  have s: "frames cores (CancelEventIfPending E i)" "frames cores (ResetTaskForRetry E i)"
    "frames cores (UpdateEventStatus E i x)" "frames cores (UpdateEventResult E i y)" for x y
    unfolding statements
    by (rule cores_exec; auto simp: cores_def update_core split: if_splits option.splits)+
  show "frames cores (CancelTask E i)" "frames cores (AdminResetTaskForRetry E i)"
    "frames cores (RepoUpdateEventStatus E i st)" "frames cores (RepoUpdateEventResult E i r)"
    unfolding CancelTask_def AdminResetTaskForRetry_def RepoUpdateEventStatus_def RepoUpdateEventResult_def
    by (intro s frame)+
qed

section \<open>Rows that are added\<close>

lemma save_typed:
  assumes "request_ok r" "marshal_request r = Some pl" "ty = tr_type r" "pr = tr_priority r" "i \<noteq> []"
    "pa = [] \<Longrightarrow> passes r"
  shows "keeps tasks_typed (SaveProcessedEvent E i ty pl st tr pr pa sch)"
proof -
  have new: "ev_id (new_event E p) = in_id p \<and> ev_payload (new_event E p) = in_payload p
    \<and> ev_type (new_event E p) = in_type p \<and> ev_priority (new_event E p) = in_priority p
    \<and> ev_parentid (new_event E p) = in_parentid p" for p
    by (simp add: new_event_def)
  have "well_typed (new_event E p)" if "in_id p = i" "in_payload p = pl" "in_type p = ty" "in_priority p = opt_text pr"
      "in_parentid p = opt_text pa" for p
    using that assms new [of p] by (auto simp: well_typed_def opt_text_def)
  then show ?thesis
    by (auto simp: keeps_def SaveProcessedEvent_def InsertEvent_def db_exec_def tasks_typed_def split: option.split)
qed

text \<open>The branches of a program, with what they are taken on.\<close>

lemma keeps_if_case: "(b \<Longrightarrow> keeps P m) \<Longrightarrow> (\<not> b \<Longrightarrow> keeps P m') \<Longrightarrow> keeps P (if b then m else m')"
  by simp

lemma keeps_option_case:
  "(r = None \<Longrightarrow> keeps P m) \<Longrightarrow> (\<And>a. r = Some a \<Longrightarrow> keeps P (g a)) \<Longrightarrow>
    keeps P (case r of None \<Rightarrow> m | Some a \<Rightarrow> g a)"
  by (simp split: option.split)

lemma keeps_reject [wf_intros]: "keeps tasks_typed (reject E ctx stp st err)"
  by (intro typed_frame cores_events reject_frame)

lemma typed_quiet: "frames events m \<Longrightarrow> keeps tasks_typed m"
  by (intro typed_frame cores_events)

lemma passes_trace [simp]: "passes (set_trace tp r) = passes r"
  by (cases r) (simp add: passes_def set_trace_def next_check_def)

lemma typed_create_enqueue: "keeps tasks_typed (create_enqueue E ctx req i)"
  unfolding create_enqueue_def enqueue_or_schedule_def
  by (intro keeps_bind keeps_case_sum keeps_case_option keeps_return typed_frame frame; intro cores_events frame)

lemma typed_create_persist:
  assumes "\<And>t. new_uuid E t \<noteq> []" "passes q0" "fits max_depth q0" "valid_times q0"
  shows "keeps tasks_typed (create_persist E ctx q0 key)"
proof -
  have save: "keeps tasks_typed (SaveProcessedEvent E (new_uuid E t) (tr_type (set_trace tp q0)) full st tr
      (tr_priority (set_trace tp q0)) [] sch)" if "marshal_request (set_trace tp q0) = Some full" for t tp full st tr sch
    by (rule save_typed [where r = "set_trace tp q0"]) (use assms fits_ok [of "set_trace tp q0", OF _ _ that] that in simp_all)
  show ?thesis
    unfolding create_persist_def Let_def
    by (intro keeps_bind keeps_option_case keeps_case_sum save keeps_reject typed_create_enqueue typed_quiet frame)
qed

lemma typed_create:
  assumes "\<And>t. new_uuid E t \<noteq> []"
  shows "keeps tasks_typed (HandleCreateTask E ctx body :: ('x world_scheme, http_response) state)"
proof -
  have check: "keeps tasks_typed (create_check E ctx req :: ('x world_scheme, http_response + string) state)" for req
    unfolding create_check_def reject_def by (intro typed_quiet frame)
  have past: "keeps tasks_typed (execute_in_past E at :: ('x world_scheme, bool) state)" for at
    unfolding execute_in_past_def by (intro typed_quiet frame)
  have "keeps tasks_typed (create_validated E ctx r :: ('x world_scheme, http_response) state)" if r: "fits max_depth r" "valid_times r" for r
  proof -
    have "keeps tasks_typed (create_stored E ctx (default_priority r) :: ('x world_scheme, http_response) state)" if "passes (default_priority r)"
      unfolding create_stored_def
      using that r assms by (intro keeps_bind keeps_case_sum keeps_return check typed_create_persist) simp_all
    then show ?thesis
      unfolding create_validated_def Let_def
      by (intro keeps_if_case keeps_bind past keeps_option_case keeps_case_prod keeps_reject)
        (auto simp: passes_def)
  qed
  then show ?thesis
    using decoded_request unfolding HandleCreateTask_def
    by (cases "decode_stream decode_request empty_request body") (auto intro: keeps_reject)
qed

lemma typed_serve:
  assumes "\<And>t. new_uuid E t \<noteq> []"
  shows "keeps tasks_typed (serve E D rq ep ctx :: ('x world_scheme, http_outcome) state)"
proof -
  have a: "keeps tasks_typed m \<Longrightarrow> keeps tasks_typed (answer m)" for m :: "('x world_scheme, http_response) state"
    unfolding answer_def by (intro keeps_bind keeps_return)
  have reset: "keeps tasks_typed (reset_and_enqueue E ctx i :: ('x world_scheme, http_response) state)" for i
    unfolding reset_and_enqueue_def enqueue_answer_def
    by (intro keeps_bind keeps_case_sum typed_frame frame; intro cores_events frame)
  have "keeps tasks_typed (HandleRetryTask E ctx i :: ('x world_scheme, http_response) state)"
    "keeps tasks_typed (HandleRetryDLQTask E ctx i :: ('x world_scheme, http_response) state)"
    "keeps tasks_typed (HandleCancelTask E ctx i :: ('x world_scheme, http_response) state)" for i
    unfolding HandleRetryTask_def HandleRetryDLQTask_def HandleCancelTask_def
    by (intro keeps_bind keeps_if keeps_case_sum reset keeps_reject typed_frame frame; intro cores_events frame)+
  then show ?thesis
    unfolding serve_def
    by (cases ep) (simp_all add: a typed_create [OF assms] keeps_return typed_quiet reading_frames list_dlq_frame)
qed

lemma typed_request:
  assumes "\<And>t. new_uuid E t \<noteq> []"
  shows "keeps tasks_typed (handle_request E D rq trace_id reads :: ('x world_scheme, (string \<times> string) \<times> http_response
    \<times> write_call list \<times> (string \<times> log_value) list option) state)"
proof -
  have "keeps tasks_typed (dispatch E D rq ctx :: ('x world_scheme, http_response) state)" for ctx
    unfolding dispatch_def by (auto intro: typed_serve [OF assms] keeps_bind keeps_return split: routed.split)
  moreover have "keeps tasks_typed (State_Monad.update (\<lambda>w :: 'x world_scheme. w\<lparr> req_log := empty_log \<rparr>))"
    by (simp add: keeps_def tasks_typed_def)
  moreover have "keeps tasks_typed (time_now E :: ('x world_scheme, gotime) state)" by (intro typed_quiet frame)
  ultimately show ?thesis
    unfolding handle_request_def TraceMiddleware_def RequestLogger_def Let_def
    by (intro keeps_bind keeps_if keeps_return keeps_get keeps_case_prod)
qed

text \<open>The child of a chain.\<close>

lemma typed_create_next:
  assumes "\<And>t. new_uuid E t \<noteq> []" "fits max_depth nxt" "valid_times nxt" "chain_root task \<noteq> []"
  shows "keeps tasks_typed (create_next E task nxt)"
proof -
  have save: "keeps tasks_typed (SaveProcessedEvent E (new_uuid E t) (tr_type nxt) full st tr (tr_priority nxt)
      (chain_root task) sch)" if "marshal_request nxt = Some full" for t full st tr sch
    by (rule save_typed [where r = nxt]) (use assms fits_ok [OF assms(2,3) that] that in simp_all)
  show ?thesis
    unfolding create_next_def enqueue_or_schedule_def
    by (intro keeps_bind keeps_option_case keeps_case_sum save keeps_return typed_quiet frame)
qed

lemma decoded_next:
  assumes "unmarshal decode_request empty_request s = (r, True)"
  shows "fits max_depth r \<and> valid_times r"
proof -
  obtain j where "jparse s = Some j" using assms by (auto simp: unmarshal_def split: option.splits)
  then show ?thesis using decoded_request [of s r] assms
    by (auto simp: unmarshal_def decode_stream_def jdecode_def jparse_def split: option.splits if_splits)
qed

lemma typed_Wrap:
  assumes "\<And>t. new_uuid E t \<noteq> []" "worker_handler h" "chain_root task \<noteq> []"
  shows "keeps tasks_typed (Wrap E h task)"
proof -
  have "cores (final (h task) w) = cores w" for w
    using worker_handler.event_cases [OF assms(2), of task w]
    by (metis cores_def update_core row_core_rewrites(4))
  then have h: "keeps tasks_typed (h task)" by (intro typed_frame) (simp add: frames_def)
  show ?thesis
    unfolding Wrap_def
    by (intro keeps_bind h keeps_case_option keeps_return keeps_if_case)
      (use decoded_next typed_create_next [OF assms(1) _ _ assms(3)] in
        \<open>auto split: prod.split intro: keeps_return keeps_if\<close>)
qed

text \<open>What the worker reads of a well-typed row.\<close>

lemma typed_root: "well_typed e \<Longrightarrow> chain_root (task_of e) \<noteq> []"
  by (auto simp: well_typed_def chain_root_def meta_def text_or_empty_def task_of_def task_meta_def Let_def
      split: prod.split option.split)

lemma typed_step:
  assumes "step E D S w a w'" "\<And>t. new_uuid E t \<noteq> []" "tasks_typed w"
  shows "tasks_typed w'"
  using assms(1)
proof (cases rule: step.cases)
  case (request rq trace_id reads)
  then show ?thesis using keepsD [OF typed_request [OF assms(2)] assms(3)] by simp
next
  case (run_task i task f)
  have get: "keeps tasks_typed (GetTask E i)" unfolding GetTask_def by (intro typed_quiet frame)
  obtain e where e: "value_of (GetEventByID E i) w = Inr e" "task = task_of e"
    using run_task(3) by (auto simp: GetTask_def split: sum.splits)
  then have "lookup w i = Some e" using get_event_Inr by blast
  then have "well_typed e" using assms(3) find_row_SomeD by (fastforce simp: tasks_typed_def lookup_def)
  then have root: "chain_root task \<noteq> []" using typed_root e(2) by simp
  obtain h where "f = Wrap E h" "worker_handler h" using run_task(4) by (rule mux_cases)
  then have "keeps tasks_typed (f task)" using typed_Wrap [OF assms(2) _ root] by simp
  from keepsD [OF this keepsD [OF get assms(3)]] show ?thesis using run_task(2) by simp
next
  case (set_status i st)
  have "keeps tasks_typed (UpdateStatus E i st)" unfolding UpdateStatus_def by (intro typed_frame frame)
  from keepsD [OF this assms(3)] show ?thesis using set_status by simp
next
  case (attempt i st n err)
  have "keeps tasks_typed (RecordAttempt E i st n err)"
    unfolding RecordAttempt_def LogDeliveryStatus_def by (intro typed_quiet frame statement_frames(8)) simp_all
  from keepsD [OF this assms(3)] show ?thesis using attempt by simp
qed

section \<open>The property\<close>

lemma typed_reads:
  assumes t: "well_typed e"
  shows "\<exists>r. request_ok r \<and> marshal_request r = Some (ev_payload e)
    \<and> wt_type (task_of e) = tr_type r \<and> wt_payload (task_of e) = normal_raw (tr_payload r)
    \<and> wt_priority (task_of e) = tr_priority r \<and> declared_next (task_of e) = next_step r
    \<and> chain_root (task_of e) \<noteq> []
    \<and> (ev_parentid e = None \<longrightarrow> Validate (wt_type (task_of e)) (wt_payload (task_of e)) = None
        \<and> wt_type (task_of e) \<noteq> ''generate_report'')"
proof -
  obtain r where r: "request_ok r" "marshal_request r = Some (ev_payload e)" "ev_type e = tr_type r"
    "ev_priority e = opt_text (tr_priority r)" "ev_parentid e = None \<longrightarrow> passes r"
    using t by (auto simp: well_typed_def)
  note reads = task_reads_request [OF r(1,2) refl]
  have "wt_priority (task_of e) = tr_priority r"
    using r(4) by (simp add: task_of_def text_or_empty_def opt_text_def split: prod.split)
  moreover have "Validate (tr_type r) (normal_raw (tr_payload r)) = None \<and> tr_type r \<noteq> ''generate_report''"
    if "ev_parentid e = None"
    using r(5) that stored_payload_valid [of "tr_type r" "tr_payload r"] by (simp add: passes_def)
  ultimately show ?thesis
    using r reads declared_next_row [OF r(1,2) refl] typed_root [OF t] by (intro exI [of _ r]) simp
qed

text \<open>
  Every row the platform writes is well-typed, when its handlers run one after the other.
\<close>

theorem stored_tasks_typed:
  assumes "steps E D S w0 as w" "events w0 = []" "\<And>t. new_uuid E t \<noteq> []" "e \<in> set (events w)"
  shows "\<exists>r. request_ok r \<and> marshal_request r = Some (ev_payload e)
    \<and> wt_type (task_of e) = tr_type r \<and> wt_payload (task_of e) = normal_raw (tr_payload r)
    \<and> wt_priority (task_of e) = tr_priority r \<and> declared_next (task_of e) = next_step r
    \<and> chain_root (task_of e) \<noteq> []
    \<and> (ev_parentid e = None \<longrightarrow> Validate (wt_type (task_of e)) (wt_payload (task_of e)) = None
        \<and> wt_type (task_of e) \<noteq> ''generate_report'')"
proof (rule typed_reads)
  have "tasks_typed w0" using assms(2) by (simp add: tasks_typed_def)
  with assms(1) have "tasks_typed w" by (rule steps_invariant [rotated]) (rule typed_step [OF _ assms(3)])
  then show "well_typed e" using assms(4) by (simp add: tasks_typed_def)
qed

end
