(* ===== verification/Submissions.thy ===== *)
theory Submissions
  imports Stored_Tasks
begin

text \<open>
  A submission over time: the key of an accepted task is never taken away, so until it expires every
  later submission with that key is refused, whatever happens in between.
\<close>

section \<open>Keys are never taken away\<close>

definition keys_kept :: "'x db_scheme \<Rightarrow> 'y db_scheme \<Rightarrow> bool" where
  "keys_kept w w' \<longleftrightarrow> (\<exists>ks. idempotency_keys w' = idempotency_keys w @ ks)"

definition adds_keys :: "('x world_scheme, 'a) state \<Rightarrow> bool" where
  "adds_keys m \<longleftrightarrow> (\<forall>w. keys_kept w (final m w))"

named_theorems key_rules \<open>programs that take no key away\<close>

lemma keys_kept_refl [simp]: "keys_kept w w"
  by (simp add: keys_kept_def)

lemma keys_kept_trans: "keys_kept w w' \<Longrightarrow> keys_kept w' w'' \<Longrightarrow> keys_kept w w''"
  by (auto simp: keys_kept_def)

lemma keys_kept_row: "keys_kept w w' \<Longrightarrow> key_row w k = Some r \<Longrightarrow> key_row w' k = Some r"
  by (auto simp: keys_kept_def key_row_def find_row_append)

lemma adds_keysD: "adds_keys m \<Longrightarrow> keys_kept w (final m w)"
  by (simp add: adds_keys_def)

lemma adds_keys_frame: "frames idempotency_keys m \<Longrightarrow> adds_keys m"
  by (simp add: adds_keys_def frames_def keys_kept_def)

lemma adds_keys_bind [key_rules]: "adds_keys m \<Longrightarrow> (\<And>a. adds_keys (f a)) \<Longrightarrow> adds_keys (State_Monad.bind m f)"
  using keys_kept_trans by (simp add: adds_keys_def) blast

lemma adds_keys_basic [key_rules]:
  "adds_keys (State_Monad.return a)" "adds_keys State_Monad.get"
  "adds_keys m \<Longrightarrow> adds_keys m' \<Longrightarrow> adds_keys (if b then m else m')"
  by (simp_all add: adds_keys_def)

lemma adds_keys_cases [key_rules]:
  "(\<And>e. adds_keys (f e)) \<Longrightarrow> (\<And>a. adds_keys (g a)) \<Longrightarrow> adds_keys (case r of Inl e \<Rightarrow> f e | Inr a \<Rightarrow> g a)"
  "adds_keys m \<Longrightarrow> (\<And>a. adds_keys (h a)) \<Longrightarrow> adds_keys (case q of None \<Rightarrow> m | Some a \<Rightarrow> h a)"
  "(\<And>a b. adds_keys (k a b)) \<Longrightarrow> adds_keys (case p of (a, b) \<Rightarrow> k a b)"
  by (simp_all split: sum.split option.split prod.split)

lemma key_services:
  "frames idempotency_keys next_tick" "frames idempotency_keys (time_now E)" "frames idempotency_keys (with_log ctx f)"
  "frames idempotency_keys (AddEvent E ctx stp st oe)" "frames idempotency_keys (RespondWithError ctx code err)"
  "frames idempotency_keys (RespondWithJSON code j)" "frames idempotency_keys (EnqueueWithPriority E i p)"
  "frames idempotency_keys (Schedule E i p at)" "frames idempotency_keys (RemoveFromDLQ E i)"
  "frames idempotency_keys (GetQueueDepths E)" "frames idempotency_keys (GetDLQItems E)"
  "frames idempotency_keys (PresignedURL E key)" "frames idempotency_keys (HealthStats E)"
  by (simp_all add: frames_def AddEvent_def GetQueueDepths_def GetDLQItems_def PresignedURL_def HealthStats_def
      split: option.split)

lemmas key_frame_rules = key_services save_frames [of idempotency_keys, simplified]
  query_frames [of idempotency_keys, simplified]

lemmas adds_keys_services [key_rules] = key_frame_rules [THEN adds_keys_frame]

lemma adds_keys_record [key_rules]: "adds_keys (CheckAndRecordToDB E k i md)"
proof -
  have "adds_keys (CreateIdempotencyKey E c :: ('x world_scheme, nat result) state)" for c
    by (auto simp: adds_keys_def keys_kept_def CreateIdempotencyKey_def db_exec_def split: option.split sum.split)
  then show ?thesis unfolding CheckAndRecordToDB_def by (auto intro: key_rules split: option.split)
qed

lemma adds_keys_parts [key_rules]:
  "adds_keys (execute_in_past E t)" "adds_keys (still_due E t)" "adds_keys (reject E ctx stp st err)"
  "adds_keys (GetStatusCounts E)" "adds_keys (AdminListEvents E prm)" "adds_keys (GetChildTasks E i)"
  "adds_keys (GetRetryHistory E i)" "adds_keys (file_result E ctx storage i key)"
  "adds_keys (enqueue_or_schedule E i p ex)" "adds_keys (enqueue_answer E ctx i p)" "adds_keys (GetTask E i)"
  unfolding execute_in_past_def still_due_def reject_def GetStatusCounts_def AdminListEvents_def GetChildTasks_def
    GetRetryHistory_def file_result_def enqueue_or_schedule_def enqueue_answer_def GetTask_def Let_def
  by (intro key_rules)+

lemma adds_keys_found [key_rules]: "adds_keys (found_tasks E is)"
  by (induction "is") (simp_all add: key_rules)

lemma adds_keys_serve [key_rules]: "adds_keys (serve E D rq ep ctx)"
  unfolding serve_def answer_def HandleCreateTask_def create_validated_def create_stored_def create_check_def create_persist_def
    create_enqueue_def HandleCancelTask_def HandleGetTaskResult_def HandleDashboardStats_def HandleListTasks_def
    HandleGetTask_def HandleGetTaskChildren_def HandleGetTaskRetries_def HandleRetryTask_def reset_and_enqueue_def
    HandleRequeueTask_def HandleListDLQ_def HandleRetryDLQTask_def HandleRemoveDLQTask_def HandleQueueDepth_def
    HandleWorkerHealth_def Let_def
  by (cases ep) (simp only: endpoint.case; intro key_rules)+

lemma adds_keys_request: "adds_keys (handle_request E D rq trace_id reads)"
proof -
  have "adds_keys (dispatch E D rq ctx)" for ctx
    unfolding dispatch_def by (auto intro: key_rules split: routed.split)
  moreover have "adds_keys (State_Monad.update (\<lambda>w. w\<lparr> req_log := empty_log \<rparr>))"
    by (simp add: adds_keys_def keys_kept_def)
  ultimately show ?thesis
    unfolding handle_request_def TraceMiddleware_def RequestLogger_def Let_def by (intro key_rules)
qed

lemma adds_keys_create_next [key_rules]: "adds_keys (create_next E task nxt)"
  unfolding create_next_def by (intro key_rules)

lemma adds_keys_mux: "mux E S storage ty = Some f \<Longrightarrow> adds_keys (f task)"
proof (elim mux_cases)
  fix h assume h: "f = Wrap E h" "worker_handler h"
  have "adds_keys (h task)" using worker_handler.no_other_table(1) [OF h(2)] by (rule adds_keys_frame)
  then show "adds_keys (f task)" unfolding h(1) Wrap_def by (intro key_rules)
qed

lemma keys_step:
  fixes w w' :: "'x world_scheme"
  shows "step E D S w a w' \<Longrightarrow> keys_kept w w'"
proof (erule step_cases)
  fix i st n err
  have "frames idempotency_keys (RecordAttempt E i st n err :: ('x world_scheme, unit result) state)"
    unfolding RecordAttempt_def LogDeliveryStatus_def by (intro frame statement_frames(8)) simp_all
  then show "w' = final (RecordAttempt E i st n err) w \<Longrightarrow> keys_kept w w'" by (simp add: frames_def keys_kept_def)
next
  fix i st
  show "w' = final (UpdateStatus E i st) w \<Longrightarrow> keys_kept w w'"
    by (simp add: UpdateStatus_def keys_kept_def framesD [OF save_frames(2) [of idempotency_keys, simplified]])
next
  fix i task f
  assume "w' = final (f task) (final (GetTask E i) w)" "mux E S (storage_ready D) (wt_type task) = Some f"
  then show "keys_kept w w'"
    using adds_keys_mux adds_keys_parts(11) unfolding adds_keys_def by (metis keys_kept_trans)
qed (simp add: adds_keysD [OF adds_keys_request])

lemma keys_steps: "steps E D S w as w' \<Longrightarrow> keys_kept w w'"
  by (induction rule: steps.induct) (auto intro: keys_step keys_kept_trans)

section \<open>The key of an accepted task\<close>

lemma accepted_key:
  fixes w :: "'x world_scheme"
  assumes "db_up E" "submittable E body req" "key_row w (request_key req) = None"
    and "rs_status (value_of (HandleCreateTask E ctx body) w) = 200"
  obtains i t md where "lookup w i = None" "lookup (final (HandleCreateTask E ctx body) w) i \<noteq> None"
    "key_row (final (HandleCreateTask E ctx body) w) (request_key req) = Some (recorded_key E t (request_key req) i md)"
proof -
  obtain w1 where w1: "tables w1 = tables w"
    "value_of (HandleCreateTask E ctx body) w = value_of (create_stored E ctx req) w1"
    "final (HandleCreateTask E ctx body) w = final (create_stored E ctx req) w1"
    by (rule create_task_stored [OF assms(2), of w ctx])
  obtain w2 where w2: "tables w2 = tables w1" "rs_status (value_of (create_persist E ctx req (request_key req)) w2) = 200"
    "final (create_stored E ctx req) w1 = final (create_persist E ctx req (request_key req)) w2"
    using create_stored_200 [of E ctx req w1] assms(4) w1(2) by auto
  have t: "tables w2 = tables w" using w1(1) w2(1) by simp
  obtain i full where i: "i = new_uuid E (tick w2)" "marshal_request (set_trace (traceparent E (tick w2)) req) = Some full"
    "lookup w2 i = None"
    by (rule create_persist_200 [OF w2(2)]) blast
  obtain w3 u u' where run:
    "value_of (create_persist E ctx req (request_key req)) w2
      = value_of (create_enqueue E ctx (set_trace (traceparent E (tick w2)) req) i) w3"
    "final (create_persist E ctx req (request_key req)) w2
      = final (create_enqueue E ctx (set_trace (traceparent E (tick w2)) req) i) w3"
    "events w3 = events w2 @ [accepted_row E ctx u i (set_trace (traceparent E (tick w2)) req) full]"
    "idempotency_keys w3 = idempotency_keys w2 @ [recorded_key E u' (request_key req) i
      (metadata_text (api_metadata (set_trace (traceparent E (tick w2)) req)))]"
    using create_persist_run [OF assms(1) i(3,1) refl i(2), of ctx "request_key req"] same_tables(2) [OF t] assms(3)
    by (metis (full_types))
  have w4: "final (HandleCreateTask E ctx body) w
      = log_call (submitted i (set_trace (traceparent E (tick w2)) req)) (next_state w3)"
    using create_enqueue_200 [of E ctx _ i w3] run(1,2) w2(2,3) w1(3) by simp
  have k2: "key_row w2 (request_key req) = None" using same_tables(2) [OF t] assms(3) by simp
  show thesis
  proof (rule that [of i u'])
    show "lookup w i = None" using i(3) same_tables(1) [OF t] by simp
    show "lookup (final (HandleCreateTask E ctx body) w) i \<noteq> None"
      by (simp add: w4 lookup_None run(3) accepted_row_def saved_event_def)
    show "key_row (final (HandleCreateTask E ctx body) w) (request_key req) = Some (recorded_key E u' (request_key req) i
        (metadata_text (api_metadata (set_trace (traceparent E (tick w2)) req))))"
      using k2 by (simp add: w4 key_row_def run(4) find_row_append find_row_Cons recorded_key_def)
  qed
qed

text \<open>
  C12: A task is accepted once. After a submission that was answered with 200, and whatever requests
  and task runs follow, one after the other, every later submission with the same key is answered with 409 and the
  identifier of the task that was stored, and changes nothing, as long as the key lasts.
\<close>

theorem accepted_once:
  fixes w w' :: "'x world_scheme"
  assumes "db_up E" "lasting E" "db_ok w" "submission rq body" "submittable E body req"
    and "key_row w (request_key req) = None" "rs_status (reply E D rq trace_id reads w) = 200"
    and "steps E D S (final (handle_request E D rq trace_id reads) w) as w'"
    and "submission rq2 body2" "submittable E body2 req2" "request_key req2 = request_key req"
  shows "\<exists>i. lookup w i = None \<and> lookup (final (handle_request E D rq trace_id reads) w) i \<noteq> None
    \<and> reply E D rq2 trace_id2 reads2 w' = \<lparr> rs_status = 409, rs_content_type = ''application/json'',
        rs_body = jprint (duplicate_json i) \<rparr>
    \<and> tables (final (handle_request E D rq2 trace_id2 reads2) w') = tables w'"
proof -
  define w1 where "w1 = final (handle_request E D rq trace_id reads) w"
  obtain ctx and w0 :: "'x world_scheme" where first: "tables w0 = tables w"
    "reply E D rq trace_id reads w = value_of (HandleCreateTask E ctx body) w0"
    "tables w1 = tables (final (HandleCreateTask E ctx body) w0)"
    unfolding w1_def by (rule submission_served [OF assms(4), of w E D trace_id reads])
  have free: "key_row w0 (request_key req) = None" using same_tables(2) [OF first(1)] assms(6) by simp
  obtain i t md where key: "lookup w0 i = None" "lookup (final (HandleCreateTask E ctx body) w0) i \<noteq> None"
    "key_row (final (HandleCreateTask E ctx body) w0) (request_key req) = Some (recorded_key E t (request_key req) i md)"
    using accepted_key [OF assms(1,5) free, of ctx] assms(7) first(2) by metis
  define k where "k = recorded_key E t (request_key req) i md"
  have "key_row w1 (request_key req) = Some k" using key(3) same_tables(2) [OF first(3)] by (simp add: k_def)
  then have k': "key_row w' (request_key req2) = Some k"
    using keys_kept_row [OF keys_steps [OF assms(8)]] assms(11) by (simp add: w1_def)
  have active: "\<forall>t. key_active (db_now E t) k" "ik_event_id k = i"
    using assms(2) by (simp_all add: lasting_def k_def key_active_def recorded_key_def)
  have "db_ok w1" unfolding w1_def by (rule keepsD [OF ok_request assms(3)])
  then have ok: "db_ok w'" using steps_invariant [of E D S db_ok, OF ok_step assms(8)] by (simp add: w1_def)
  obtain ctx2 and v :: "'x world_scheme" where second: "tables v = tables w'"
    "reply E D rq2 trace_id2 reads2 w' = value_of (HandleCreateTask E ctx2 body2) v"
    "tables (final (handle_request E D rq2 trace_id2 reads2) w') = tables (final (HandleCreateTask E ctx2 body2) v)"
    by (rule submission_served [OF assms(9), of w' E D trace_id2 reads2])
  have v: "db_ok v" "key_row v (request_key req2) = Some k" using ok k' same_tables(2,3) [OF second(1)] by simp_all
  note dup = create_task_duplicate [OF assms(10,1) v active(1), of ctx2]
  have "tables (final (HandleCreateTask E ctx2 body2) v) = tables v" by (rule create_refused) (simp add: dup)
  then show ?thesis
    using dup active(2) key(1,2) second same_tables(1) [OF first(1)] same_tables(1) [OF first(3)]
    by (intro exI [of _ i]) (simp add: w1_def)
qed

section \<open>A submission to the concrete platform\<close>

definition post0 :: http_request where
  "post0 = \<lparr> hr_method = ''POST'', hr_path = ''/tasks'', hr_query = (\<lambda>k. []), hr_body = body0, hr_remote = ''10.1.2.3:5000'' \<rparr>"

definition world_posted :: world where
  "world_posted = final (handle_request calm D0 post0 ''t1'' [52]) world0"

lemma post0: "submission post0 body0"
  by (simp add: submission_def post0_def)

lemma posted: "rs_status (reply calm D0 post0 ''t1'' [52] world0) = 200 \<and> (\<exists>e. events world_posted = [e])"
proof -
  obtain ctx and w1 :: world where s: "tables w1 = tables world0"
    "reply calm D0 post0 ''t1'' [52] world0 = value_of (HandleCreateTask calm ctx body0) w1"
    "tables world_posted = tables (final (HandleCreateTask calm ctx body0) w1)"
    unfolding world_posted_def by (rule submission_served [OF post0, of world0 calm D0 "''t1''" "[52]"])
  note same = same_tables [OF s(1)]
  have w1: "db_ok w1" "unprotected calm w1 k" "lookup w1 i = None" for k i
    using same by (simp_all add: unprotected_None)
  have events: "events w1 = []" using s(1) by (simp add: tables_def)
  obtain t row where "rs_status (value_of (HandleCreateTask calm ctx body0) w1) = 200"
    "events (final (HandleCreateTask calm ctx body0) w1) = events w1 @ [row]"
    by (rule create_unprotected [OF calm_up(1,2) w1(1) decode_body0, of ctx])
      (simp_all add: default_req0 passes_req0 writable_req0 w1)
  then show ?thesis using s(2,3) events by (simp add: tables_def)
qed

theorem accepted_once_witness:
  "\<exists>i. reply calm D0 post0 ''t2'' [52] (final (UpdateStatus calm ''e9'' ''processed'') world_posted)
    = \<lparr> rs_status = 409, rs_content_type = ''application/json'', rs_body = jprint (duplicate_json i) \<rparr>"
proof -
  have "steps calm D0 web0 (final (handle_request calm D0 post0 ''t1'' [52]) world0) [SetStatus ''e9'' ''processed'']
      (final (UpdateStatus calm ''e9'' ''processed'') world_posted)"
    unfolding world_posted_def by (auto intro: step.set_status)
  from accepted_once [OF calm_up(1) calm_lasting(1) world0_ok post0 submittable0 world0_free(2)
      posted [THEN conjunct1] this post0 submittable0 refl]
  show ?thesis by blast
qed

theorem stored_tasks_typed_witness:
  "\<exists>e r. events world_posted = [e] \<and> marshal_request r = Some (ev_payload e) \<and> wt_type (task_of e) = tr_type r"
proof -
  obtain e where e: "events world_posted = [e]" using posted by blast
  have "steps calm D0 web0 world0 [Request post0 ''t1'' [52]] world_posted"
    unfolding world_posted_def by (auto intro: step.request)
  moreover have "new_uuid calm t \<noteq> []" for t by (simp add: calm_def)
  ultimately show ?thesis
    using stored_tasks_typed [of calm D0 web0 world0 "[Request post0 ''t1'' [52]]" world_posted e] e by auto
qed

end
