(* ===== verification/Views.thy ===== *)
theory Views
  imports Server
begin

text \<open>
  What a request leaves alone. A view is a function of the state that logs, ticks and calls to the
  queue do not show in. When the statements a request can run do not show in it either, no request
  does, and no step of a chain.
\<close>

locale request_view =
  fixes g :: "'x world_scheme \<Rightarrow> 'b"
  assumes logs: "g (w\<lparr> tick := t \<rparr>) = g w" "g (w\<lparr> req_log := l \<rparr>) = g w" "g (w\<lparr> sender_log := e \<rparr>) = g w"
      "g (log_call c w) = g w"
    and writes: "frames g (SaveProcessedEvent E i ty pl st tr pr pa sch)" "frames g (RepoUpdateEventStatus E i st)"
      "frames g (CancelTask E i)" "frames g (AdminResetTaskForRetry E i)" "frames g (CheckAndRecordToDB E k i md)"
begin

lemma services:
  "frames g next_tick" "frames g (time_now E)" "frames g (with_log ctx f)"
  "frames g (AddEvent E ctx stp st oe)" "frames g (RespondWithError ctx code err)"
  "frames g (RespondWithJSON code j)" "frames g (EnqueueWithPriority E i p)"
  "frames g (Schedule E i p at)" "frames g (RemoveFromDLQ E i)"
  "frames g (GetQueueDepths E)" "frames g (GetDLQItems E)"
  "frames g (PresignedURL E key)" "frames g (HealthStats E)"
  by (simp_all add: frames_def logs AddEvent_def GetQueueDepths_def GetDLQItems_def PresignedURL_def HealthStats_def
      split: option.split)

lemmas calls = services writes query_frames [of g, OF logs(1)]

lemmas branches = frames_bind frames_if frames_case_sum frames_case_option frames_case_prod frames_return frames_get

lemma parts:
  "frames g (execute_in_past E t)" "frames g (still_due E t)" "frames g (reject E ctx stp st err)"
  "frames g (GetStatusCounts E)" "frames g (AdminListEvents E prm)" "frames g (GetChildTasks E i)"
  "frames g (GetRetryHistory E i)" "frames g (file_result E ctx storage i key)"
  "frames g (enqueue_or_schedule E i p ex)" "frames g (enqueue_answer E ctx i p)" "frames g (GetTask E i)"
  unfolding execute_in_past_def still_due_def reject_def GetStatusCounts_def AdminListEvents_def GetChildTasks_def
    GetRetryHistory_def file_result_def enqueue_or_schedule_def enqueue_answer_def GetTask_def Let_def
  by (intro branches calls)+

lemma found: "frames g (found_tasks E is)"
  by (induction "is") (simp_all add: branches calls)

lemma serve: "frames g (serve E D rq ep ctx)"
  unfolding serve_def answer_def HandleCreateTask_def create_validated_def create_stored_def create_check_def create_persist_def
    create_enqueue_def HandleCancelTask_def HandleGetTaskResult_def HandleDashboardStats_def HandleListTasks_def
    HandleGetTask_def HandleGetTaskChildren_def HandleGetTaskRetries_def HandleRetryTask_def reset_and_enqueue_def
    HandleRequeueTask_def HandleListDLQ_def HandleRetryDLQTask_def HandleRemoveDLQTask_def HandleQueueDepth_def
    HandleWorkerHealth_def Let_def
  by (cases ep) (simp only: endpoint.case; intro branches calls parts found)+

lemma request: "g (final (handle_request E D rq trace_id reads) w) = g w"
proof (rule framesD)
  have "frames g (dispatch E D rq ctx)" for ctx
    unfolding dispatch_def by (auto intro: branches serve split: routed.split)
  moreover have "frames g (State_Monad.update (\<lambda>w. w\<lparr> req_log := empty_log \<rparr>))" by (simp add: frames_def logs)
  ultimately show "frames g (handle_request E D rq trace_id reads)"
    unfolding handle_request_def TraceMiddleware_def RequestLogger_def Let_def by (intro branches calls)
qed

lemma next_step_kept: "g (final (create_next E task nxt) w) = g w"
  by (rule framesD) (simp only: create_next_def, intro branches calls parts)

end

text \<open>No request and no wrapper touches the object store: only the handlers of tasks write there.\<close>

interpretation objects_view: request_view objects
  by unfold_locales (simp_all add: save_frames key_frames)

end
