(* ===== verification/Results.thy ===== *)
theory Results
  imports Stored_Tasks Views
begin

text \<open>
  Results: a result in the table names a file that was uploaded, and what a client is answered who
  asks for the result of a task.
\<close>

section \<open>A result names a file\<close>

definition results :: "'x db_scheme \<Rightarrow> string set" where
  "results w = {r. Some r \<in> ev_result ` set (events w)}"

definition files_there :: "'x world_scheme \<Rightarrow> bool" where
  "files_there w \<longleftrightarrow> (\<forall>r\<in>results w. \<exists>ob\<in>set (objects w). r = jprint (file_json (so_key ob)))"

lemma results_update: "(\<And>e. ev_result (f e) = ev_result e) \<Longrightarrow>
    results (w\<lparr> events := update_rows P f (events w) \<rparr>) = results w"
  by (simp add: results_def flip: set_map) (simp add: map_update_rows)

lemma results_tick [simp]: "results (w\<lparr> tick := t \<rparr>) = results w"
  by (simp add: results_def)

lemma results_rows: "frames results (SaveProcessedEvent E i ty pl st tr pr pa sch)" "frames results (RepoUpdateEventStatus E i x)"
  "frames results (CancelTask E i)" "frames results (AdminResetTaskForRetry E i)"
proof -
  have insert: "frames results (InsertEvent E p)" for p
    unfolding statements by (rule frames_exec) (auto simp: results_def new_event_def split: if_splits)
  have updates: "frames results (UpdateEventStatus E i s)" "frames results (CancelEventIfPending E i)" "frames results (ResetTaskForRetry E i)" for s
    unfolding statements
    by (rule frames_exec; auto simp: results_update status_row_def cancel_row_def reset_row_def stamp_def split: if_splits option.splits)+
  have now: "frames results (time_now E)" by (simp add: frames_def)
  show "frames results (SaveProcessedEvent E i ty pl st tr pr pa sch)" "frames results (RepoUpdateEventStatus E i x)"
    "frames results (CancelTask E i)" "frames results (AdminResetTaskForRetry E i)"
    unfolding SaveProcessedEvent_def RepoUpdateEventStatus_def CancelTask_def AdminResetTaskForRetry_def
    by (intro frame insert updates now)+
qed

interpretation results_view: request_view "results :: 'x world_scheme \<Rightarrow> string set"
proof unfold_locales
  show "results (log_call c w) = results w" "results (w\<lparr> req_log := l \<rparr>) = results w"
    "results (w\<lparr> sender_log := e \<rparr>) = results w" for c l e and w :: "'x world_scheme"
    by (simp_all add: results_def)
qed (simp_all add: results_rows key_frames results_def)

text \<open>The handlers of tasks: the file first, then the result.\<close>

lemma files_quiet: "frames (\<lambda>w. (events w, objects w)) m \<Longrightarrow> keeps files_there m"
  by (simp add: keeps_def frames_def files_there_def results_def)

lemma results_save: "results (final (RepoUpdateEventResult E i r) w) \<subseteq> insert r (results w)"
  by (auto simp: results_def RepoUpdateEventResult_def UpdateEventResult_def db_exec_def update_rows_def result_row_def
      stamp_def image_iff split: option.splits if_splits)

lemma files_store_file: "keeps files_there (store_file E label task key ct data)"
proof (rule keepsI)
  fix w :: "'x world_scheme"
  assume ok: "files_there w"
  define w1 where "w1 = final (Upload E key ct data) w"
  have up: "events w1 = events w" unfolding w1_def by (rule framesD) (rule event_frames)
  show "files_there (final (store_file E label task key ct data) w)"
  proof (cases "put_object E (tick w)")
    case (Some f)
    then show ?thesis using ok by (cases f) (auto simp: store_file_def Upload_def files_there_def results_def)
  next
    case None
    define w2 where "w2 = final (RepoUpdateEventResult E (wt_id task) (jprint (file_json key))) w1"
    have fin: "final (store_file E label task key ct data) w = w2"
      using None by (simp add: store_file_def Upload_def w2_def w1_def)
    have "objects w2 = objects w1" unfolding w2_def by (rule framesD [OF save_frames(3)]; simp)
    then have objs: "objects w2 = objects w @ [\<lparr> so_key = key, so_content_type = ct, so_body = data \<rparr>]"
      using None by (simp add: w1_def Upload_def)
    have "results w2 \<subseteq> insert (jprint (file_json key)) (results w)"
      using results_save [of E "wt_id task" "jprint (file_json key)" w1] up by (simp add: w2_def results_def)
    then show ?thesis using ok unfolding fin files_there_def objs by fastforce
  qed
qed

lemma files_handlers:
  "keeps files_there (ScrapeURL E S storage task)" "keeps files_there (GenerateReport E storage task)"
  "keeps files_there (ResizeImage E S storage task)"
proof -
  have fetch: "keeps files_there (scrape_page E S url)" "keeps files_there (fetch_image S url)"
    "keeps files_there (parentFileResultKey E i)" "keeps files_there (Download E key)" for url i key
    by (rule files_quiet, rule fetch_frames download_frames, simp)+
  have report: "keeps files_there (report_from E task key)" for key
    unfolding report_from_def by (intro keeps_bind keeps_case_sum keeps_case_prod keeps_if keeps_return fetch files_store_file)
  show "keeps files_there (ScrapeURL E S storage task)" "keeps files_there (GenerateReport E storage task)"
    "keeps files_there (ResizeImage E S storage task)"
    unfolding ScrapeURL_def GenerateReport_def ResizeImage_def Let_def
    by (intro keeps_bind keeps_case_sum keeps_case_prod keeps_if keeps_return fetch files_store_file report)+
qed

lemma files_Wrap:
  assumes "keeps files_there (h task :: ('x world_scheme, goerr option) state)"
  shows "keeps files_there (Wrap E h task)"
proof -
  have "keeps files_there (create_next E task nxt :: ('x world_scheme, goerr option) state)" for nxt
    by (simp add: keeps_def files_there_def results_view.next_step_kept objects_view.next_step_kept)
  then show ?thesis
    unfolding Wrap_def by (intro keeps_bind keeps_case_option keeps_case_prod keeps_if keeps_return assms)
qed

lemma files_step:
  fixes w w' :: "'x world_scheme"
  assumes "step E D S w a w'" "files_there w"
  shows "files_there w'"
  using assms(1)
proof (cases rule: step.cases)
  case (request rq trace_id reads)
  then show ?thesis using assms(2) by (simp add: files_there_def results_view.request objects_view.request)
next
  case (run_task i task f)
  have read: "files_there (final (GetTask E i) w)"
    using assms(2) by (simp add: files_there_def results_def GetTask_def)
  have run: "keeps files_there (f task)"
  proof -
    obtain h where h: "f = Wrap E h" "map_of (task_handlers E S (storage_ready D)) (wt_type task) = Some h"
      using run_task(4) by (rule mux_cases)
    from h(2) have "h = ResizeImage E S (storage_ready D) \<or> h = ScrapeURL E S (storage_ready D) \<or> h = GenerateReport E (storage_ready D)"
      by (auto simp: task_handlers_def split: if_splits)
    then have "keeps files_there (h task)" by (elim disjE) (simp_all only: files_handlers)
    then show ?thesis unfolding h(1) by (rule files_Wrap)
  qed
  show ?thesis unfolding run_task(2) by (rule keepsD [OF run read])
next
  case (set_status i st)
  have "objects w' = objects w" "results w' = results w"
    unfolding set_status(2) UpdateStatus_def by (rule framesD [OF save_frames(2)]; simp) (rule framesD [OF results_rows(2)])
  then show ?thesis using assms(2) by (simp add: files_there_def)
next
  case (attempt i st n err)
  have "objects w' = objects w" "events w' = events w"
    unfolding attempt(2) RecordAttempt_def LogDeliveryStatus_def by (rule framesD, rule statement_frames(8); simp)+
  then show ?thesis using assms(2) by (simp add: files_there_def results_def)
qed

section \<open>What the client is answered\<close>

lemma sanitize_idem [simp]: "utf8_sanitize (utf8_sanitize s) = utf8_sanitize s"
proof (induction s rule: utf8_sanitize.induct)
  case (1 s)
  show ?case
  proof (cases "s = [] \<or> utf8_len s = 0")
    case True
    have "utf8_sanitize (rune_error @ t) = rune_error @ utf8_sanitize t" for t
      by (subst utf8_sanitize.simps) (simp add: rune_error_def utf8_len.simps byte_def cont_byte_def second_ok_def)
    then show ?thesis using True 1 by (subst (1 2) utf8_sanitize.simps [of s]) auto
  next
    case False
    define u where "u = take (utf8_len s) s"
    have u: "utf8_len u = utf8_len s" "u \<noteq> []" "length u = utf8_len s"
      using utf8_len_take [of s] utf8_len_le [of s] False by (auto simp: u_def)
    have "utf8_sanitize (u @ t) = u @ utf8_sanitize t" for t
      using utf8_len_append [of u t] u False by (subst utf8_sanitize.simps) simp
    then show ?thesis using False 1 by (subst (1 2) utf8_sanitize.simps [of s]) (simp add: u_def)
  qed
qed

lemma result_map_file: "\<exists>m. result_map num (jprint (file_json key)) = Inr (Some m)
    \<and> any_string (map_of m ''kind'') = Some ''file'' \<and> any_string (map_of m ''key'') = Some (utf8_sanitize key)"
proof -
  have p: "jparse (jprint (file_json key)) = Some (file_json key)"
    using stored_ref.jparse_encode [of "\<lparr> fr_kind = ''file'', fr_key = key \<rparr>"] by simp
  have j: "file_json key = JObj [member ''key'' (jstring key), member ''kind'' (jstring ''file'')]"
    by (simp add: file_json_def jmap_def)
  show ?thesis
    by (simp add: result_map_def p, simp add: j member_def jstring_def unquote_quote dedup_keys_def any_string_def)
qed

text \<open>A request for the result of a task.\<close>

definition result_request :: "http_request \<Rightarrow> string \<Rightarrow> bool" where
  "result_request rq i \<longleftrightarrow> hr_method rq = ''GET'' \<and> hr_path rq = ''/tasks/'' @ i @ ''/result'' \<and> CHR ''/'' \<notin> set i"

lemma result_routed:
  assumes "result_request rq i"
  shows "route (hr_method rq) (hr_path rq) = RouteTo (EpResult i)" "hr_path rq \<noteq> ''/metrics''" "hr_path rq \<noteq> ''/health''"
proof -
  have "split_on (CHR ''/'') (join_with [CHR ''/''] [i, ''result'']) = [i, ''result'']"
    using assms by (intro split_on_join_with) (auto simp: result_request_def)
  then have path: "split_on (CHR ''/'') (i @ ''/result'') = [i, ''result'']" by simp
  have pats: "split_on (CHR ''/'') ''/health'' = [[], ''health'']"
    "split_on (CHR ''/'') ''/tasks/{id}/result'' = [[], ''tasks'', ''{id}'', ''result'']" by code_simp+
  show "route (hr_method rq) (hr_path rq) = RouteTo (EpResult i)"
    using assms by (simp add: result_request_def route_def routes_def path_param_def path pats)
  show "hr_path rq \<noteq> ''/metrics''" "hr_path rq \<noteq> ''/health''"
    using assms by (auto simp: result_request_def)
qed

definition download_json :: "string \<Rightarrow> string \<Rightarrow> json" where
  "download_json i url = jmap [(''event_id'', jstring i), (''kind'', jstring ''file''), (''result_url'', jstring url),
    (''expires_in'', jstring ''24h'')]"

lemma result_value:
  assumes "db_up E" "lookup w i = Some e" "ev_status e = Some ''processed''" "ev_result e = Some (jprint (file_json key))"
  shows "value_of (HandleGetTaskResult E num ctx storage i) w = Answer
    (if \<not> storage then http_error (error_message 503 (Some (ErrorString ''storage not configured''))) 503
     else case presign E (Suc (tick w)) (utf8_sanitize key) of
       Inl err \<Rightarrow> http_error (error_message 500 (Some (WrapError (''minio: presign '' @ utf8_sanitize key @ '': '') err))) 500
     | Inr url \<Rightarrow> \<lparr> rs_status = 200, rs_content_type = ''application/json'', rs_body = jprint (download_json i url) \<rparr>)"
proof -
  obtain m where m: "result_map num (jprint (file_json key)) = Inr (Some m)"
    "any_string (map_of m ''kind'') = Some ''file''" "any_string (map_of m ''key'') = Some (utf8_sanitize key)"
    using result_map_file by blast
  have "jprint (file_json key) \<noteq> []" using jcanon_jwf [OF file_json_canon(1)] by simp
  then show ?thesis
    using assms m
    by (simp add: HandleGetTaskResult_def get_event_value text_or_empty_def answer_def file_result_def PresignedURL_def
        download_json_def wrap_result_def split: sum.split)
qed

text \<open>
  C13: What a client is told of a task, in any state a run from an empty table leaves: 404 for one
  that is not stored, 202 until it is processed, 404 when it is processed and has no result; and a
  result names a file that was uploaded, whose presigned address is the answer, 200, when storage is
  configured (503 otherwise) and gives one (500 otherwise). No result makes the handler panic.
\<close>

theorem result_answered:
  fixes w0 w :: "'x world_scheme"
  assumes "steps E D S w0 as w" "events w0 = []" "db_up E" "result_request rq i"
  shows "case lookup w i of
      None \<Rightarrow> rs_status (reply E D rq trace_id reads w) = 404
    | Some e \<Rightarrow>
        if ev_status e \<noteq> Some ''processed'' then rs_status (reply E D rq trace_id reads w) = 202
        else case ev_result e of
          None \<Rightarrow> rs_status (reply E D rq trace_id reads w) = 404
        | Some res \<Rightarrow> \<exists>ob\<in>set (objects w). res = jprint (file_json (so_key ob))
            \<and> (if \<not> storage_ready D then rs_status (reply E D rq trace_id reads w) = 503
               else case presign E (tick w + 2) (utf8_sanitize (so_key ob)) of
                 Inl err \<Rightarrow> rs_status (reply E D rq trace_id reads w) = 500
               | Inr url \<Rightarrow> reply E D rq trace_id reads w = \<lparr> rs_status = 200, rs_content_type = ''application/json'',
                   rs_body = jprint (download_json i url) \<rparr>)"
proof -
  obtain ctx and w1 :: "'x world_scheme" where v: "tables w1 = tables w" "tick w1 = Suc (tick w)"
    "reply E D rq trace_id reads w = response_of (value_of (serve E D rq (EpResult i) ctx) w1)"
    by (rule served [OF result_routed [OF assms(4)], of w E D trace_id reads])
  have r: "reply E D rq trace_id reads w
      = response_of (value_of (HandleGetTaskResult E (float_text D) ctx (storage_ready D) i) w1)"
    using v(3) by (simp add: serve_def)
  have lu: "lookup w1 i = lookup w i" by (rule same_tables(1) [OF v(1)])
  have "files_there w"
    by (rule steps_invariant [of E D S files_there, OF files_step assms(1)])
      (auto simp: files_there_def results_def assms(2))
  then have named: "\<exists>ob\<in>set (objects w). res = jprint (file_json (so_key ob))" if "lookup w i = Some e" "ev_result e = Some res" for e res
    using that find_row_SomeD by (fastforce simp: files_there_def results_def lookup_def image_iff)
  note plain = HandleGetTaskResult_def get_event_value [OF db_up_answers [OF assms(3)]] answer_def response_of_def lu text_or_empty_def
  show ?thesis
  proof (cases "lookup w i")
    case None
    then show ?thesis by (simp add: r plain)
  next
    case (Some e)
    show ?thesis
    proof (cases "ev_status e = Some ''processed'' \<and> ev_result e \<noteq> None")
      case False
      then show ?thesis using Some by (auto simp: r plain split: option.split)
    next
      case True
      then obtain res where res: "ev_result e = Some res" by blast
      obtain ob where ob: "ob \<in> set (objects w)" "res = jprint (file_json (so_key ob))" using named [OF Some res] by blast
      have "lookup w1 i = Some e" using Some lu by simp
      note val = result_value [OF assms(3) this _ res [unfolded ob(2)]]
      show ?thesis
        using Some True res ob val by (auto simp: r v(2) response_of_def split: sum.split intro!: bexI [of _ ob])
    qed
  qed
qed

end
