(* ===== verification/Concurrency.thy ===== *)
theory Concurrency
  imports Interleaving Submissions Results
begin

text \<open>
  Handlers that overlap. Whatever the order in which requests, task runs and operations of the pool
  take their turns, between any two turns the tables, the queue and the object store are
  consistent, and what they hold only grows; and a client that is told its task was accepted,
  retried or requeued finds it stored and queued.
\<close>

section \<open>What every access keeps\<close>

definition platform_ok :: "'x world_scheme \<Rightarrow> bool" where
  "platform_ok w \<longleftrightarrow> db_ok w \<and> queue_ok w \<and> files_there w"

definition only_grows :: "'x world_scheme \<Rightarrow> 'x world_scheme \<Rightarrow> bool" where
  "only_grows w w' \<longleftrightarrow> rows_kept w w' \<and> keys_kept w w'
    \<and> (\<exists>cs. queue_log w' = queue_log w @ cs) \<and> (\<exists>obs. objects w' = objects w @ obs)"

lemma only_grows_refl [simp]: "only_grows w w"
  by (simp add: only_grows_def)

lemma only_grows_trans: "only_grows w w' \<Longrightarrow> only_grows w' w'' \<Longrightarrow> only_grows w w''"
  unfolding only_grows_def by (metis append_assoc keys_kept_trans rows_kept_trans)

lemma platform_ok_tables: "tables w' = tables w \<Longrightarrow> platform_ok w' = platform_ok w"
  by (simp add: platform_ok_def db_ok_def queue_ok_def call_stored_def stored_def files_there_def results_def tables_def
      cong: queue_call.case_cong)

lemma only_grows_tables: "tables w' = tables w \<Longrightarrow> only_grows w w'"
  by (simp add: only_grows_def rows_kept_def keys_kept_def tables_def)

interpretation shared: interference platform_ok only_grows
proof unfold_locales
  show "only_grows w w" for w :: "'a world_scheme" by simp
  show "only_grows w w''" if "only_grows w w'" "only_grows w' w''" for w w' w'' :: "'a world_scheme"
    using that by (rule only_grows_trans)
  show "only_grows w (w\<lparr> req_log := l \<rparr>)" for w :: "'a world_scheme" and l
    by (rule only_grows_tables) simp
  show "platform_ok (w\<lparr> req_log := l \<rparr>)" if "platform_ok w" for w :: "'a world_scheme" and l
    using that by (simp add: platform_ok_tables [of "w\<lparr> req_log := l \<rparr>" w])
qed

abbreviation safely :: "('r \<Rightarrow> 'x world_scheme \<Rightarrow> bool) \<Rightarrow> ('x world_scheme, 'r) prog \<Rightarrow> ('x world_scheme \<Rightarrow> bool) \<Rightarrow> bool" where
  "safely \<equiv> safe platform_ok only_grows"

text \<open>An access that can come at any time, and what one can know.\<close>

definition clean :: "('x world_scheme, 'a) state \<Rightarrow> bool" where
  "clean m \<longleftrightarrow> (\<forall>w. platform_ok w \<longrightarrow> platform_ok (final m w) \<and> only_grows w (final m w))"

abbreviation lasts :: "('x world_scheme \<Rightarrow> bool) \<Rightarrow> bool" where
  "lasts \<equiv> stable only_grows"

named_theorems clean_rules \<open>accesses that can come at any time\<close>
named_theorems lasting_facts \<open>what no other thread takes away\<close>

lemma clean_tables: "frames tables m \<Longrightarrow> clean m"
  unfolding clean_def frames_def using platform_ok_tables only_grows_tables by blast

lemma clean_bind: "clean m \<Longrightarrow> (\<And>a. clean (f a)) \<Longrightarrow> clean (State_Monad.bind m f)"
  unfolding clean_def final_bind using only_grows_trans by blast

lemma clean_return [clean_rules]: "clean (State_Monad.return a)" "clean State_Monad.get"
  by (simp_all add: clean_def)

lemma clean_cases:
  "clean m \<Longrightarrow> clean m' \<Longrightarrow> clean (if b then m else m')"
  "(\<And>e. clean (f e)) \<Longrightarrow> (\<And>a. clean (g a)) \<Longrightarrow> clean (case r of Inl e \<Rightarrow> f e | Inr a \<Rightarrow> g a)"
  by (simp_all split: sum.split)

lemma clean_answer [clean_rules]: "clean m \<Longrightarrow> clean (answer m)"
  unfolding answer_def by (intro clean_bind clean_return)

text \<open>Statements: they leave the queue, the objects and the results alone.\<close>

lemma clean_statement:
  assumes "keeps db_ok m" "frames queue_log m" "frames objects m" "frames results m" "grows m" "adds_keys m"
  shows "clean m"
proof -
  have "keeps queue_ok m" by (rule quiet_queue [OF assms(2,5)])
  then show ?thesis
    using assms
    by (simp add: clean_def platform_ok_def only_grows_def keeps_def frames_def grows_def adds_keys_def files_there_def)
qed

lemma clean_statements [clean_rules]:
  "clean (SaveProcessedEvent E i ty pl st tr pr pa sch)" "clean (RepoUpdateEventStatus E i x)"
  "clean (CheckAndRecordToDB E k i md)" "clean (CancelTask E i)" "clean (AdminResetTaskForRetry E i)"
  by (rule clean_statement; intro ok_repository ok_idempotency results_view.writes objects_view.writes frame grow_rules key_rules; simp)+

lemma clean_store [clean_rules]: "clean (UpdateStatus E i st)" "clean (RecordAttempt E i st n err)"
proof -
  show "clean (UpdateStatus E i st)" unfolding UpdateStatus_def by (rule clean_rules)
  have r: "frames results (UpsertDeliveryLog E u)" "frames objects (UpsertDeliveryLog E u)"
      "frames idempotency_keys (UpsertDeliveryLog E u)" for u
    by (intro statement_frames(8); simp add: results_def)+
  show "clean (RecordAttempt E i st n err)"
  proof (rule clean_statement)
    show "frames results (RecordAttempt E i st n err)" "frames objects (RecordAttempt E i st n err)"
      "adds_keys (RecordAttempt E i st n err)"
      unfolding RecordAttempt_def LogDeliveryStatus_def by (intro r adds_keys_frame)+
  qed (intro ok_repository quiet_store grow_rules)+
qed

text \<open>Reads, clocks, logs and answers.\<close>

lemma clean_reads [clean_rules]:
  "clean next_tick" "clean (time_now E)" "clean (with_log ctx f)" "clean (AddEvent E ctx stp st oe)"
  "clean (RespondWithError ctx code err)" "clean (RespondWithJSON code j)" "clean (reject E ctx stp code err)"
  "clean (execute_in_past E t)" "clean (PresignedURL E key)" "clean (GetEventByID E i)" "clean (create_check E ctx req)"
  "clean (CountEventsFiltered E fl)" "clean (ListEventsFiltered E fl off lim)" "clean (GetRecentProcessedCount E)"
  by (intro clean_tables frame)+

lemma clean_reads' [clean_rules]:
  "clean (still_due E t)" "clean (HealthStats E)" "clean (GetStatusCounts E)" "clean (GetChildTasks E i)"
  "clean (GetRetryHistory E i)" "clean (file_result E ctx storage i key)" "clean (GetTask E i)"
  "clean (State_Monad.update (\<lambda>w. w\<lparr> req_log := l \<rparr>))"
  unfolding still_due_def HealthStats_def GetStatusCounts_def GetChildTasks_def GetRetryHistory_def file_result_def GetTask_def
  by (intro clean_tables frame; simp add: frames_def)+

lemma clean_fetch [clean_rules]:
  "clean (scrape_page E S url)" "clean (fetch_image S url)" "clean (parentFileResultKey E i)" "clean (Download E key)"
  by (rule clean_tables, (rule fetch_frames | rule download_frames), simp)+

text \<open>Calls to the queue: those that name no task, and those that name a stored one.\<close>

lemma clean_call:
  assumes "\<And>w. final m w = log_call (c w) (next_state w)" "\<And>w. call_stored (c w) w"
  shows "clean m"
proof -
  have "platform_ok (log_call (c w) (next_state w)) \<and> only_grows w (log_call (c w) (next_state w))"
    if "platform_ok w" for w
    using that assms(2) [of w] log_queue_ok [of w "c w"]
    by (auto simp: platform_ok_def only_grows_def files_there_def results_def rows_kept_def keys_kept_def)
  then show ?thesis by (simp add: clean_def assms(1))
qed

lemma clean_calls [clean_rules]: "clean (RemoveFromDLQ E i)" "clean (GetQueueDepths E)" "clean (GetDLQItems E)"
proof -
  show "clean (RemoveFromDLQ E i)" by (rule clean_call) (simp, simp add: call_stored_def)
  show "clean (GetQueueDepths E)" by (rule clean_call) (simp add: GetQueueDepths_def, simp add: call_stored_def)
  show "clean (GetDLQItems E)" by (rule clean_call) (simp add: GetDLQItems_def, simp add: call_stored_def)
qed

lemma clean_handlers [clean_rules]:
  "clean (HandleCancelTask E ctx i)" "clean (HandleGetTask E ctx i)" "clean (HandleGetTaskChildren E ctx i)"
  "clean (HandleGetTaskRetries E ctx i)" "clean (HandleRemoveDLQTask E ctx i)" "clean (HandleQueueDepth E ctx)"
  "clean (HandleWorkerHealth E)"
  unfolding HandleCancelTask_def HandleGetTask_def HandleGetTaskChildren_def HandleGetTaskRetries_def
    HandleRemoveDLQTask_def HandleQueueDepth_def HandleWorkerHealth_def
  by (intro clean_cases clean_bind clean_rules)+

lemma lasts_stored [lasting_facts]: "lasts (stored i)"
  unfolding stable_def only_grows_def using stored_kept by blast

lemma lasts_basic [lasting_facts]: "lasts (\<lambda>w. True)" "lasts (\<lambda>w. b)"
  by (simp_all add: stable_def)

lemma lasts_conj [lasting_facts]: "lasts K \<Longrightarrow> lasts L \<Longrightarrow> lasts (\<lambda>w. K w \<and> L w)"
  by (auto simp: stable_def)

lemma lasts_imp [lasting_facts]: "lasts K \<Longrightarrow> lasts (\<lambda>w. b \<longrightarrow> K w)"
  by (auto simp: stable_def)

lemma lasts_ex [lasting_facts]: "(\<And>x. lasts (K x)) \<Longrightarrow> lasts (\<lambda>w. \<exists>x. K x w)"
  unfolding stable_def by blast

lemma lasts_log [lasting_facts]: "lasts (\<lambda>w. c \<in> set (queue_log w))"
  by (auto simp: stable_def only_grows_def)

lemma lasts_object [lasting_facts]: "lasts (\<lambda>w. ob \<in> set (objects w))"
  by (auto simp: stable_def only_grows_def)

lemma lasts_core [lasting_facts]: "lasts (\<lambda>w. c \<in> row_core ` set (events w))"
proof -
  have "c \<in> set (map row_core (events w'))" if "rows_kept w w'" "c \<in> set (map row_core (events w))" for w w' :: "'a world_scheme"
    using that unfolding rows_kept_def by (metis UnI1 set_append)
  then show ?thesis unfolding stable_def only_grows_def set_map by blast
qed

lemma lasts_key [lasting_facts]: "lasts (\<lambda>w. key_row w k = Some r)" "lasts (\<lambda>w. key_row w k \<noteq> None)"
  unfolding stable_def only_grows_def using keys_kept_row by blast+

section \<open>Steps of a thread\<close>

definition clean_with :: "('x world_scheme \<Rightarrow> bool) \<Rightarrow> ('x world_scheme, 'a) state \<Rightarrow> bool" where
  "clean_with K m \<longleftrightarrow> (\<forall>w. platform_ok w \<longrightarrow> K w \<longrightarrow> platform_ok (final m w) \<and> only_grows w (final m w))"

lemma clean_anyway: "clean m \<Longrightarrow> clean_with K m"
  by (simp add: clean_def clean_with_def)

lemma clean_with_then: "clean_with K m \<Longrightarrow> (\<And>a. clean (f a)) \<Longrightarrow> clean_with K (State_Monad.bind m f)"
  unfolding clean_def clean_with_def final_bind using only_grows_trans by blast

lemma then_know:
  assumes "clean_with K m" "lasts K" "\<And>w. platform_ok w \<Longrightarrow> K w \<Longrightarrow> L (value_of m w) (final m w)"
    and "\<And>a. safely Q (k a) (\<lambda>w. K w \<and> L a w)"
  shows "safely Q (Then m k) K"
proof (rule safe_Then [OF assms(2) _ assms(4)])
  have "K (final m w)" if "platform_ok w" "K w" for w
    using assms(1,2) that unfolding clean_with_def stable_def by blast
  then show "access platform_ok only_grows K m (\<lambda>a w. K w \<and> L a w)"
    using assms(1,3) unfolding access_def clean_with_def by blast
qed

lemma then_clean: "clean m \<Longrightarrow> lasts K \<Longrightarrow> (\<And>a. safely Q (k a) K) \<Longrightarrow> safely Q (Then m k) K"
  by (rule then_know [where L = "\<lambda>a w. True"]) (simp_all add: clean_anyway)

lemma then_value:
  assumes "clean m" "lasts K" "\<And>w. safely Q (k (value_of m w)) K"
  shows "safely Q (Then m k) K"
proof -
  have "platform_ok (final m w) \<and> only_grows w (final m w) \<and> K (final m w)" if "platform_ok w" "K w" for w
    using assms(1,2) that unfolding clean_def stable_def by blast
  then show ?thesis unfolding Then_def safe.simps using assms(2,3) by blast
qed

text \<open>An access that can fail; what is known after it when it does not.\<close>

lemma then_result:
  assumes "clean_with K m" "lasts K" "lasts L"
    and "\<And>w a. platform_ok w \<Longrightarrow> K w \<Longrightarrow> value_of m w = Inr a \<Longrightarrow> L (final m w)"
    and "\<And>e. safely Q (f e) K" "\<And>a. safely Q (g a) (\<lambda>w. K w \<and> L w)"
  shows "safely Q (Then m (\<lambda>r. case r of Inl e \<Rightarrow> f e | Inr a \<Rightarrow> g a)) K"
proof (rule then_know [where L = "\<lambda>r w. (\<exists>a. r = Inr a) \<longrightarrow> L w", OF assms(1,2)])
  fix r :: "'b + 'c"
  have K: "lasts (\<lambda>w. K w \<and> ((\<exists>a. r = Inr a) \<longrightarrow> L w))" by (intro lasting_facts assms(2,3))
  show "safely Q (case r of Inl e \<Rightarrow> f e | Inr a \<Rightarrow> g a) (\<lambda>w. K w \<and> ((\<exists>a. r = Inr a) \<longrightarrow> L w))"
  proof (rule safe_sum)
    show "safely Q (f e) (\<lambda>w. K w \<and> ((\<exists>a. r = Inr a) \<longrightarrow> L w))" for e
      by (rule safe_weaken [OF assms(5) K]) simp
    show "safely Q (g a) (\<lambda>w. K w \<and> ((\<exists>a. r = Inr a) \<longrightarrow> L w))" if "r = Inr a" for a
      by (rule safe_weaken [OF assms(6) K]) (use that in auto)
  qed
qed (use assms(4) in blast)

lemma atomic_know:
  assumes "clean_with K m" "lasts K" "\<And>a. lasts (Q a)" "\<And>w. platform_ok w \<Longrightarrow> K w \<Longrightarrow> Q (value_of m w) (final m w)"
  shows "safely Q (atomic m) K"
  unfolding atomic_def
  by (rule then_know [where L = Q, OF assms(1,2,4)]) (auto intro: safe_Done lasts_conj assms(2,3))

text \<open>Threads that promise nothing.\<close>

abbreviation quietly :: "('x world_scheme, 'r) prog \<Rightarrow> bool" where
  "quietly p \<equiv> safely (\<lambda>r w. True) p (\<lambda>w. True)"

lemma quiet_Done: "quietly (Done r)"
  by (simp add: lasting_facts)

lemma quiet_Then: "clean m \<Longrightarrow> (\<And>a. quietly (k a)) \<Longrightarrow> quietly (Then m k)"
  by (rule then_clean) (auto intro: lasting_facts)

lemma quiet_atomic: "clean m \<Longrightarrow> quietly (atomic m)"
  unfolding atomic_def by (intro quiet_Then quiet_Done)

lemma quiet_andThen: "quietly p \<Longrightarrow> (\<And>a. quietly (q a)) \<Longrightarrow> quietly (andThen p q)"
  by (rule safe_andThen)

lemma quiet_cases:
  "quietly p \<Longrightarrow> quietly p' \<Longrightarrow> quietly (if b then p else p')"
  "(\<And>e. quietly (f e)) \<Longrightarrow> (\<And>a. quietly (g a)) \<Longrightarrow> quietly (case r of Inl e \<Rightarrow> f e | Inr a \<Rightarrow> g a)"
  "quietly p \<Longrightarrow> (\<And>a. quietly (h a)) \<Longrightarrow> quietly (case c of None \<Rightarrow> p | Some a \<Rightarrow> h a)"
  "(\<And>x y. quietly (t x y)) \<Longrightarrow> quietly (case d of (x, y) \<Rightarrow> t x y)"
  by (simp_all split: sum.split option.split prod.split)

lemmas quiet_rules = quiet_Done quiet_Then quiet_atomic quiet_andThen quiet_cases

text \<open>What was known before a thread began is known at its end.\<close>

lemma safely_frame:
  assumes "safely Q p K" "lasts F"
  shows "safely (\<lambda>r w. Q r w \<and> F w) p (\<lambda>w. K w \<and> F w)"
  using assms(1)
proof (induction p arbitrary: K)
  case (Done a)
  then show ?case using assms(2) by (auto intro: lasts_conj)
next
  case (Call g k)
  show ?case unfolding safe.simps
  proof (intro conjI allI impI)
    show "lasts (\<lambda>w. K w \<and> F w)" using Call.prems assms(2) by (auto intro: lasts_conj)
    fix w assume w: "platform_ok w" "K w \<and> F w"
    then obtain L where L: "platform_ok (g w)" "only_grows w (g w)" "L (g w)" "safely Q (k w) L"
      using Call.prems by auto
    show "platform_ok (g w)" "only_grows w (g w)" by (rule L)+
    have f: "F (g w)" using assms(2) w(2) L(2) unfolding stable_def by blast
    show "\<exists>L. L (g w) \<and> safely (\<lambda>r w. Q r w \<and> F w) (k w) L"
      by (rule exI [of _ "\<lambda>w. L w \<and> F w"]) (simp add: f L(3) Call.IH [OF rangeI L(4)])
  qed
qed

text \<open>Threads whose answer 200 says something.\<close>

abbreviation tells :: "('x world_scheme \<Rightarrow> bool) \<Rightarrow> http_response \<Rightarrow> 'x world_scheme \<Rightarrow> bool" where
  "tells P a w \<equiv> rs_status a = 200 \<longrightarrow> P w"

lemma refuse:
  assumes "status_in S m" "200 \<notin> S" "clean m" "lasts K" "lasts P"
  shows "safely (tells P) (atomic m) K"
proof (rule atomic_know [OF clean_anyway [OF assms(3)] assms(4)])
  show "tells P (value_of m w) (final m w)" for w using status_inD [OF assms(1), of w] assms(2) by auto
qed (auto intro: lasts_imp assms(5))

lemma refuse_reject: "code \<noteq> 200 \<Longrightarrow> lasts K \<Longrightarrow> lasts P \<Longrightarrow> safely (tells P) (atomic (reject E ctx stp code err)) K"
  by (rule refuse [OF status_reject [of code "{code}"]]) (auto intro: clean_rules)

lemma refuse_error: "code \<noteq> 200 \<Longrightarrow> lasts K \<Longrightarrow> lasts P \<Longrightarrow> safely (tells P) (atomic (RespondWithError ctx code err)) K"
  by (rule refuse [OF status_error [of code "{code}"]]) (auto intro: clean_rules)

text \<open>Handing a stored task to the queue.\<close>

lemma with_call:
  assumes "\<And>w. final m w = log_call (c w) (next_state w)" "\<And>w. K w \<Longrightarrow> call_stored (c w) w"
  shows "clean_with K m"
proof -
  have "platform_ok (log_call (c w) (next_state w)) \<and> only_grows w (log_call (c w) (next_state w))"
    if "platform_ok w" "K w" for w
    using that assms(2) [of w] log_queue_ok [of w "c w"]
    by (auto simp: platform_ok_def only_grows_def files_there_def results_def rows_kept_def keys_kept_def)
  then show ?thesis by (simp add: clean_with_def assms(1))
qed

lemma with_calls:
  assumes "\<And>w. K w \<Longrightarrow> stored i w"
  shows "clean_with K (EnqueueWithPriority E i p)" "clean_with K (Schedule E i p at)"
    "clean_with K (enqueue_or_schedule E i p ex)" "clean_with K (enqueue_answer E ctx i p)"
proof -
  show enq: "clean_with K (EnqueueWithPriority E i p)" for p
    by (rule with_call) (simp, simp add: call_stored_def assms)
  show sch: "clean_with K (Schedule E i p at)" for at
    by (rule with_call) (simp, simp add: call_stored_def assms)
  show "clean_with K (enqueue_or_schedule E i p ex)" "clean_with K (enqueue_answer E ctx i p)"
    unfolding enqueue_or_schedule_def enqueue_answer_def
    by (cases ex) (auto intro!: enq sch clean_with_then clean_cases clean_rules)
qed

end
