(* ===== verification/Promises.thy ===== *)
theory Promises
  imports Concurrency
begin

text \<open>
  What a client is told while others are at work, and what a worker leaves: the promises of the
  threads. Each thread keeps the invariant of the platform at every turn; an answer 200 to a
  submission, a retry or a requeue means the task is stored and the queue has taken it; a task run
  without an error has its declared next step stored and queued.
\<close>

section \<open>The promises\<close>

definition queued :: "string \<Rightarrow> 'x world_scheme \<Rightarrow> bool" where
  "queued i w \<longleftrightarrow> stored i w \<and> (\<exists>c. c \<in> set (queue_log w)
    \<and> ((\<exists>p. c = EnqueueCall i p None) \<or> (\<exists>p at. c = ScheduleCall i p at None)))"

text \<open>
  Stored as it was validated, whatever its status by now; taken by the queue; its key recorded.
\<close>

definition task_accepted :: "env \<Rightarrow> bytes \<Rightarrow> 'x world_scheme \<Rightarrow> bool" where
  "task_accepted E body w \<longleftrightarrow> (\<exists>r req i full t ctx. decode_stream decode_request empty_request body = (r, True)
    \<and> passes (default_priority r) \<and> (\<exists>tp. req = set_trace tp (default_priority r))
    \<and> marshal_request req = Some full
    \<and> row_core (accepted_row E ctx t i req full) \<in> row_core ` set (events w)
    \<and> submitted i req \<in> set (queue_log w) \<and> key_row w (request_key req) \<noteq> None)"

definition endpoint_promise :: "env \<Rightarrow> bytes \<Rightarrow> endpoint \<Rightarrow> 'x world_scheme \<Rightarrow> bool" where
  "endpoint_promise E body ep w = (case ep of
      EpCreate \<Rightarrow> task_accepted E body w
    | EpRetry i \<Rightarrow> queued i w
    | EpRequeue i \<Rightarrow> queued i w
    | EpDLQRetry i \<Rightarrow> queued i w
    | _ \<Rightarrow> True)"

definition promised :: "env \<Rightarrow> http_request \<Rightarrow> 'x world_scheme \<Rightarrow> bool" where
  "promised E rq w = (case route (hr_method rq) (hr_path rq) of
      RouteTo ep \<Rightarrow> endpoint_promise E (hr_body rq) ep w
    | _ \<Rightarrow> True)"

text \<open>The task as it was read: what a run needs of a row never changes.\<close>

definition next_there :: "env \<Rightarrow> worker_task \<Rightarrow> 'x world_scheme \<Rightarrow> bool" where
  "next_there E task w \<longleftrightarrow> (case declared_next task of
      None \<Rightarrow> True
    | Some nxt \<Rightarrow> (\<exists>j full t. marshal_request nxt = Some full
        \<and> row_core (child_row E t j task nxt full) \<in> row_core ` set (events w)
        \<and> submitted j nxt \<in> set (queue_log w)))"

definition ran_on :: "env \<Rightarrow> string \<Rightarrow> 'x world_scheme \<Rightarrow> bool" where
  "ran_on E i w \<longleftrightarrow> (\<exists>e. ev_id e = i \<and> row_core e \<in> row_core ` set (events w) \<and> next_there E (task_of e) w)"

definition told :: "env \<Rightarrow> action \<Rightarrow> ended \<Rightarrow> 'x world_scheme \<Rightarrow> bool" where
  "told E a r w = (case a of
      Request rq trace_id reads \<Rightarrow> (case r of
          Replied (h, resp, cs, line) \<Rightarrow> rs_status resp = 200 \<longrightarrow> promised E rq w
        | _ \<Rightarrow> True)
    | RunTask i \<Rightarrow> (case r of RanTask None \<Rightarrow> ran_on E i w | _ \<Rightarrow> True)
    | _ \<Rightarrow> True)"

lemma lasts_queued [lasting_facts]: "lasts (queued i)"
  unfolding queued_def by (intro lasting_facts)

lemma lasts_accepted [lasting_facts]: "lasts (task_accepted E body)"
  unfolding task_accepted_def by (intro lasting_facts)

lemma lasts_promised [lasting_facts]: "lasts (endpoint_promise E body ep)" "lasts (promised E rq)"
proof -
  show ep: "lasts (endpoint_promise E body ep)" for body ep
    unfolding endpoint_promise_def by (cases ep) (simp_all add: lasting_facts)
  show "lasts (promised E rq)"
    unfolding promised_def by (cases "route (hr_method rq) (hr_path rq)") (simp_all add: ep lasting_facts)
qed

lemma lasts_next [lasting_facts]: "lasts (next_there E task)"
  unfolding next_there_def by (cases "declared_next task") (simp_all only: option.case, (intro lasting_facts)+)

lemma lasts_ran [lasting_facts]: "lasts (ran_on E i)"
  unfolding ran_on_def by (intro lasting_facts)

section \<open>Submission\<close>

lemma submit_taken:
  assumes "tr_priority req = p" "tr_execute_at req = ex" "value_of (enqueue_or_schedule E i p ex) w = Inr u"
  shows "submitted i req \<in> set (queue_log (final (enqueue_or_schedule E i p ex) w))"
  using submit_ok [OF assms(3,1,2)] by simp

lemma create_enqueue_safe:
  assumes K: "lasts K" "\<And>w. K w \<Longrightarrow> stored i w" and P: "lasts P"
    and "\<And>w. K w \<Longrightarrow> submitted i req \<in> set (queue_log w) \<Longrightarrow> P w"
  shows "safely (tells P) (create_enqueue_thread E ctx req i) K"
  unfolding create_enqueue_thread_def
proof (rule then_result [where L = "\<lambda>w. submitted i req \<in> set (queue_log w)"])
  show "safely (tells P) (Then (AddEvent E ctx ''failed_enqueue'' ''failed'' (Some err)) (\<lambda>_.
      Then (with_log ctx (\<lambda>l. l\<lparr> lc_status := ''failed'' \<rparr>)) (\<lambda>_.
      Then (RepoUpdateEventStatus E i ''failed'') (\<lambda>_. atomic (RespondWithError ctx 500 err))))) K" for err
    by (intro then_clean clean_rules K(1) refuse_error P) simp
  show "safely (tells P) (atomic (RespondWithJSON 200 (accepted_json i (tr_execute_at req))))
      (\<lambda>w. K w \<and> submitted i req \<in> set (queue_log w))"
    by (intro atomic_know clean_anyway clean_rules lasting_facts K(1) P) (simp add: assms(4))
qed (auto intro: with_calls K submit_taken lasting_facts)

lemma save_known:
  assumes "value_of (SaveProcessedEvent E i ty pl st tr pr pa sch) w = Inr u"
  shows "\<exists>t. row_core (saved_event E t i ty pl tr pr pa sch)
    \<in> row_core ` set (events (final (SaveProcessedEvent E i ty pl st tr pr pa sch) w))"
  using save_Inr [of E i ty pl st tr pr pa sch w] assms by (auto intro: exI [of _ "tick w"])

lemma core_stored: "row_core e \<in> row_core ` set (events w) \<Longrightarrow> ev_id e = i \<Longrightarrow> stored i w"
  by (auto simp: stored_def row_core_def)

lemma saved_id: "ev_id (saved_event E t i ty pl tr pr pa sch) = i"
  by (simp add: saved_event_def)

lemma record_known:
  assumes "value_of (CheckAndRecordToDB E k i md) w = Inr b"
  shows "key_row (final (CheckAndRecordToDB E k i md) w) k \<noteq> None"
  using record_Inr [OF assms] record_final [of E w k i md] record_value [of E w k i md] assms
  by (auto simp: key_row_def find_row_append find_row_Cons recorded_key_def split: option.splits if_splits)

lemma create_persist_safe:
  assumes P: "lasts P" and "\<And>w i req full t tp. req = set_trace tp q0 \<Longrightarrow> marshal_request req = Some full \<Longrightarrow>
      row_core (accepted_row E ctx t i req full) \<in> row_core ` set (events w) \<Longrightarrow>
      submitted i req \<in> set (queue_log w) \<Longrightarrow> key_row w key \<noteq> None \<Longrightarrow> P w"
  shows "safely (tells P) (create_persist_thread E ctx q0 key) (\<lambda>w. True)"
  unfolding create_persist_thread_def Let_def
proof (rule then_clean [OF clean_reads(1) lasts_basic(1)], rule then_clean [OF clean_reads(3) lasts_basic(1)], rule safe_option)
  fix t :: nat
  show "safely (tells P) (atomic (reject E ctx ''failed_marshalling'' 500 (ErrorString ''json: error calling MarshalJSON''))) (\<lambda>w. True)"
    by (intro refuse_reject lasting_facts P) simp
  fix full
  define i req where "i = new_uuid E t" and "req = set_trace (traceparent E t) q0"
  assume "marshal_request (set_trace (traceparent E t) q0) = Some full"
  then have full: "marshal_request req = Some full" by (simp add: req_def)
  define row :: "'a world_scheme \<Rightarrow> bool" where
    "row w = (\<exists>u. row_core (accepted_row E ctx u i req full) \<in> row_core ` set (events w))" for w
  have K: "lasts row" "lasts (\<lambda>w. row w \<and> key_row w key \<noteq> None)" unfolding row_def by (intro lasting_facts)+
  have there: "stored i w" if "row w" for w
    using that by (auto simp: row_def accepted_row_def saved_id intro: core_stored)
  have P': "P w" if "row w \<and> key_row w key \<noteq> None" "submitted i req \<in> set (queue_log w)" for w
    using that assms(2) [OF req_def full, of _ i w] unfolding row_def by blast
  have queue: "safely (tells P) (create_enqueue_thread E ctx req i) (\<lambda>w. row w \<and> key_row w key \<noteq> None)"
    by (rule create_enqueue_safe [OF K(2) _ P]) (blast intro: there P')+
  have key: "safely (tells P) (Then (CheckAndRecordToDB E key i md) (\<lambda>r. case r of
      Inl err \<Rightarrow> atomic (reject E ctx ''failed_db_inserting'' 500 err)
    | Inr already \<Rightarrow> create_enqueue_thread E ctx req i)) row" for md
    by (rule then_result [where L = "\<lambda>w. key_row w key \<noteq> None"])
      (intro clean_anyway clean_rules K lasting_facts record_known queue refuse_reject P; simp)+
  have saved: "row (final (SaveProcessedEvent E i (tr_type req) full ''pending'' (ctx_trace_id ctx) (tr_priority req) []
      (tr_execute_at req)) w)" if "value_of (SaveProcessedEvent E i (tr_type req) full ''pending'' (ctx_trace_id ctx)
      (tr_priority req) [] (tr_execute_at req)) w = Inr u" for w u
    unfolding row_def accepted_row_def using that by (rule save_known)
  show "safely (tells P) (Then (SaveProcessedEvent E (new_uuid E t) (tr_type (set_trace (traceparent E t) q0)) full ''pending''
      (ctx_trace_id ctx) (tr_priority (set_trace (traceparent E t) q0)) [] (tr_execute_at (set_trace (traceparent E t) q0))) (\<lambda>r. case r of
      Inl err \<Rightarrow> atomic (reject E ctx ''failed_db_saving'' 500 err)
    | Inr _ \<Rightarrow> Then (CheckAndRecordToDB E key (new_uuid E t) (Some \<lparr> md_command = tr_type (set_trace (traceparent E t) q0), md_source = ''api'' \<rparr>)) (\<lambda>r.
        case r of
          Inl err \<Rightarrow> atomic (reject E ctx ''failed_db_inserting'' 500 err)
        | Inr already \<Rightarrow> create_enqueue_thread E ctx (set_trace (traceparent E t) q0) (new_uuid E t)))) (\<lambda>w. True)"
    unfolding i_def [symmetric] req_def [symmetric]
    by (rule then_result [where L = row])
      (auto intro: clean_anyway clean_rules K lasting_facts key refuse_reject P saved)
qed


lemma create_safe:
  "safely (tells (task_accepted E body)) (HandleCreateTask_thread E ctx body :: ('x world_scheme, http_response) prog) (\<lambda>w. True)"
proof -
  have P: "lasts (task_accepted E body)" by (rule lasting_facts)
  have stored: "safely (tells (task_accepted E body)) (create_stored_thread E ctx q0 :: ('x world_scheme, http_response) prog) (\<lambda>w. True)"
    if r: "decode_stream decode_request empty_request body = (r, True)" "passes q0" and q0: "q0 = default_priority r" for r q0
    unfolding create_stored_thread_def
  proof (rule then_value [OF clean_reads(11) lasts_basic(1)])
    fix v :: "'x world_scheme"
    have accepted: "task_accepted E body w" if "req = set_trace tp q0" "marshal_request req = Some full"
        "row_core (accepted_row E ctx t i req full) \<in> row_core ` set (events w)" "submitted i req \<in> set (queue_log w)"
        "key_row w (request_key q0) \<noteq> None" for w :: "'x world_scheme" and req i full t tp
      unfolding task_accepted_def
      by (rule exI [of _ r], rule exI [of _ req], rule exI [of _ i], rule exI [of _ full], rule exI [of _ t],
        rule exI [of _ ctx]) (use that r q0 in \<open>auto simp: request_key_def\<close>)
    have "safely (tells (task_accepted E body)) (create_persist_thread E ctx q0 (request_key q0) :: ('x world_scheme, http_response) prog) (\<lambda>w. True)"
      by (rule create_persist_safe [OF P accepted])
    then show "safely (tells (task_accepted E body)) (case value_of (create_check E ctx q0) v of
        Inl a \<Rightarrow> Done a | Inr key \<Rightarrow> create_persist_thread E ctx q0 key) (\<lambda>w :: 'x world_scheme. True)"
      using create_check_answer [of E ctx q0 v] create_check_key [of E ctx q0 v]
      by (intro safe_sum safe_Done lasting_facts) auto
  qed
  show ?thesis
    unfolding HandleCreateTask_thread_def create_validated_thread_def Let_def
    by (intro safe_prod safe_if then_clean clean_rules lasting_facts refuse_reject safe_option P stored)
      (auto simp: passes_def)
qed

section \<open>Retries\<close>

lemma call_queued: "stored i w \<Longrightarrow> queued i (log_call (EnqueueCall i p None) (next_state w))"
  "stored i w \<Longrightarrow> queued i (log_call (ScheduleCall i p at None) (next_state w))"
  by (auto simp: queued_def stored_def)

lemma enqueue_answer_safe:
  assumes "lasts K" "\<And>w. K w \<Longrightarrow> stored i w"
  shows "safely (tells (queued i)) (atomic (enqueue_answer E ctx i p)) K"
proof (rule atomic_know [OF with_calls(4) [OF assms(2)] assms(1)])
  show "tells (queued i) (value_of (enqueue_answer E ctx i p) w) (final (enqueue_answer E ctx i p) w)" if "K w" for w
    using enqueue_answer_200(2) [of E ctx i p w] call_queued(1) assms(2) [OF that] by auto
qed (auto intro: lasting_facts)

lemma reset_safe: "safely (tells (queued i)) (reset_and_enqueue_thread E ctx i) (\<lambda>w. True)"
  unfolding reset_and_enqueue_thread_def
proof (rule then_result [where L = "stored i"])
  show "safely (tells (queued i)) (if err_is err ErrNotRetryable then atomic (RespondWithError ctx 409 err)
      else atomic (RespondWithError ctx 500 err)) (\<lambda>w. True)" for err
    by (intro safe_if refuse_error lasting_facts) simp_all
  show "safely (tells (queued i)) (atomic (enqueue_answer E ctx i p)) (\<lambda>w. True \<and> stored i w)" for p
    by (intro enqueue_answer_safe lasting_facts) simp
qed (auto intro: clean_anyway clean_rules lasting_facts reset_stored)

lemma retries_safe:
  "safely (tells (queued i)) (HandleRetryTask_thread E ctx i) (\<lambda>w. True)"
  "safely (tells (queued i)) (HandleRetryDLQTask_thread E ctx i) (\<lambda>w. True)"
  unfolding HandleRetryTask_thread_def HandleRetryDLQTask_thread_def
  by (intro safe_if then_clean clean_rules safe_sum reset_safe refuse_error lasting_facts; simp)+

lemma requeue_safe:
  "safely (tells (queued i)) (HandleRequeueTask_thread E ctx i :: ('x world_scheme, http_response) prog) (\<lambda>w. True)"
proof -
  have K: "lasts (stored i)" by (rule lasting_facts)
  have sch: "safely (tells (queued i)) (Then (Schedule E i p at) (\<lambda>r. case r of
      Inl err \<Rightarrow> atomic (RespondWithError ctx 500 err) | Inr _ \<Rightarrow> atomic (RespondWithJSON 200 (j p at)))) (stored i :: 'x world_scheme \<Rightarrow> bool)" for p at j
  proof (rule then_result [where L = "queued i"])
    show "queued i (final (Schedule E i p at) w)" if "stored i w" "value_of (Schedule E i p at) w = Inr u" for w u
      using that call_queued(2) by simp
    show "safely (tells (queued i)) (atomic (RespondWithJSON 200 (j p at))) (\<lambda>w. stored i w \<and> queued i w)"
      by (intro atomic_know clean_anyway clean_rules lasting_facts) simp
    show "safely (tells (queued i)) (atomic (RespondWithError ctx 500 err)) (stored i)" for err
      by (intro refuse_error lasting_facts) simp
  qed (auto intro: with_calls lasting_facts)
  have due: "safely (tells (queued i)) (Then (still_due E at) (\<lambda>due. case due of
      Some at \<Rightarrow> Then (Schedule E i p at) (\<lambda>r. case r of
        Inl err \<Rightarrow> atomic (RespondWithError ctx 500 err) | Inr _ \<Rightarrow> atomic (RespondWithJSON 200 (j p at)))
    | None \<Rightarrow> atomic (enqueue_answer E ctx i p))) (stored i :: 'x world_scheme \<Rightarrow> bool)" for at p j
    by (rule then_clean [OF clean_reads'(1) K]) (auto intro: safe_option sch enqueue_answer_safe K)
  have found: "stored i (next_state w)" if "value_of (GetEventByID E i) w = Inr e" for e and w :: "'x world_scheme"
    using found_stored [OF that] by simp
  show ?thesis
    unfolding HandleRequeueTask_thread_def Let_def
    by (rule safe_if, intro refuse_error lasting_facts, simp, rule then_result [where L = "stored i"])
      (auto intro: clean_anyway clean_rules lasting_facts found safe_if refuse_error due)
qed

section \<open>Reading requests, and the way through the middleware\<close>

lemma still_found: "quietly (found_tasks_thread E is)"
  by (induction "is") (auto intro!: quiet_rules clean_rules lasting_facts)

lemma quiet_readers:
  "quietly (HandleGetTaskResult_thread E num ctx storage i)" "quietly (HandleDashboardStats_thread E ctx)"
  "quietly (HandleListTasks_thread E ctx q)" "quietly (HandleListDLQ_thread E ctx)"
  unfolding HandleGetTaskResult_thread_def HandleDashboardStats_thread_def HandleListTasks_thread_def
    AdminListEvents_thread_def HandleListDLQ_thread_def Let_def
  by (intro quiet_rules still_found clean_rules)+

lemma quiet_keeps: "quietly p \<Longrightarrow> (\<And>r w. P r w) \<Longrightarrow> safely P p (\<lambda>w. True)"
  by (erule safe_mono) simp

lemma answer_safe:
  assumes "safely (tells P) p (\<lambda>w. True)" "lasts P"
  shows "safely (\<lambda>r. tells P (response_of r)) (answer_thread p) (\<lambda>w. True)"
  unfolding answer_thread_def
  by (rule safe_andThen [OF assms(1)]) (intro safe_Done lasting_facts assms(2), simp add: response_of_def)

lemma serve_safe:
  "safely (\<lambda>r. tells (endpoint_promise E (hr_body rq) ep) (response_of r)) (serve_thread E D rq ep ctx) (\<lambda>w. True)"
proof -
  have quiet: "safely (\<lambda>r. tells (\<lambda>w. True) (response_of r)) p (\<lambda>w. True)" if "quietly p" for p :: "('a world_scheme, http_outcome) prog"
    using that by (rule quiet_keeps) simp
  have quiet': "safely (\<lambda>r. tells (\<lambda>w. True) (response_of r)) (answer_thread p) (\<lambda>w. True)" if "quietly p" for p :: "('a world_scheme, http_response) prog"
    by (rule answer_safe) (auto intro: quiet_keeps that lasting_facts)
  show ?thesis
    by (cases ep) (simp_all add: serve_thread_def endpoint_promise_def [abs_def] answer_safe create_safe retries_safe requeue_safe
        lasting_facts quiet [simplified] quiet' [simplified] quiet_readers quiet_Done quiet_atomic clean_rules)
qed

lemma dispatch_safe: "safely (tells (promised E rq)) (dispatch_thread E D rq ctx) (\<lambda>w. True)"
proof (cases "route (hr_method rq) (hr_path rq)")
  case (RouteTo ep)
  then show ?thesis
    unfolding dispatch_thread_def
    by (simp, intro safe_andThen [OF serve_safe] safe_Done lasting_facts) (simp add: promised_def)
qed (simp_all add: dispatch_thread_def promised_def lasting_facts)

lemma logger_safe:
  assumes "\<And>c. safely (\<lambda>r. P (fst r)) (inner c) (\<lambda>w. True)" "\<And>a. lasts (P a)"
  shows "safely (\<lambda>r. P (fst r)) (RequestLogger_thread E rq inner ctx) (\<lambda>w. True)"
  unfolding RequestLogger_thread_def Let_def
  by (intro then_clean clean_rules lasting_facts safe_if safe_andThen [OF assms(1)] safe_Done assms(2)) (auto split: prod.split)

lemma request_safe:
  "safely (\<lambda>r. tells (promised E rq) (fst (snd r))) (request_thread E D rq trace_id reads) (\<lambda>w. True)"
  unfolding request_thread_def
  by (rule safe_andThen [OF logger_safe [where P = "\<lambda>a. tells (promised E rq) a"]])
    (intro safe_andThen [OF dispatch_safe] safe_Done lasting_facts | simp)+

section \<open>The workers\<close>

lemma clean_upload [clean_rules]: "clean (Upload E key ct body)"
proof -
  let ?m = "Upload E key ct body :: ('a world_scheme, string result) state"
  have parts: "keeps db_ok ?m" "keeps queue_ok ?m" "frames events ?m" "frames queue_log ?m"
    by (intro wf_intros quiet_queue frame grow_rules)+
  have objs: "\<exists>obs. objects (final ?m w) = objects w @ obs" "idempotency_keys (final ?m w) = idempotency_keys w" for w
    by (simp_all add: Upload_def split: option.split prod.split)
  have "files_there (final ?m w)" if "files_there w" for w
  proof -
    have "results (final ?m w) = results w" using framesD [OF parts(3), of w] by (simp add: results_def)
    moreover have "set (objects w) \<subseteq> set (objects (final ?m w))" using objs(1) [of w] by auto
    ultimately show ?thesis using that unfolding files_there_def by fast
  qed
  then show ?thesis
    using parts objs by (simp add: clean_def platform_ok_def only_grows_def keeps_def frames_def rows_kept_def keys_kept_def)
qed

definition uploaded :: "string \<Rightarrow> 'x world_scheme \<Rightarrow> bool" where
  "uploaded key w \<longleftrightarrow> (\<exists>ob. ob \<in> set (objects w) \<and> so_key ob = key)"

lemma lasts_uploaded [lasting_facts]: "lasts (uploaded key)"
  unfolding uploaded_def by (intro lasting_facts)

lemma result_clean: "clean_with (uploaded key) (RepoUpdateEventResult E i (jprint (file_json key)))"
proof -
  let ?m = "RepoUpdateEventResult E i (jprint (file_json key)) :: ('a world_scheme, unit result) state"
  have parts: "keeps db_ok ?m" "keeps queue_ok ?m" "grows ?m" "frames queue_log ?m" "frames objects ?m" "frames idempotency_keys ?m"
    by (intro ok_repository quiet_queue grow_rules frame save_frames(3) wf_intros; simp)+
  have "files_there (final ?m w)" if "files_there w" "uploaded key w" for w
    using that results_save [of E i "jprint (file_json key)" w] framesD [OF parts(5), of w]
    unfolding files_there_def uploaded_def by (metis insert_iff subset_iff)
  then show ?thesis
    using parts by (simp add: clean_with_def platform_ok_def only_grows_def keeps_def grows_def frames_def keys_kept_def)
qed

lemma store_file_safe: "quietly (store_file_thread E label task key ct data :: ('x world_scheme, goerr option) prog)"
  unfolding store_file_thread_def
proof (rule then_result [where L = "uploaded key"])
  show "safely (\<lambda>r w. True) (Then (RepoUpdateEventResult E (wt_id task) (jprint (file_json key))) (\<lambda>r.
      Done (case r of Inl err \<Rightarrow> Some (WrapError (label @ '': save result: '') err) | Inr _ \<Rightarrow> None)))
      (\<lambda>w. True \<and> uploaded key w)"
    using result_clean
    by (intro then_know [where L = "\<lambda>a w. True"]) (auto intro: lasting_facts safe_Done)
  show "uploaded key (final (Upload E key ct data) w)" if "value_of (Upload E key ct data) w = Inr a" for a and w :: "'x world_scheme"
    using that by (auto simp: uploaded_def Upload_def split: option.splits prod.splits)
qed (auto simp: lasting_facts intro: clean_anyway clean_rules)

lemma handlers_safe:
  "quietly (ScrapeURL_thread E S storage task)" "quietly (GenerateReport_thread E storage task)"
  "quietly (ResizeImage_thread E S storage task)"
  unfolding ScrapeURL_thread_def GenerateReport_thread_def report_from_thread_def ResizeImage_thread_def Let_def
  by (intro quiet_rules store_file_safe clean_rules)+

text \<open>The next step of a chain: stored first, then queued.\<close>

abbreviation done_with :: "('x world_scheme \<Rightarrow> bool) \<Rightarrow> goerr option \<Rightarrow> 'x world_scheme \<Rightarrow> bool" where
  "done_with P r w \<equiv> r = None \<longrightarrow> P w"

lemma fail_Done: "lasts K \<Longrightarrow> safely (done_with P) (Done (Some e)) K"
  by (rule safe_Done) simp_all

lemma create_next_safe:
  assumes "declared_next task = Some nxt"
  shows "safely (done_with (next_there E task)) (create_next_thread E task nxt :: ('x world_scheme, goerr option) prog) (\<lambda>w. True)"
  unfolding create_next_thread_def
proof (rule then_clean [OF clean_reads(1) lasts_basic(1)], rule safe_option)
  fix t :: nat
  show "safely (done_with (next_there E task)) (Done (Some (WrapError ''chaining: marshal next: ''
      (ErrorString ''json: error calling MarshalJSON'')))) (\<lambda>w :: 'x world_scheme. True)"
    by (intro fail_Done lasting_facts)
  fix full
  assume full: "marshal_request nxt = Some full"
  define i where "i = new_uuid E t"
  define row :: "'x world_scheme \<Rightarrow> bool" where
    "row w = (\<exists>u. row_core (child_row E u i task nxt full) \<in> row_core ` set (events w))" for w
  have K: "lasts row" unfolding row_def by (intro lasting_facts)
  have there: "stored i w" if "row w" for w
    using that by (auto simp: row_def child_row_def saved_id intro: core_stored)
  have end_thread: "next_there E task w" if "row w" "submitted i nxt \<in> set (queue_log w)" for w
    using that full assms unfolding next_there_def row_def by auto
  have queue: "safely (done_with (next_there E task)) (Then (enqueue_or_schedule E i (tr_priority nxt) (tr_execute_at nxt))
      (\<lambda>r. Done (error_of r))) row"
  proof (rule then_know [where L = "\<lambda>r w. error_of r = None \<longrightarrow> submitted i nxt \<in> set (queue_log w)"])
    show "error_of (value_of (enqueue_or_schedule E i (tr_priority nxt) (tr_execute_at nxt)) w) = None
      \<longrightarrow> submitted i nxt \<in> set (queue_log (final (enqueue_or_schedule E i (tr_priority nxt) (tr_execute_at nxt)) w))"
      for w :: "'x world_scheme"
      using submit_taken [of nxt _ _ E i w] by (auto simp: error_of_def split: sum.splits)
    show "safely (done_with (next_there E task)) (Done (error_of r))
        (\<lambda>w. row w \<and> (error_of r = None \<longrightarrow> submitted i nxt \<in> set (queue_log w)))" for r
      by (intro safe_Done lasting_facts K) (use end_thread in blast)
  qed (auto intro: with_calls there K)
  have saved: "row (final (SaveProcessedEvent E i (tr_type nxt) full ''pending'' (meta task ''trace_id'')
      (tr_priority nxt) (chain_root task) (tr_execute_at nxt)) w)" if "value_of (SaveProcessedEvent E i (tr_type nxt) full
      ''pending'' (meta task ''trace_id'') (tr_priority nxt) (chain_root task) (tr_execute_at nxt)) w = Inr u" for w u
    unfolding row_def child_row_def using that by (rule save_known)
  show "safely (done_with (next_there E task)) (Then (SaveProcessedEvent E (new_uuid E t) (tr_type nxt) full ''pending''
      (meta task ''trace_id'') (tr_priority nxt) (chain_root task) (tr_execute_at nxt)) (\<lambda>r. case r of
        Inl err \<Rightarrow> Done (Some (WrapError ''chaining: save next task: '' err))
      | Inr _ \<Rightarrow> Then (enqueue_or_schedule E (new_uuid E t) (tr_priority nxt) (tr_execute_at nxt)) (\<lambda>r. Done (error_of r))))
      (\<lambda>w :: 'x world_scheme. True)"
    unfolding i_def [symmetric]
    by (rule then_result [where L = row]) (auto intro: clean_anyway clean_rules K lasting_facts queue fail_Done saved)
qed

lemma Wrap_safe:
  assumes "quietly (h task)"
  shows "safely (done_with (next_there E task)) (Wrap_thread E h task) (\<lambda>w. True)"
  unfolding Wrap_thread_def
proof (rule safe_andThen [OF assms], rule safe_option)
  show "safely (done_with (next_there E task)) (Done (Some e)) (\<lambda>w. True)" for e by (intro fail_Done lasting_facts)
  have none: "safely (done_with (next_there E task)) (Done None) (\<lambda>w. True)" if "declared_next task = None"
    using that by (intro safe_Done lasting_facts) (simp add: next_there_def)
  show "safely (done_with (next_there E task)) (if meta task ''next'' = [] then Done None
      else (case unmarshal decode_request empty_request (meta task ''next'') of (nxt, ok) \<Rightarrow>
        if \<not> ok then Done (Some (WrapError ''chaining: parse next: '' (json_error E (meta task ''next''))))
        else if tr_type nxt = [] then Done None else create_next_thread E task nxt)) (\<lambda>w. True)"
    by (intro safe_if safe_prod none fail_Done create_next_safe lasting_facts) (auto simp: declared_next_def)
qed

lemma mux_safe:
  assumes "mux_thread E S storage ty = Some f"
  shows "safely (done_with (next_there E task)) (f task) (\<lambda>w. True)"
proof -
  obtain h where h: "f = Wrap_thread E h" "h \<in> {ResizeImage_thread E S storage, ScrapeURL_thread E S storage, GenerateReport_thread E storage}"
    using assms by (auto simp: mux_thread_def task_threads_def split: if_splits)
  then have "quietly (h task)" using handlers_safe by auto
  then show ?thesis unfolding h(1) by (rule Wrap_safe)
qed

definition read_as :: "string \<Rightarrow> worker_task \<Rightarrow> 'x world_scheme \<Rightarrow> bool" where
  "read_as i task w \<longleftrightarrow> (\<exists>e. ev_id e = i \<and> row_core e \<in> row_core ` set (events w) \<and> task = task_of e)"

lemma lasts_read [lasting_facts]: "lasts (read_as i task)"
  unfolding read_as_def by (intro lasting_facts)

lemma read_known: "value_of (GetTask E i) w = Inr task \<Longrightarrow> read_as i task (final (GetTask E i) w)"
  using get_event_Inr [of E i w] find_row_SomeD [of ev_id i "events w"]
  by (auto simp: GetTask_def lookup_def read_as_def split: sum.splits)

lemma run_safe: "safely (told E (RunTask i)) (thread_of E D S (RunTask i)) (\<lambda>w. True)"
  unfolding thread_of.simps
proof (rule then_know [where L = "\<lambda>r w. \<forall>task. r = Inr task \<longrightarrow> read_as i task w"])
  fix r :: "worker_task result"
  show "safely (told E (RunTask i)) (case r of Inl e \<Rightarrow> Done NotRun
    | Inr task \<Rightarrow> (case mux_thread E S (storage_ready D) (wt_type task) of None \<Rightarrow> Done NotRun
      | Some f \<Rightarrow> andThen (f task) (\<lambda>e. Done (RanTask e)))) (\<lambda>w. True \<and> (\<forall>task. r = Inr task \<longrightarrow> read_as i task w))"
  proof (cases r)
    case (Inr task)
    have run: "safely (told E (RunTask i)) (andThen (f task) (\<lambda>e. Done (RanTask e))) (\<lambda>w. True \<and> read_as i task w)"
      if "mux_thread E S (storage_ready D) (wt_type task) = Some f" for f
    proof (rule safe_andThen [OF safely_frame [OF mux_safe [OF that] lasts_read]])
      show "safely (told E (RunTask i)) (Done (RanTask e)) (\<lambda>w. done_with (next_there E task) e w \<and> read_as i task w)" for e
        by (intro safe_Done lasting_facts) (auto simp: told_def ran_on_def read_as_def split: option.split)
    qed
    show ?thesis
      unfolding Inr by (simp, intro safe_option safe_Done lasting_facts run [simplified]) (simp_all add: told_def)
  qed (simp add: told_def lasting_facts)
qed (auto intro: clean_anyway clean_rules lasting_facts read_known)

theorem thread_safe: "safely (told E a) (thread_of E D S a) (\<lambda>w. True)"
proof (cases a)
  case (Request rq trace_id reads)
  show ?thesis
    unfolding Request thread_of.simps
    by (rule safe_andThen [OF request_safe], intro safe_Done lasting_facts) (auto simp: told_def split: prod.split)
next
  case (RunTask i)
  then show ?thesis using run_safe by simp
next
  case (SetStatus i st)
  then show ?thesis by (simp, intro then_clean clean_rules lasting_facts safe_Done) (simp add: told_def)
next
  case (Attempt i st n err)
  then show ?thesis by (simp, intro then_clean clean_rules lasting_facts safe_Done) (simp add: told_def)
qed

end
