(* ===== verification/Interleaved_Properties.thy ===== *)
theory Interleaved_Properties
  imports Promises
begin

text \<open>
  The platform with its handlers overlapping in any way: the invariant at every turn, what a client
  that got an answer can rely on, duplicates, and that an undisturbed thread is the handler.
\<close>

section \<open>Pools of threads\<close>

text \<open>A promise for each thread, by its place in the pool, on top of what it tells.\<close>

lemma arrive_safe:
  assumes "shared.all_safe Q (w, ts)" "safely (Q (length ts) a) (thread_of E D S a) K" "K w"
  shows "shared.all_safe Q (w, ts @ [\<lparr> th_task = a, th_rest = thread_of E D S a, th_log = empty_log \<rparr>])"
  using assms by (rule shared.all_safe_start)

lemma moves_kept:
  assumes "moves E D S c ms c'" "shared.all_safe Q c" "lasts K" "K (fst c)" "n \<le> length (snd c)"
    and "\<And>j a. n \<le> j \<Longrightarrow> safely (Q j a) (thread_of E D S a) K"
  shows "shared.all_safe Q c' \<and> only_grows (fst c) (fst c') \<and> length (snd c) \<le> length (snd c')"
  using assms
proof (induction rule: moves.induct)
  case (arrive w ts a ms c)
  have "shared.all_safe Q (w, ts @ [\<lparr> th_task = a, th_rest = thread_of E D S a, th_log = empty_log \<rparr>])"
    using arrive.prems by (intro arrive_safe [where K = K]) simp_all
  then show ?case using arrive.IH arrive.prems by fastforce
next
  case (take c i c' ms c'')
  have t: "shared.all_safe Q c' \<and> only_grows (fst c) (fst c')"
    using take.hyps(1) take.prems(1) by (intro shared.turn_safe)
  moreover have "K (fst c')" using t take.prems(2,3) unfolding stable_def by blast
  moreover have "length (snd c') = length (snd c)" using take.hyps(1) by (auto elim: turn.cases)
  ultimately show ?case using take.IH take.prems only_grows_trans by metis
qed simp

definition tells_all :: "env \<Rightarrow> nat \<Rightarrow> action \<Rightarrow> ended \<Rightarrow> 'x world_scheme \<Rightarrow> bool" where
  "tells_all E j = told E"

text \<open>A pool that began with no threads on consistent tables.\<close>

definition begun :: "'x world_scheme \<Rightarrow> bool" where
  "begun w \<longleftrightarrow> initial w \<and> files_there w"

lemma begun_ok: "begun w \<Longrightarrow> platform_ok w"
  by (simp add: begun_def platform_ok_def initial_ok)

lemma moves_safe:
  assumes "begun w0" "moves E D S (w0, []) ms (w, ts)"
  shows "shared.all_safe (tells_all E) (w, ts)" "only_grows w0 w"
proof -
  have "shared.all_safe (tells_all E) (w0, [])" by (rule shared.all_safe_none) (rule begun_ok [OF assms(1)])
  from moves_kept [OF assms(2) this lasts_basic(1), of 0]
  have "shared.all_safe (tells_all E) (w, ts) \<and> only_grows w0 w" using thread_safe by (auto simp: tells_all_def)
  then show "shared.all_safe (tells_all E) (w, ts)" "only_grows w0 w" by simp_all
qed

lemma ended_told:
  assumes "begun w0" "moves E D S (w0, []) ms (w, ts)" "t \<in> set ts" "th_rest t = Done r"
  shows "told E (th_task t) r w"
proof -
  obtain j where j: "j < length ts" "ts ! j = t" using assms(3) by (auto simp: in_set_conv_nth)
  from shared.promise_kept [OF moves_safe(1) [OF assms(1,2)] j(1)] show ?thesis
    using assms(4) j(2) by (simp add: tells_all_def)
qed

text \<open>
  C1: However the turns of requests, task runs and operations of the pool are ordered, at every
  moment, also in the middle of a handler: identifiers and idempotency keys are unique, every key
  belongs to a stored task, every task ever handed to the queue is stored, every result names a
  file in the object store; and no row, key, call or file is ever taken away, nor what was submitted
  of a row ever changed.
\<close>

theorem interleaved_consistent:
  assumes "begun w0" "moves E D S (w0, []) ms (w, ts)"
  shows "distinct (map ev_id (events w)) \<and> distinct (map ik_key (idempotency_keys w))
    \<and> ik_event_id ` set (idempotency_keys w) \<subseteq> ev_id ` set (events w)
    \<and> {i. \<exists>p r. EnqueueCall i p r \<in> set (queue_log w)} \<subseteq> ev_id ` set (events w)
    \<and> {i. \<exists>p at r. ScheduleCall i p at r \<in> set (queue_log w)} \<subseteq> ev_id ` set (events w)
    \<and> {r. Some r \<in> ev_result ` set (events w)} \<subseteq> (\<lambda>ob. jprint (file_json (so_key ob))) ` set (objects w)
    \<and> (\<exists>cs. map row_core (events w) = map row_core (events w0) @ cs)
    \<and> (\<exists>ks. idempotency_keys w = idempotency_keys w0 @ ks)
    \<and> (\<exists>qs. queue_log w = queue_log w0 @ qs)
    \<and> (\<exists>obs. objects w = objects w0 @ obs)"
proof -
  have ok: "platform_ok w" and grown: "only_grows w0 w"
    using moves_safe [OF assms] by (simp_all add: shared.all_safe_def)
  from ok have "db_ok w" "queue_ok w" "files_there w" by (simp_all add: platform_ok_def)
  then have "distinct (map ev_id (events w))" "distinct (map ik_key (idempotency_keys w))"
    "ik_event_id ` set (idempotency_keys w) \<subseteq> ev_id ` set (events w)"
    "{i. \<exists>p r. EnqueueCall i p r \<in> set (queue_log w)} \<subseteq> ev_id ` set (events w)"
    "{i. \<exists>p at r. ScheduleCall i p at r \<in> set (queue_log w)} \<subseteq> ev_id ` set (events w)"
    "{r. Some r \<in> ev_result ` set (events w)} \<subseteq> (\<lambda>ob. jprint (file_json (so_key ob))) ` set (objects w)"
    by (fastforce simp: db_ok_def queue_ok_def call_stored_def stored_def files_there_def results_def)+
  moreover from grown have "rows_kept w0 w" "keys_kept w0 w" "\<exists>qs. queue_log w = queue_log w0 @ qs"
    "\<exists>obs. objects w = objects w0 @ obs"
    by (simp_all add: only_grows_def)
  ultimately show ?thesis unfolding rows_kept_def keys_kept_def by blast
qed

text \<open>
  C2: A client that submitted a task and was answered 200 can rely on it, whatever overlapped with
  the request and whatever has happened since: the body was decoded and passed the checks, the task
  is stored as it was validated, the queue has taken it, and its key is recorded.
\<close>

theorem accepted_interleaved:
  assumes "begun w0" "moves E D S (w0, []) ms (w, ts)" "t \<in> set ts" "th_task t = Request rq trace_id reads"
    and "th_rest t = Done (Replied (h, resp, cs, line))" "submission rq body" "rs_status resp = 200"
  shows "\<exists>r req i full u ctx. decode_stream decode_request empty_request body = (r, True)
    \<and> passes (default_priority r) \<and> (\<exists>tp. req = set_trace tp (default_priority r))
    \<and> marshal_request req = Some full
    \<and> row_core (accepted_row E ctx u i req full) \<in> row_core ` set (events w)
    \<and> submitted i req \<in> set (queue_log w) \<and> key_row w (request_key req) \<noteq> None"
proof -
  have "route (hr_method rq) (hr_path rq) = RouteTo EpCreate" "hr_body rq = body"
    using assms(6) by (simp_all add: submission_def route_tasks)
  then have "task_accepted E body w"
    using ended_told [OF assms(1-3,5)] assms(4,7) by (simp add: told_def promised_def endpoint_promise_def)
  then show ?thesis unfolding task_accepted_def .
qed

text \<open>
  C7: The same for the admin routes that queue a task again: a retry, a requeue or a retry from the
  dead letter queue that was answered 200 means that the task is stored and that the queue has taken
  it, whatever overlapped.
\<close>

theorem requeued_interleaved:
  assumes "begun w0" "moves E D S (w0, []) ms (w, ts)" "t \<in> set ts" "th_task t = Request rq trace_id reads"
    and "th_rest t = Done (Replied (h, resp, cs, line))" "rs_status resp = 200"
    and "route (hr_method rq) (hr_path rq) = RouteTo ep" "ep \<in> {EpRetry i, EpRequeue i, EpDLQRetry i}"
  shows "i \<in> ev_id ` set (events w)
    \<and> (\<exists>p at. EnqueueCall i p None \<in> set (queue_log w) \<or> ScheduleCall i p at None \<in> set (queue_log w))"
proof -
  have "queued i w"
    using ended_told [OF assms(1-3,5)] assms(4,6-8) by (auto simp: told_def promised_def endpoint_promise_def)
  then show ?thesis by (auto simp: queued_def stored_def)
qed

text \<open>
  C6: A task run that ended without an error has left the next step its task declares: stored under
  the task's root with the declared type, payload and priority, and taken by the queue, whatever
  else ran at the same time, another run of the same task included.
\<close>

theorem next_step_interleaved:
  assumes "begun w0" "moves E D S (w0, []) ms (w, ts)" "t \<in> set ts" "th_task t = RunTask i"
    and "th_rest t = Done (RanTask None)"
  shows "\<exists>e. ev_id e = i \<and> row_core e \<in> row_core ` set (events w)
    \<and> (\<forall>nxt. declared_next (task_of e) = Some nxt \<longrightarrow> (\<exists>j full u. marshal_request nxt = Some full
        \<and> row_core (child_row E u j (task_of e) nxt full) \<in> row_core ` set (events w)
        \<and> submitted j nxt \<in> set (queue_log w)))"
proof -
  have "ran_on E i w" using ended_told [OF assms(1-3,5)] assms(4) by (simp add: told_def)
  then show ?thesis unfolding ran_on_def next_there_def by (fastforce split: option.splits)
qed

section \<open>A thread that nobody disturbs\<close>

text \<open>The turns of one thread of the pool, as far as they go and to the end.\<close>

lemma turns_reach:
  assumes "reaches p v p' v'" "ts ! i = t" "i < length ts" "th_rest t = p" "v = w\<lparr> req_log := th_log t \<rparr>"
  shows "\<exists>n. moves E D S (w, ts) (replicate n (Turn i))
    (v'\<lparr> req_log := req_log w \<rparr>, ts[i := t\<lparr> th_rest := p', th_log := req_log v' \<rparr>])"
  using assms
proof (induction arbitrary: w ts t rule: reaches.induct)
  case (here p s)
  have "t\<lparr> th_rest := p, th_log := req_log s \<rparr> = t" using here.prems by simp
  then show ?case using here.prems by (intro exI [of _ 0]) (auto intro: moves.no_move)
next
  case (ahead k s g p' s')
  define t1 where "t1 = t\<lparr> th_rest := k s, th_log := req_log (g s) \<rparr>"
  define w1 where "w1 = (g s)\<lparr> req_log := req_log w \<rparr>"
  have "turn (w, ts) i (w1, ts[i := t1])"
    using ahead.prems by (intro turn.turn) (auto simp: finished_def take_turn_def Let_def t1_def w1_def)
  moreover have "\<exists>n. moves E D S (w1, ts[i := t1]) (replicate n (Turn i))
      (s'\<lparr> req_log := req_log w1 \<rparr>, (ts[i := t1])[i := t1\<lparr> th_rest := p', th_log := req_log s' \<rparr>])"
    by (rule ahead.IH) (use ahead.prems(2) in \<open>simp_all add: t1_def w1_def\<close>)
  then obtain n where "moves E D S (w1, ts[i := t1]) (replicate n (Turn i))
      (s'\<lparr> req_log := req_log w \<rparr>, ts[i := t\<lparr> th_rest := p', th_log := req_log s' \<rparr>])"
    by (auto simp: t1_def w1_def)
  ultimately have "moves E D S (w, ts) (replicate (Suc n) (Turn i))
      (s'\<lparr> req_log := req_log w \<rparr>, ts[i := t\<lparr> th_rest := p', th_log := req_log s' \<rparr>])"
    by (auto intro: moves.take)
  then show ?case by blast
qed

lemma undisturbed:
  assumes "ts ! i = t" "i < length ts" "th_log t = l" "th_rest t = p"
  shows "\<exists>n t'. moves E D S (w, ts) (replicate n (Turn i))
      ((final (exec p) (w\<lparr> req_log := l \<rparr>))\<lparr> req_log := req_log w \<rparr>, ts[i := t'])
    \<and> th_task t' = th_task t \<and> th_rest t' = Done (value_of (exec p) (w\<lparr> req_log := l \<rparr>))
    \<and> th_log t' = req_log (final (exec p) (w\<lparr> req_log := l \<rparr>))"
  using turns_reach [OF reaches_end assms(1,2,4), of "w\<lparr> req_log := l \<rparr>" w E D S] assms(3) by fastforce

lemma exec_thread: "step E D S w a w' \<Longrightarrow> final (exec (thread_of E D S a)) w = w'"
proof (erule step_cases)
  fix i task f
  assume w': "w' = final (f task) (final (GetTask E i) w)" and a: "a = RunTask i" and read: "value_of (GetTask E i) w = Inr task"
    and f: "mux E S (storage_ready D) (wt_type task) = Some f"
  obtain p where p: "mux_thread E S (storage_ready D) (wt_type task) = Some p" "\<forall>task. exec (p task) = f task"
    using exec_mux [OF f] by blast
  show ?thesis
    using p by (simp add: a w' read exec_rules)
qed (simp_all add: exec_rules)

lemma thread_run:
  fixes w w' :: "'x world_scheme"
  assumes "step E D S w a w'" "req_log w = empty_log"
  shows "\<exists>n t. moves E D S (w, ts) (Arrive a # replicate n (Turn (length ts))) (w'\<lparr> req_log := empty_log \<rparr>, ts @ [t])
    \<and> th_task t = a \<and> th_rest t = Done (value_of (exec (thread_of E D S a)) w) \<and> th_log t = req_log w'"
proof -
  define t0 :: "(action, 'x world_scheme, ended) thread" where
    "t0 = \<lparr> th_task = a, th_rest = thread_of E D S a, th_log = empty_log \<rparr>"
  have w: "w\<lparr> req_log := empty_log \<rparr> = w" using assms(2) by simp
  obtain n t where n: "moves E D S (w, ts @ [t0]) (replicate n (Turn (length ts)))
      ((final (exec (thread_of E D S a)) w)\<lparr> req_log := req_log w \<rparr>, (ts @ [t0])[length ts := t])"
    "th_task t = a" "th_rest t = Done (value_of (exec (thread_of E D S a)) w)"
    "th_log t = req_log (final (exec (thread_of E D S a)) w)"
    using undisturbed [of "ts @ [t0]" "length ts" t0 empty_log "thread_of E D S a" E D S w] w by (auto simp: t0_def)
  then show ?thesis
    using assms(2) by (intro exI [of _ n] exI [of _ t]) (auto simp: exec_thread [OF assms(1)] t0_def intro: moves.arrive)
qed

text \<open>What it ends in.\<close>

lemma thread_value:
  "value_of (exec (thread_of E D S (Request rq trace_id reads))) w = Replied (value_of (handle_request E D rq trace_id reads) w)"
  "value_of (GetTask E i) w = Inr task \<Longrightarrow> mux E S (storage_ready D) (wt_type task) = Some f \<Longrightarrow>
    value_of (exec (thread_of E D S (RunTask i))) w = RanTask (value_of (f task) (final (GetTask E i) w))"
  by (simp add: exec_rules) (fastforce dest: exec_mux simp: exec_rules)

text \<open>
  C8: A handler that nobody disturbs does what \<open>step\<close> says: when an action arrives and its thread
  takes all its turns in a row, from a state with no log context open, the pool is left in the
  state of \<open>step\<close>, the thread has ended with the log context of \<open>step\<close>, and a request has its reply.
\<close>

theorem thread_is_handler:
  fixes w w' :: "'x world_scheme"
  assumes "step E D S w a w'" "req_log w = empty_log"
  shows "\<exists>n t. moves E D S (w, ts) (Arrive a # replicate n (Turn (length ts))) (w'\<lparr> req_log := empty_log \<rparr>, ts @ [t])
    \<and> th_task t = a \<and> finished t \<and> th_log t = req_log w'
    \<and> (\<forall>rq trace_id reads. a = Request rq trace_id reads \<longrightarrow>
        th_rest t = Done (Replied (value_of (handle_request E D rq trace_id reads) w)))"
proof -
  obtain n t where "moves E D S (w, ts) (Arrive a # replicate n (Turn (length ts))) (w'\<lparr> req_log := empty_log \<rparr>, ts @ [t])"
    "th_task t = a" "th_rest t = Done (value_of (exec (thread_of E D S a)) w)" "th_log t = req_log w'"
    using thread_run [OF assms] by blast
  then show ?thesis by (intro exI [of _ n] exI [of _ t]) (auto simp: finished_def thread_value(1) simp del: thread_of.simps)
qed

section \<open>Duplicates\<close>

lemma create_check_late:
  fixes w :: "'x world_scheme"
  assumes "db_ok w" "key_row w (request_key req) = Some k" "\<forall>t. key_active (db_now E t) k"
  obtains a where "value_of (create_check E ctx req) w = Inl a" "rs_status a \<noteq> 200"
    "rs_status a = 409 \<longrightarrow> a = \<lparr> rs_status = 409, rs_content_type = ''application/json'',
      rs_body = jprint (duplicate_json (ik_event_id k)) \<rparr>"
proof -
  have "(\<exists>e. value_of (Isprocessed E (request_key req)) u = Inl e)
      \<or> value_of (Isprocessed E (request_key req)) u = Inr (True, ik_event_id k)"
    if "db_ok u" "key_row u (request_key req) = Some k" for u :: "'x world_scheme"
  proof (cases "answers E u")
    case True
    then show ?thesis using active_value [OF that(1)] that(2) assms(3) by simp
  next
    case False
    then show ?thesis
      by (auto simp: Isprocessed_def GetIdempotencyKey_def value_query answers_def ErrNoRows_def split: option.split)
  qed
  from this [of "final (with_log ctx (\<lambda>l. l\<lparr> lc_task_type := tr_type req, lc_priority := tr_priority req \<rparr>))
      (final (AddEvent E ctx ''passed_all_validation_checks'' ''success'' None) w)"]
  show thesis
    using assms(1,2)
    by (intro that [of "projl (value_of (create_check E ctx req) w)"])
      (auto simp: create_check_def check_start(2,3) [OF refl] simp del: final_with_log)
qed

definition late_answer :: "idempotency_key \<Rightarrow> http_response \<Rightarrow> bool" where
  "late_answer k a \<longleftrightarrow> rs_status a \<noteq> 200
    \<and> (rs_status a = 409 \<longrightarrow> a = \<lparr> rs_status = 409, rs_content_type = ''application/json'',
        rs_body = jprint (duplicate_json (ik_event_id k)) \<rparr>)"

lemma late_reject: "code \<in> {400, 500} \<Longrightarrow> lasts K \<Longrightarrow> safely (\<lambda>a w. late_answer k a) (atomic (reject E ctx stp code err)) K"
  by (rule atomic_know [OF clean_anyway]) (auto simp: late_answer_def intro: clean_rules lasting_facts)

lemma late_create:
  assumes "\<forall>t. key_active (db_now E t) k" "decode_stream decode_request empty_request body = (r, True)"
    and "request_key (default_priority r) = key"
  shows "safely (\<lambda>a w. late_answer k a) (HandleCreateTask_thread E ctx body) (\<lambda>w. key_row w key = Some k)"
proof -
  have K: "lasts (\<lambda>w. key_row w key = Some k)" by (rule lasting_facts)
  let ?c = "create_check E ctx (default_priority r)"
  have "safely (\<lambda>a w. late_answer k a) (create_stored_thread E ctx (default_priority r)) (\<lambda>w. key_row w key = Some k)"
    unfolding create_stored_thread_def
  proof (rule then_know [where L = "\<lambda>q w. \<exists>a. q = Inl a \<and> late_answer k a"])
    show "\<exists>a. value_of ?c w = Inl a \<and> late_answer k a" if "platform_ok w" "key_row w key = Some k" for w
      using create_check_late [of w "default_priority r" k E ctx] that assms(1,3)
      unfolding platform_ok_def late_answer_def by blast
    fix q :: "http_response + string"
    show "safely (\<lambda>a w. late_answer k a) (case q of Inl a \<Rightarrow> Done a
        | Inr key' \<Rightarrow> create_persist_thread E ctx (default_priority r) key')
        (\<lambda>w. key_row w key = Some k \<and> (\<exists>a. q = Inl a \<and> late_answer k a))"
    proof (cases "\<exists>a. q = Inl a \<and> late_answer k a")
      case False
      then show ?thesis by (intro safe_never) simp
    qed (auto intro: K)
  qed (auto intro: K clean_anyway clean_rules)
  then show ?thesis
    unfolding HandleCreateTask_thread_def create_validated_thread_def Let_def
    by (intro safe_prod safe_if then_clean clean_rules K late_reject safe_option) (simp_all add: assms(2))
qed


lemma late_dispatch:
  assumes "\<forall>t. key_active (db_now E t) k" "submission rq body" "decode_stream decode_request empty_request body = (r, True)"
    and "request_key (default_priority r) = key"
  shows "safely (\<lambda>a w. late_answer k a) (dispatch_thread E D rq ctx) (\<lambda>w. key_row w key = Some k)"
proof -
  have route: "route (hr_method rq) (hr_path rq) = RouteTo EpCreate" "hr_body rq = body"
    using assms(2) by (simp_all add: submission_def route_tasks)
  show ?thesis
    unfolding dispatch_thread_def route routed.case serve_thread_def endpoint.case answer_thread_def
    by (rule safe_andThen [where R = "\<lambda>r w. late_answer k (response_of r)"],
        rule safe_andThen [OF late_create [OF assms(1,3,4)]])
      (auto intro: safe_Done lasting_facts simp: response_of_def)
qed

lemma late_logger:
  assumes "\<And>c. safely (\<lambda>r w. P (fst r)) (inner c) K" "lasts K"
  shows "safely (\<lambda>r w. P (fst r)) (RequestLogger_thread E rq inner ctx) K"
  unfolding RequestLogger_thread_def Let_def
  by (intro then_clean clean_rules assms(2) safe_if safe_andThen [OF assms(1)] safe_Done lasting_facts) (auto split: prod.split)

lemma late_request:
  assumes "\<forall>t. key_active (db_now E t) k" "submission rq body" "decode_stream decode_request empty_request body = (r, True)"
    and "request_key (default_priority r) = key"
  shows "safely (\<lambda>r w. late_answer k (fst (snd r))) (request_thread E D rq trace_id reads) (\<lambda>w. key_row w key = Some k)"
  unfolding request_thread_def
  by (rule safe_andThen [OF late_logger [where P = "late_answer k"]])
    (intro safe_andThen [OF late_dispatch [OF assms]] safe_Done lasting_facts | simp)+

text \<open>What is promised of the threads that arrive once the key is there.\<close>

definition late_told :: "nat \<Rightarrow> string \<Rightarrow> idempotency_key \<Rightarrow> nat \<Rightarrow> action \<Rightarrow> ended \<Rightarrow> 'x world_scheme \<Rightarrow> bool" where
  "late_told n key k j a e w \<longleftrightarrow> n \<le> j \<longrightarrow> (case a of
      Request rq trace_id reads \<Rightarrow> (case e of
          Replied (h, resp, cs, line) \<Rightarrow> (\<exists>r. submission rq (hr_body rq)
            \<and> decode_stream decode_request empty_request (hr_body rq) = (r, True) \<and> request_key (default_priority r) = key)
            \<longrightarrow> late_answer k resp
        | _ \<Rightarrow> True)
    | _ \<Rightarrow> True)"

lemma late_thread:
  assumes "\<forall>t. key_active (db_now E t) k"
  shows "safely (late_told n key k j a) (thread_of E D S a) (\<lambda>w. key_row w key = Some k)"
proof (cases "\<exists>rq trace_id reads r. a = Request rq trace_id reads \<and> submission rq (hr_body rq)
    \<and> decode_stream decode_request empty_request (hr_body rq) = (r, True) \<and> request_key (default_priority r) = key")
  case True
  then obtain rq trace_id reads r where a: "a = Request rq trace_id reads" "submission rq (hr_body rq)"
    "decode_stream decode_request empty_request (hr_body rq) = (r, True)" "request_key (default_priority r) = key" by blast
  show ?thesis
    unfolding a(1) thread_of.simps
    by (rule safe_andThen [OF late_request [OF assms a(2-4)]], intro safe_Done lasting_facts)
      (auto simp: late_told_def split: prod.split)
next
  case False
  have "safely (late_told n key k j a) (thread_of E D S a) (\<lambda>w. True)"
    by (rule safe_mono [OF thread_safe]) (use False in \<open>auto simp: late_told_def split: action.split ended.split prod.split\<close>)
  then show ?thesis by (rule safe_weaken) (auto intro: lasting_facts)
qed

text \<open>
  C4: Once a key is recorded, no submission with that key that arrives later is accepted as long as
  the key lasts, whatever overlaps with it and whatever fails: it is never answered with 200, and an
  answer 409 names the task the key belongs to.
\<close>

theorem duplicates_interleaved:
  assumes "begun w0" "moves E D S (w0, []) ms (w1, ts1)"
    and "key_row w1 (request_key (default_priority r)) = Some k" "\<forall>u. key_active (db_now E u) k"
    and "moves E D S (w1, ts1) ms' (w2, ts2)" "length ts1 \<le> j" "j < length ts2"
    and "th_task (ts2 ! j) = Request rq trace_id reads" "th_rest (ts2 ! j) = Done (Replied (h, resp, cs, line))"
    and "submission rq body" "decode_stream decode_request empty_request body = (r, True)"
  shows "rs_status resp \<noteq> 200 \<and> (rs_status resp = 409 \<longrightarrow>
    resp = \<lparr> rs_status = 409, rs_content_type = ''application/json'', rs_body = jprint (duplicate_json (ik_event_id k)) \<rparr>)"
proof -
  define key where "key = request_key (default_priority r)"
  have told: "shared.all_safe (tells_all E) (w1, ts1)" by (rule moves_safe(1) [OF assms(1,2)])
  have early: "shared.all_safe (late_told (length ts1) key k) (w1, ts1)"
    by (rule shared.all_safe_mono [OF told]) (simp add: late_told_def)
  have "shared.all_safe (late_told (length ts1) key k) (w2, ts2)"
    using moves_kept [OF assms(5) early lasts_key(1) _ order.refl late_thread [OF assms(4)]] assms(3)
    by (simp add: key_def)
  from shared.promise_kept [OF this assms(7,9)] show ?thesis
    using assms(6,8,10,11) by (auto simp: late_told_def key_def late_answer_def submission_def)
qed

end
