(* ===== verification/Interleaved_Life.thy ===== *)
theory Interleaved_Life
  imports Interleaved_Properties
begin

text \<open>
  The life of a task when handlers overlap: every single turn of a thread is at most one move of the
  abstract machine of Lifecycle, by the party of its action. One move is new: the submission
  handler marks a task failed when the queue refused it, and by then somebody else may have moved it.
\<close>

section \<open>The moves of a turn\<close>

definition turn_life :: "action \<Rightarrow> tasks \<Rightarrow> tasks \<Rightarrow> bool" where
  "turn_life a m m' \<longleftrightarrow> life (party_of a) m m'
    \<or> (\<exists>i. party_of a = Client \<and> life (Pool i ''failed'') m m')"

definition call_life :: "action \<Rightarrow> ('x world_scheme \<Rightarrow> 'x world_scheme) \<Rightarrow> bool" where
  "call_life a g \<longleftrightarrow> (\<forall>w. turn_life a (tasks_of w) (tasks_of (g w)))"

abbreviation lives :: "action \<Rightarrow> ('x world_scheme, 'r) prog \<Rightarrow> bool" where
  "lives a \<equiv> every_call (call_life a)"

named_theorems life_calls \<open>accesses that are a move of the machine\<close>

lemma call_does: "does (party_of a) m \<Longrightarrow> call_life a (final m)"
  by (simp add: does_def call_life_def turn_life_def)

lemma call_frame: "frames events m \<Longrightarrow> call_life a (final m)"
  by (rule call_does) (rule does_frame)

lemma call_save [life_calls]:
  assumes "party_of a = Client \<or> party_of a = Worker"
  shows "call_life a (final (SaveProcessedEvent E i ty pl st tr pr pa sch :: ('x world_scheme, unit result) state))"
  unfolding call_life_def turn_life_def
proof (intro allI disjI1)
  fix w :: "'x world_scheme"
  define save :: "('x world_scheme, unit result) state" where "save = SaveProcessedEvent E i ty pl st tr pr pa sch"
  from save_adds [OF save_def, of w]
  show "life (party_of a) (tasks_of w) (tasks_of (final save w))"
    using assms by (elim disjE conjE) (simp_all add: life.stay life.submit)
qed

lemma call_failed [life_calls]: "party_of a = Client \<Longrightarrow> call_life a (final (RepoUpdateEventStatus E i ''failed''))"
  using does_status [of i "''failed''" E] by (auto simp: call_life_def turn_life_def does_def)

lemma call_reset [life_calls]: "party_of a = Client \<Longrightarrow> call_life a (final (AdminResetTaskForRetry E i))"
  by (rule call_does) (simp add: does_reset)

lemma result_tasks:
  fixes w :: "'x world_scheme"
  shows "tasks_of (final (RepoUpdateEventResult E i r) w) = tasks_of w"
proof -
  have "result_written i (events w) (events (final (RepoUpdateEventResult E i r) w))"
    using writes_result_save unfolding writes_result_def by blast
  then consider "events (final (RepoUpdateEventResult E i r) w) = events w"
    | now q where "events (final (RepoUpdateEventResult E i r) w) = update_rows (has_id i) (result_row now (Some q)) (events w)"
    unfolding result_written_def by blast
  then show ?thesis
  proof cases
    case 1
    then show ?thesis by (rule tasks_of_events)
  next
    case (2 now q)
    have "ev_id (result_row now (Some q) e) = ev_id e" "ev_status (result_row now (Some q) e) = ev_status e" for e
      by (simp_all add: result_row_def stamp_def)
    then show ?thesis
      by (auto simp: fun_eq_iff tasks_of_def lookup_def find_row_update 2 option.map_comp comp_def intro!: map_option_cong)
  qed
qed

lemma call_result [life_calls]: "call_life a (final (RepoUpdateEventResult E i r))"
  by (simp add: call_life_def turn_life_def result_tasks life.stay)

text \<open>Everything else leaves the tasks alone.\<close>

lemma still_calls [life_calls]:
  "call_life a (final next_tick)" "call_life a (final (time_now E))" "call_life a (final (with_log ctx f))"
  "call_life a (final (AddEvent E ctx stp st oe))" "call_life a (final (RespondWithError ctx code err))"
  "call_life a (final (RespondWithJSON code j))" "call_life a (final (reject E ctx stp code err))"
  "call_life a (final (GetEventByID E i))" "call_life a (final (CheckAndRecordToDB E k i md))"
  "call_life a (final (RemoveFromDLQ E i))" "call_life a (final (GetQueueDepths E))" "call_life a (final (GetDLQItems E))"
  "call_life a (final (Schedule E i p at))" "call_life a (final (Upload E key ct body))" "call_life a (final (Download E key))"
  "call_life a (final (CountEventsFiltered E fl))" "call_life a (final (ListEventsFiltered E fl off lim))"
  "call_life a (final (GetRecentProcessedCount E))" "call_life a (final State_Monad.get)"
  by (intro call_frame frame reject_frame)+

lemma still_parts [life_calls]:
  "call_life a (final (execute_in_past E t))" "call_life a (final (still_due E t))" "call_life a (final (HealthStats E))"
  "call_life a (final (create_check E ctx req))" "call_life a (final (enqueue_or_schedule E i p ex))"
  "call_life a (final (enqueue_answer E ctx i p))" "call_life a (final (file_result E ctx storage i key))"
  "call_life a (final (GetStatusCounts E))" "call_life a (final (GetTask E i))"
  "call_life a (final (State_Monad.update (\<lambda>w. w\<lparr> req_log := l \<rparr>)))"
  unfolding execute_in_past_def still_due_def HealthStats_def create_check_def reject_def enqueue_or_schedule_def
    enqueue_answer_def file_result_def GetStatusCounts_def GetTask_def
  by (intro call_frame frame; simp add: frames_def)+

lemma still_fetch [life_calls]:
  "call_life a (final (scrape_page E S url))" "call_life a (final (fetch_image S url))"
  "call_life a (final (parentFileResultKey E i))"
  by (intro call_frame fetch_frames; simp)+

lemma still_answers [life_calls]:
  "call_life a (final m) \<Longrightarrow> call_life a (final (answer m))"
  "call_life a (final (HandleGetTask E ctx i))" "call_life a (final (HandleGetTaskChildren E ctx i))"
  "call_life a (final (HandleGetTaskRetries E ctx i))" "call_life a (final (HandleRemoveDLQTask E ctx i))"
  "call_life a (final (HandleQueueDepth E ctx))" "call_life a (final (HandleWorkerHealth E))"
  by (simp add: answer_def call_life_def) (intro call_frame reading_frames)+

lemma call_cancel [life_calls]: "party_of a = Client \<Longrightarrow> call_life a (final (HandleCancelTask E ctx i))"
  by (rule call_does) (simp add: does_requests)

section \<open>Every thread\<close>

lemma found_lives: "lives a (found_tasks_thread E is)"
  by (induction "is") (auto intro!: call_rules life_calls)

lemma create_lives: "party_of a = Client \<Longrightarrow> lives a (HandleCreateTask_thread E ctx body)"
  unfolding HandleCreateTask_thread_def create_validated_thread_def create_stored_thread_def create_persist_thread_def
    create_enqueue_thread_def Let_def
  by (intro call_rules life_calls; simp)

lemma serve_lives:
  assumes "party_of a = Client"
  shows "lives a (serve_thread E D rq ep ctx)"
  unfolding serve_thread_def answer_thread_def HandleGetTaskResult_thread_def HandleDashboardStats_thread_def
    HandleListTasks_thread_def AdminListEvents_thread_def HandleRetryTask_thread_def reset_and_enqueue_thread_def
    HandleListDLQ_thread_def HandleRetryDLQTask_thread_def HandleRequeueTask_thread_def Let_def
  by (cases ep) (simp only: endpoint.case; intro call_rules life_calls create_lives found_lives assms)+

lemma request_lives: "party_of a = Client \<Longrightarrow> lives a (request_thread E D rq trace_id reads)"
  unfolding request_thread_def RequestLogger_thread_def dispatch_thread_def Let_def
  by (intro call_rules life_calls; cases "route (hr_method rq) (hr_path rq)"; simp add: call_rules serve_lives)

lemma handler_lives:
  "lives a (ScrapeURL_thread E S storage task)" "lives a (GenerateReport_thread E storage task)"
  "lives a (ResizeImage_thread E S storage task)"
  unfolding ScrapeURL_thread_def GenerateReport_thread_def report_from_thread_def ResizeImage_thread_def store_file_thread_def Let_def
  by (intro call_rules life_calls)+

lemma mux_lives:
  assumes "mux_thread E S storage ty = Some f" "party_of a = Worker"
  shows "lives a (f task)"
proof -
  obtain h where h: "f = Wrap_thread E h" "h \<in> {ResizeImage_thread E S storage, ScrapeURL_thread E S storage, GenerateReport_thread E storage}"
    using assms(1) by (auto simp: mux_thread_def task_threads_def split: if_splits)
  then have "lives a (h task)" using handler_lives by auto
  then show ?thesis
    unfolding h(1) Wrap_thread_def create_next_thread_def by (intro call_rules life_calls) (simp_all add: assms(2))
qed

lemma thread_lives: "lives a (thread_of E D S a)"
proof (cases a)
  case (Request rq trace_id reads)
  then show ?thesis by (simp, intro call_rules request_lives) simp
next
  case (RunTask i)
  have run: "lives a (case mux_thread E S (storage_ready D) (wt_type task) of None \<Rightarrow> Done NotRun
      | Some f \<Rightarrow> andThen (f task) (\<lambda>e. Done (RanTask e)))" for task
    using mux_lives [where a = a, of E S "storage_ready D" "wt_type task" _ task]
    by (auto intro!: call_rules simp: RunTask split: option.split)
  show ?thesis
    unfolding RunTask thread_of.simps
    by (rule every_Then, rule life_calls, rule every_cases(2), rule every_Done) (rule run [unfolded RunTask])
next
  case (SetStatus i st)
  then show ?thesis
    by (simp, intro call_rules call_does) (simp add: UpdateStatus_def does_status)
next
  case (Attempt i st n err)
  have "frames events (RecordAttempt E i st n err :: ('a world_scheme, unit result) state)"
    unfolding RecordAttempt_def LogDeliveryStatus_def by (intro frame statement_frames(8)) simp_all
  then show ?thesis unfolding Attempt thread_of.simps by (intro every_Then every_Done call_frame)
qed


section \<open>Every run of the pool\<close>

lemma turn_moves:
  assumes "turn c i c'" "lives (th_task (snd c ! i)) (th_rest (snd c ! i))"
  shows "turn_life (th_task (snd c ! i)) (tasks_of (fst c)) (tasks_of (fst c'))"
    "lives (th_task (snd c ! i)) (th_rest (snd c' ! i))" "th_task (snd c' ! i) = th_task (snd c ! i)"
    "\<forall>j. j \<noteq> i \<longrightarrow> snd c' ! j = snd c ! j" "length (snd c') = length (snd c)" "i < length (snd c)"
proof -
  obtain w ts w' t where c: "c = (w, ts)" "c' = (w', ts[i := t])" "i < length ts" "\<not> finished (ts ! i)"
      "take_turn w (ts ! i) = (w', t)"
    using assms(1) by (auto elim: turn.cases)
  obtain g k where gk: "th_rest (ts ! i) = Call g k" using c(4) by (cases "th_rest (ts ! i)") (auto simp: finished_def)
  have same: "tasks_of (v\<lparr> req_log := l \<rparr>) = tasks_of v" for v :: "'a world_scheme" and l by (rule tasks_of_events) simp
  have g: "turn_life (th_task (ts ! i)) (tasks_of v) (tasks_of (g v))" for v
    using assms(2) gk by (simp add: c(1) call_life_def)
  show "turn_life (th_task (snd c ! i)) (tasks_of (fst c)) (tasks_of (fst c'))"
    using c(5) gk g [of "w\<lparr> req_log := th_log (ts ! i) \<rparr>"] by (auto simp: c(1,2) take_turn_def Let_def same)
  show "lives (th_task (snd c ! i)) (th_rest (snd c' ! i))" "th_task (snd c' ! i) = th_task (snd c ! i)"
    using c(3,5) gk assms(2) by (auto simp: c(1,2) take_turn_def Let_def)
  show "\<forall>j. j \<noteq> i \<longrightarrow> snd c' ! j = snd c ! j" "length (snd c') = length (snd c)" "i < length (snd c)"
    using c(3) by (simp_all add: c(1,2))
qed

text \<open>The actions whose threads had a turn, in order.\<close>

fun turns_of :: "('k, 'x, 'r) pool \<Rightarrow> move list \<Rightarrow> 'k list" where
  "turns_of c [] = []"
| "turns_of c (Arrive a # ms) = turns_of c ms"
| "turns_of c (Turn i # ms) = th_task (snd c ! i) # turns_of c ms"

inductive turns_life :: "action list \<Rightarrow> tasks \<Rightarrow> tasks \<Rightarrow> bool" where
  no_turn: "turns_life [] m m"
| one_turn: "turn_life a m m' \<Longrightarrow> turns_life as m' m'' \<Longrightarrow> turns_life (a # as) m m''"

definition all_live :: "(action, 'x, ended) pool \<Rightarrow> bool" where
  "all_live c \<longleftrightarrow> (\<forall>t\<in>set (snd c). lives (th_task t) (th_rest t))"

lemma turn_live:
  assumes "turn c i c'" "all_live c"
  shows "all_live c'"
proof -
  have i: "lives (th_task (snd c ! i)) (th_rest (snd c ! i))"
    using assms by (auto simp: all_live_def elim: turn.cases)
  note m = turn_moves [OF assms(1) i]
  have "lives (th_task (snd c' ! j)) (th_rest (snd c' ! j))" if "j < length (snd c')" for j
    using that assms(2) m by (cases "j = i") (auto simp: all_live_def)
  then show ?thesis by (auto simp: all_live_def in_set_conv_nth)
qed

lemma moves_tasks: "moves E D S c ms c' \<Longrightarrow> j < length (snd c) \<Longrightarrow>
    j < length (snd c') \<and> th_task (snd c' ! j) = th_task (snd c ! j)"
proof (induction rule: moves.induct)
  case (arrive w ts a ms c)
  then show ?case by (simp add: nth_append)
next
  case (take c i c' ms c'')
  have "length (snd c') = length (snd c)" "th_task (snd c' ! j) = th_task (snd c ! j)"
    using take.hyps(1) by (auto simp: take_turn_def Let_def nth_list_update split: prog.splits elim!: turn.cases)
  then show ?case using take.IH take.prems by simp
qed simp

lemma moves_life:
  "moves E D S c ms c' \<Longrightarrow> all_live c \<Longrightarrow> turns_life (turns_of c' ms) (tasks_of (fst c)) (tasks_of (fst c'))"
proof (induction rule: moves.induct)
  case (no_move c)
  then show ?case by (simp add: turns_life.no_turn)
next
  case (arrive w ts a ms c)
  have "all_live (w, ts @ [\<lparr> th_task = a, th_rest = thread_of E D S a, th_log = empty_log \<rparr>])"
    using arrive.prems by (auto simp: all_live_def thread_lives)
  then show ?case using arrive.IH by simp
next
  case (take c i c' ms c'')
  have i: "lives (th_task (snd c ! i)) (th_rest (snd c ! i))"
    using take.hyps(1) take.prems by (auto simp: all_live_def elim: turn.cases)
  note m = turn_moves [OF take.hyps(1) i]
  have "th_task (snd c'' ! i) = th_task (snd c ! i)" using moves_tasks [OF take.hyps(2), of i] m(3,5,6) by simp
  then show ?case using m(1) take.IH [OF turn_live [OF take.hyps(1) take.prems]] by (simp add: turns_life.one_turn)
qed

text \<open>
  C3: With handlers overlapping in any way the platform still refines the life of a task: each turn of
  a thread is at most one move of the abstract machine, by the party of its action, or, in a request,
  the marking of one task as failed (a submission does so when the queue refused it).
\<close>

theorem interleaved_refines_life:
  assumes "moves E D S (w0, []) ms (w, ts)"
  shows "turns_life (turns_of (w, ts) ms) (tasks_of w0) (tasks_of w)"
  using moves_life [OF assms] by (simp add: all_live_def)

end
