(* ===== verification/Interleaved_Types.thy ===== *)
theory Interleaved_Types
  imports Interleaved_Properties
begin

text \<open>
  The types of stored rows when handlers overlap: no turn of any thread writes a row the worker
  pool could not read.
\<close>

section \<open>Turns that keep the rows well-typed\<close>

interpretation typed: interference tasks_typed "\<lambda>w w'. True"
  by unfold_locales (simp_all add: tasks_typed_def)

abbreviation typing :: "('x world_scheme, 'r) prog \<Rightarrow> bool" where
  "typing \<equiv> every_call (\<lambda>g. \<forall>w. tasks_typed w \<longrightarrow> tasks_typed (g w))"

lemma typing_keeps: "keeps tasks_typed m \<Longrightarrow> \<forall>w. tasks_typed w \<longrightarrow> tasks_typed (final m w)"
  by (simp add: keeps_def)

lemma typing_Then: "keeps tasks_typed m \<Longrightarrow> (\<And>a. typing (k a)) \<Longrightarrow> typing (Then m k)"
  by (rule every_Then) (rule typing_keeps)

lemma typing_atomic: "keeps tasks_typed m \<Longrightarrow> typing (atomic m)"
  by (rule every_atomic) (rule typing_keeps)

lemmas typing_rules = typing_Then typing_atomic every_Done every_andThen every_cases

lemma typing_statements:
  "keeps tasks_typed (RepoUpdateEventStatus E i st)" "keeps tasks_typed (AdminResetTaskForRetry E i)"
  "keeps tasks_typed (RepoUpdateEventResult E i r)"
  by (intro typed_frame frame)+

lemma typing_still:
  "keeps tasks_typed next_tick" "keeps tasks_typed (time_now E)" "keeps tasks_typed (with_log ctx f)"
  "keeps tasks_typed (AddEvent E ctx stp st oe)" "keeps tasks_typed (RespondWithError ctx code err)"
  "keeps tasks_typed (RespondWithJSON code j)" "keeps tasks_typed (GetEventByID E i)"
  "keeps tasks_typed (CheckAndRecordToDB E k i md)" "keeps tasks_typed (RemoveFromDLQ E i)"
  "keeps tasks_typed (GetQueueDepths E)" "keeps tasks_typed (GetDLQItems E)" "keeps tasks_typed (Schedule E i p at)"
  "keeps tasks_typed (Upload E key ct body)" "keeps tasks_typed (Download E key)"
  "keeps tasks_typed (CountEventsFiltered E fl)" "keeps tasks_typed (ListEventsFiltered E fl off lim)"
  "keeps tasks_typed (GetRecentProcessedCount E)" "keeps tasks_typed State_Monad.get"
  by (intro typed_quiet frame)+

lemma typing_parts:
  "keeps tasks_typed (execute_in_past E t)" "keeps tasks_typed (still_due E t)" "keeps tasks_typed (HealthStats E)"
  "keeps tasks_typed (create_check E ctx req)" "keeps tasks_typed (enqueue_or_schedule E i p ex)"
  "keeps tasks_typed (enqueue_answer E ctx i p)" "keeps tasks_typed (file_result E ctx storage i key)"
  "keeps tasks_typed (GetStatusCounts E)" "keeps tasks_typed (GetTask E i)"
  "keeps tasks_typed (State_Monad.update (\<lambda>w. w\<lparr> req_log := l \<rparr>))"
  unfolding execute_in_past_def still_due_def HealthStats_def create_check_def reject_def enqueue_or_schedule_def
    enqueue_answer_def file_result_def GetStatusCounts_def GetTask_def
  by (intro typed_quiet frame; simp add: frames_def)+

lemma typing_fetch:
  "keeps tasks_typed (scrape_page E S url)"
  "keeps tasks_typed (fetch_image S url :: ('x world_scheme, bytes result) state)"
  "keeps tasks_typed (parentFileResultKey E i :: ('x world_scheme, string result) state)"
  by (rule typed_quiet, rule fetch_frames, simp)+

lemma typing_answers:
  "keeps tasks_typed m \<Longrightarrow> keeps tasks_typed (answer m)"
  "keeps tasks_typed (HandleGetTask E ctx i)" "keeps tasks_typed (HandleGetTaskChildren E ctx i)"
  "keeps tasks_typed (HandleGetTaskRetries E ctx i)" "keeps tasks_typed (HandleRemoveDLQTask E ctx i)"
  "keeps tasks_typed (HandleQueueDepth E ctx)" "keeps tasks_typed (HandleWorkerHealth E)"
  "keeps tasks_typed (HandleCancelTask E ctx i)"
proof -
  show "keeps tasks_typed (HandleCancelTask E ctx i)"
    unfolding HandleCancelTask_def
    by (intro keeps_bind keeps_if keeps_case_sum keeps_reject typed_frame frame; intro cores_events frame)
qed (simp add: answer_def keeps_def, (intro typed_quiet reading_frames)+)

lemmas typing_calls = typing_statements typing_still typing_parts typing_fetch typing_answers keeps_reject

section \<open>Every thread\<close>

lemma typing_create:
  assumes "\<And>t. new_uuid E t \<noteq> []"
  shows "typing (HandleCreateTask_thread E ctx body :: ('x world_scheme, http_response) prog)"
proof -
  have persist: "typing (create_persist_thread E ctx q0 key :: ('x world_scheme, http_response) prog)"
    if q0: "passes q0" "fits max_depth q0" "valid_times q0" for q0 key
  proof -
    have save: "keeps tasks_typed (SaveProcessedEvent E (new_uuid E t) (tr_type (set_trace tp q0)) full st tr
        (tr_priority (set_trace tp q0)) [] sch :: ('x world_scheme, unit result) state)"
      if "marshal_request (set_trace tp q0) = Some full" for t tp full st tr sch
      by (rule save_typed [where r = "set_trace tp q0"]) (use assms q0 fits_ok [of "set_trace tp q0", OF _ _ that] that in simp_all)
    show ?thesis
      unfolding create_persist_thread_def create_enqueue_thread_def Let_def
      by (intro typing_Then typing_atomic every_option every_cases(2) save typing_calls)
  qed
  have "typing (create_validated_thread E ctx r :: ('x world_scheme, http_response) prog)" if r: "fits max_depth r" "valid_times r" for r
  proof -
    have "typing (create_stored_thread E ctx (default_priority r) :: ('x world_scheme, http_response) prog)"
      if "passes (default_priority r)"
      unfolding create_stored_thread_def using that r by (intro typing_rules typing_calls persist) simp_all
    then show ?thesis
      unfolding create_validated_thread_def Let_def
      by (intro every_if typing_Then typing_atomic typing_calls every_option every_prod) (auto simp: passes_def)
  qed
  then show ?thesis
    using decoded_request unfolding HandleCreateTask_thread_def
    by (intro every_prod every_if typing_atomic typing_calls) auto
qed

lemma typing_found: "typing (found_tasks_thread E is)"
  by (induction "is") (auto intro!: typing_rules typing_calls)

lemma typing_serve:
  assumes "\<And>t. new_uuid E t \<noteq> []"
  shows "typing (serve_thread E D rq ep ctx)"
  unfolding serve_thread_def answer_thread_def HandleGetTaskResult_thread_def HandleDashboardStats_thread_def
    HandleListTasks_thread_def AdminListEvents_thread_def HandleRetryTask_thread_def reset_and_enqueue_thread_def
    HandleListDLQ_thread_def HandleRetryDLQTask_thread_def HandleRequeueTask_thread_def Let_def
  by (cases ep) (simp only: endpoint.case; intro typing_rules typing_calls typing_create typing_found assms)+

lemma typing_request:
  assumes "\<And>t. new_uuid E t \<noteq> []"
  shows "typing (request_thread E D rq trace_id reads)"
proof -
  have "typing (dispatch_thread E D rq ctx)" for ctx
    unfolding dispatch_thread_def
    by (cases "route (hr_method rq) (hr_path rq)") (simp_all add: every_andThen typing_serve assms)
  then show ?thesis
    unfolding request_thread_def RequestLogger_thread_def Let_def by (intro typing_rules typing_calls)
qed

lemma typing_handlers:
  "typing (ScrapeURL_thread E S storage task)" "typing (GenerateReport_thread E storage task)"
  "typing (ResizeImage_thread E S storage task)"
  unfolding ScrapeURL_thread_def GenerateReport_thread_def report_from_thread_def ResizeImage_thread_def store_file_thread_def Let_def
  by (intro typing_rules typing_calls)+

lemma typing_mux:
  assumes "\<And>t. new_uuid E t \<noteq> []" "chain_root task \<noteq> []" "mux_thread E S storage ty = Some f"
  shows "typing (f task :: ('x world_scheme, goerr option) prog)"
proof -
  have save: "keeps tasks_typed (SaveProcessedEvent E (new_uuid E t) (tr_type nxt) full st tr (tr_priority nxt)
      (chain_root task) sch :: ('x world_scheme, unit result) state)"
    if "unmarshal decode_request empty_request s = (nxt, True)" "marshal_request nxt = Some full" for t full st tr sch nxt s
    using decoded_next [OF that(1)] assms fits_ok [OF _ _ that(2)] that(2) by (intro save_typed [where r = nxt]) simp_all
  obtain h :: "'x handler_thread" where h: "f = Wrap_thread E h" "h \<in> {ResizeImage_thread E S storage, ScrapeURL_thread E S storage, GenerateReport_thread E storage}"
    using assms(3) by (auto simp: mux_thread_def task_threads_def split: if_splits)
  then have "typing (h task)" using typing_handlers by auto
  then show ?thesis
    unfolding h(1) Wrap_thread_def create_next_thread_def
    by (intro every_andThen every_cases(3) every_if every_prod every_Done typing_Then every_option every_cases(2) save typing_calls)
      (auto intro: save)
qed


text \<open>The pool reads a well-typed row, whose chain has a root.\<close>

lemma typed_read:
  assumes "tasks_typed w" "value_of (GetTask E i) w = Inr task"
  shows "chain_root task \<noteq> []"
proof -
  obtain e where e: "value_of (GetEventByID E i) w = Inr e" "task = task_of e"
    using assms(2) by (auto simp: GetTask_def split: sum.splits)
  then have "lookup w i = Some e" using get_event_Inr by blast
  then have "well_typed e" using assms(1) find_row_SomeD by (fastforce simp: tasks_typed_def lookup_def)
  then show ?thesis using typed_root e(2) by simp
qed

abbreviation typed_thread :: "('x world_scheme, 'r) prog \<Rightarrow> bool" where
  "typed_thread p \<equiv> safe tasks_typed (\<lambda>w w'. True) (\<lambda>r w. True) p (\<lambda>w. True)"

lemma thread_typed:
  assumes "\<And>t. new_uuid E t \<noteq> []"
  shows "typed_thread (thread_of E D S a :: ('x world_scheme, ended) prog)"
proof (cases a)
  case (Request rq trace_id reads)
  then show ?thesis by (simp, intro every_safe every_andThen typing_request assms every_Done)
next
  case (RunTask i)
  let ?run = "\<lambda>r. case r of Inl e \<Rightarrow> Done NotRun
    | Inr task \<Rightarrow> (case mux_thread E S (storage_ready D) (wt_type task) of None \<Rightarrow> Done NotRun
        | Some f \<Rightarrow> andThen (f task) (\<lambda>e. Done (RanTask e)))"
  have run: "typed_thread (?run (value_of (GetTask E i) w))" if "tasks_typed w" for w :: "'x world_scheme"
  proof (cases "value_of (GetTask E i) w")
    case (Inr task)
    have "chain_root task \<noteq> []" by (rule typed_read [OF that Inr])
    then have "typing (?run (Inr task))"
      using typing_mux [OF assms] by (auto intro!: every_andThen split: option.split)
    then show ?thesis unfolding Inr by (rule every_safe)
  qed (simp add: stable_def)
  have get: "keeps tasks_typed (GetTask E i :: ('x world_scheme, worker_task result) state)" by (rule typing_calls)
  show ?thesis
    unfolding RunTask thread_of.simps Then_def safe.simps
    using run keepsD [OF get] by (auto simp: stable_def intro: exI [of _ "\<lambda>w. True"])
next
  case (SetStatus i st)
  then show ?thesis
    unfolding SetStatus thread_of.simps UpdateStatus_def
    by (intro every_safe typing_Then typing_calls every_Done)
next
  case (Attempt i st n err)
  have "keeps tasks_typed (RecordAttempt E i st n err :: ('x world_scheme, unit result) state)"
    unfolding RecordAttempt_def LogDeliveryStatus_def by (intro typed_quiet frame statement_frames(8)) simp_all
  then show ?thesis unfolding Attempt thread_of.simps by (intro every_safe typing_Then every_Done)
qed

lemma moves_typed:
  assumes "moves E D S c ms c'" "\<And>t. new_uuid E t \<noteq> []" "typed.all_safe (\<lambda>j a r w. True) c"
  shows "typed.all_safe (\<lambda>j a r w. True) c'"
  using assms(1,3)
proof (induction rule: moves.induct)
  case (arrive w ts a ms c)
  have "typed.all_safe (\<lambda>j a r w. True) (w, ts @ [\<lparr> th_task = a, th_rest = thread_of E D S a, th_log = empty_log \<rparr>])"
    by (rule typed.all_safe_start [OF arrive.prems thread_typed]) (simp_all add: assms(2))
  then show ?case by (rule arrive.IH)
next
  case (take c i c' ms c'')
  then show ?case using typed.turn_safe by blast
qed

text \<open>
  C5: However handlers overlap, every row the platform writes is well-typed: started with an empty
  table, at every moment a stored row holds the encoding of a request; the worker gets that
  request's type, payload, priority and next step from it and a root for its chain; and the payload
  of a task nobody chained is accepted by the validator for its type, which is not generate_report.
\<close>

theorem interleaved_typed:
  assumes "moves E D S (w0, []) ms (w, ts)" "events w0 = []" "\<And>t. new_uuid E t \<noteq> []" "e \<in> set (events w)"
  shows "\<exists>r. request_ok r \<and> marshal_request r = Some (ev_payload e)
    \<and> wt_type (task_of e) = tr_type r \<and> wt_payload (task_of e) = normal_raw (tr_payload r)
    \<and> wt_priority (task_of e) = tr_priority r \<and> declared_next (task_of e) = next_step r
    \<and> chain_root (task_of e) \<noteq> []
    \<and> (ev_parentid e = None \<longrightarrow> Validate (wt_type (task_of e)) (wt_payload (task_of e)) = None
        \<and> wt_type (task_of e) \<noteq> ''generate_report'')"
proof (rule typed_reads)
  have "typed.all_safe (\<lambda>j a r w. True) (w0, [])" by (rule typed.all_safe_none) (simp add: tasks_typed_def assms(2))
  then have "typed.all_safe (\<lambda>j a r w. True) (w, ts)" by (rule moves_typed [OF assms(1,3)])
  then show "well_typed e" using assms(4) by (simp add: typed.all_safe_def tasks_typed_def)
qed

end
