(* ===== verification/Admin_Properties.thy ===== *)
theory Admin_Properties
  imports Admin_Handler Store_Properties "HOL-Library.Multiset"
begin

text \<open>
  What the admin handlers promise: retries, the dead letter queue, requeueing, the dashboard and
  the pages of the listing.
\<close>

section \<open>Retries\<close>

text \<open>
  C31: A retry answered with 200 was of a failed or cancelled task: the task is pending afterwards,
  every other task has the status it had, and the queue was called exactly once, with the
  priority the task was stored with (medium when it has none).
\<close>

theorem retry_requeues:
  fixes w :: "'x world_scheme" and ctx :: ctx
  assumes "db_ok w" "rs_status (value_of (HandleRetryTask E ctx i) w) = 200"
  defines "w' \<equiv> final (HandleRetryTask E ctx i) w"
  shows "retryable w i \<and> task_status w' i = Some ''pending'' \<and> (\<forall>j. j \<noteq> i \<longrightarrow> task_status w' j = task_status w j)
    \<and> queue_log w' = queue_log w @ [EnqueueCall i (retry_priority w i) None]"
proof -
  have "i \<noteq> []" using assms(2) by (auto simp: HandleRetryTask_def)
  then have r: "answers E w" "retryable w i"
    "w' = log_call (EnqueueCall i (retry_priority w i) None) (next_state (final (AdminResetTaskForRetry E i) w))"
    using reset_and_enqueue_200 [OF assms(1), of E ctx i] assms(2) by (simp_all add: w'_def HandleRetryTask_def)
  have st: "task_status w' j = task_status (final (AdminResetTaskForRetry E i) w) j" for j
    by (simp add: r(3) task_status_def)
  have "queue_log (final (AdminResetTaskForRetry E i) w) = queue_log w"
    by (rule framesD) (rule save_frames(5); simp)
  then show ?thesis
    using r(2) reset_lookup [OF assms(1) r(1), of i]
    by (auto simp: st task_status_def r(3) retryable_def reset_row_def stamp_def split: bind_splits)
qed

lemma retry_failed0: "retryable world_failed ''e1''" "retry_priority world_failed ''e1'' = ''high''"
  by (simp_all add: retryable_def retry_priority_def event0_def text_or_empty_def)

lemma retry0: "rs_status (value_of (HandleRetryTask calm ctx ''e1'') world_failed) = 200"
  by (simp add: HandleRetryTask_def reset_and_enqueue_def reset_value retry_failed0 enqueue_answer_up)

theorem retry_requeues_witness:
  "task_status (final (HandleRetryTask calm ctx0 ''e1'') world_failed) ''e1'' = Some ''pending''
    \<and> queue_log (final (HandleRetryTask calm ctx0 ''e1'') world_failed) = [EnqueueCall ''e1'' ''high'' None]"
  using retry_requeues [OF worlds_ok(2) retry0, of ctx0] by (simp add: retry_failed0)

text \<open>
  C32: Retrying a dead task drops it when it cannot be reset: the entry is removed from the dead
  letter queue first, so for a task that is there but not failed or cancelled the answer is 409,
  nothing is enqueued, and the entry is gone.
\<close>

theorem dlq_retry_drops:
  fixes w :: "'x world_scheme" and ctx :: ctx
  assumes "db_up E" "queue_up E" "db_ok w" "i \<noteq> []" "\<not> retryable w i"
  shows "rs_status (value_of (HandleRetryDLQTask E ctx i) w) = 409
    \<and> queue_log (final (HandleRetryDLQTask E ctx i) w) = queue_log w @ [RemoveFromDLQCall i None]"
proof -
  define w1 where "w1 = final (RemoveFromDLQ E i) w"
  have w1: "w1 = log_call (RemoveFromDLQCall i None) (next_state w)"
    using assms(2) by (simp add: w1_def queue_up_def)
  have "db_ok w1" "\<not> retryable w1 i"
    using assms(3,5) by (simp_all add: w1 retryable_def task_status_def)
  note reset_and_enqueue_refused [OF this(1) _ this(2), of E ctx]
  then show ?thesis
    using assms(1,2,4) by (simp add: HandleRetryDLQTask_def w1_def [symmetric] queue_up_def) (simp add: w1)
qed

theorem dlq_retry_drops_witness:
  "rs_status (value_of (HandleRetryDLQTask calm ctx0 ''e1'') world1) = 409
    \<and> queue_log (final (HandleRetryDLQTask calm ctx0 ''e1'') world1) = [RemoveFromDLQCall ''e1'' None]"
  using dlq_retry_drops [OF calm_up(1,2) worlds_ok(1), of "''e1''" ctx0]
  by (simp add: retryable_def)

text \<open>
  C33: A retry that cannot reach the queue leaves an orphan, and requeueing takes it up: with the
  queue down the retry of a failed task answers 500 and leaves it pending; a second retry is then
  refused with 409, and once the queue is back a requeue of the task, when the stored
  request has no execute_at, answers 200 and calls the queue for it.
\<close>

theorem orphan_recovered:
  fixes w :: "'x world_scheme" and ctx :: ctx and i :: string
  assumes "db_up E" "queue_down E" "db_up E'" "queue_up E'" "db_ok w" "i \<noteq> []" "retryable w i"
    and "\<And>e. lookup w i = Some e \<Longrightarrow> rq_execute_at (fst (unmarshal decode_requeue empty_requeue (ev_payload e))) = None"
  defines "w1 \<equiv> final (HandleRetryTask E ctx i) w"
  shows "rs_status (value_of (HandleRetryTask E ctx i) w) = 500 \<and> task_status w1 i = Some ''pending''
    \<and> rs_status (value_of (HandleRetryTask E' ctx i) w1) = 409
    \<and> rs_status (value_of (HandleRequeueTask E' ctx i) w1) = 200
    \<and> (\<exists>p. queue_log (final (HandleRequeueTask E' ctx i) w1) = queue_log w1 @ [EnqueueCall i p None])"
proof -
  define w0 where "w0 = final (AdminResetTaskForRetry E i) w"
  obtain e where e: "lookup w i = Some e" using assms(7) by (auto simp: retryable_def task_status_Some)
  then have l0: "lookup w0 i = Some (reset_row (db_now E (tick w)) e)"
    using reset_lookup [OF assms(5), of E i i] assms(1,7) by (simp add: w0_def)
  have run: "value_of (HandleRetryTask E ctx i) w = value_of (enqueue_answer E ctx i (retry_priority w i)) w0"
    "w1 = final (enqueue_answer E ctx i (retry_priority w i)) w0"
    using reset_value [OF assms(5), of E i] assms(1,6,7)
    by (simp_all add: w1_def w0_def HandleRetryTask_def reset_and_enqueue_def)
  note down = enqueue_answer_down [OF assms(2), of ctx i "retry_priority w i" w0, folded run]
  have l1: "lookup w1 i = Some (reset_row (db_now E (tick w)) e)"
    using down(2) l0 by (simp add: tables_def lookup_def)
  then have st: "task_status w1 i = Some ''pending''"
    by (simp add: task_status_def reset_row_def stamp_def)
  have "db_ok w1" unfolding w1_def by (rule keepsD [OF ok_admin(6) assms(5)])
  moreover have "\<not> retryable w1 i" using st by (simp add: retryable_def)
  ultimately have again: "rs_status (value_of (HandleRetryTask E' ctx i) w1) = 409"
    using reset_and_enqueue_refused [of w1 E' i ctx] assms(3,6) by (simp add: HandleRetryTask_def)
  define r where "r = reset_row (db_now E (tick w)) e"
  define req where "req = fst (unmarshal decode_requeue empty_requeue (ev_payload r))"
  have r: "ev_status r = Some ''pending''" "rq_execute_at req = None"
    using assms(8) [OF e] by (simp_all add: req_def r_def reset_row_def stamp_def)
  have "value_of (GetEventByID E' i) w1 = Inr r"
    using l1 assms(3) by (simp add: get_event_value r_def)
  then have requeue: "value_of (HandleRequeueTask E' ctx i) w1 = value_of (enqueue_answer E' ctx i (requeue_priority req r)) (next_state w1)"
    "final (HandleRequeueTask E' ctx i) w1 = final (enqueue_answer E' ctx i (requeue_priority req r)) (next_state w1)"
    using r assms(6) by (simp_all add: HandleRequeueTask_def Let_def req_def still_due_def)
  show ?thesis
    unfolding requeue enqueue_answer_up [OF assms(4)] using down(1) st again run(1) by simp
qed

lemma failed_payload0: "lookup world_failed ''e1'' = Some e \<Longrightarrow>
    rq_execute_at (fst (unmarshal decode_requeue empty_requeue (ev_payload e))) = None"
proof -
  assume "lookup world_failed ''e1'' = Some e"
  then have "ev_payload e = payload0" by (auto simp: event0_def)
  moreover have "rq_execute_at (fst (unmarshal decode_requeue empty_requeue payload0)) = None" by code_simp
  ultimately show ?thesis by simp
qed

theorem orphan_recovered_witness:
  "rs_status (value_of (HandleRetryTask no_queue ctx0 ''e1'') world_failed) = 500
    \<and> rs_status (value_of (HandleRequeueTask calm ctx0 ''e1'') (final (HandleRetryTask no_queue ctx0 ''e1'') world_failed)) = 200"
  using orphan_recovered [OF calm_up(3,4,1,2) worlds_ok(2) _ retry_failed0(1) failed_payload0, of ctx0] by simp

section \<open>Requeueing\<close>

text \<open>
  A requeue answered with 200 was of a task that is stored and pending; it calls the queue
  exactly once, for that task and with the priority found in the stored request (or else in the
  row): scheduled when the stored execute_at is still ahead, directly otherwise. No table changes.
\<close>

theorem requeue_pending_only:
  fixes w :: "'x world_scheme" and ctx :: ctx
  assumes "rs_status (value_of (HandleRequeueTask E ctx i) w) = 200"
  defines "w' \<equiv> final (HandleRequeueTask E ctx i) w"
  shows "\<exists>e req. lookup w i = Some e \<and> ev_status e = Some ''pending''
    \<and> req = fst (unmarshal decode_requeue empty_requeue (ev_payload e))
    \<and> queue_log w' = queue_log w @ [case rq_execute_at req of
        None \<Rightarrow> EnqueueCall i (requeue_priority req e) None
      | Some at \<Rightarrow> if time_after at (clock E (Suc (tick w))) then ScheduleCall i (requeue_priority req e) at None
          else EnqueueCall i (requeue_priority req e) None]
    \<and> events w' = events w \<and> delivery_logs w' = delivery_logs w \<and> idempotency_keys w' = idempotency_keys w"
proof -
  have i: "i \<noteq> []" using assms(1) by (auto simp: HandleRequeueTask_def)
  obtain e where e: "value_of (GetEventByID E i) w = Inr e" "ev_status e = Some ''pending''"
    using assms(1) i by (cases "value_of (GetEventByID E i) w") (auto simp: HandleRequeueTask_def split: if_splits)
  define req where "req = fst (unmarshal decode_requeue empty_requeue (ev_payload e))"
  define p where "p = requeue_priority req e"
  define w1 where "w1 = final (still_due E (rq_execute_at req)) (next_state w)"
  define due where "due = value_of (still_due E (rq_execute_at req)) (next_state w)"
  have run: "value_of (HandleRequeueTask E ctx i) w = value_of (case due of
        Some at \<Rightarrow> do { r \<leftarrow> Schedule E i p at; (case r of Inl err \<Rightarrow> RespondWithError ctx 500 err
          | Inr _ \<Rightarrow> RespondWithJSON 200 (scheduled_json i p at)) }
      | None \<Rightarrow> enqueue_answer E ctx i p) w1"
    "w' = final (case due of
        Some at \<Rightarrow> do { r \<leftarrow> Schedule E i p at; (case r of Inl err \<Rightarrow> RespondWithError ctx 500 err
          | Inr _ \<Rightarrow> RespondWithJSON 200 (scheduled_json i p at)) }
      | None \<Rightarrow> enqueue_answer E ctx i p) w1"
    unfolding p_def req_def w'_def w1_def due_def using i e by (simp_all add: HandleRequeueTask_def Let_def)
  have due: "due = (case rq_execute_at req of None \<Rightarrow> None
      | Some at \<Rightarrow> if time_after at (clock E (Suc (tick w))) then Some at else None)"
    "tables w1 = tables w"
    by (auto simp: due_def w1_def still_due_def tables_def split: option.split)
  have "w' = log_call (case due of Some at \<Rightarrow> ScheduleCall i p at None | None \<Rightarrow> EnqueueCall i p None) (next_state w1)"
  proof (cases due)
    case None
    then show ?thesis using run assms(1) enqueue_answer_200(2) [of E ctx i p w1] by simp
  next
    case (Some at)
    then show ?thesis using run assms(1) by (cases "queue_fault E (tick w1)") auto
  qed
  moreover have "lookup w i = Some e" using get_event_Inr [OF e(1)] by simp
  ultimately show ?thesis
    using e(2) due unfolding p_def req_def
    by (intro exI [of _ e] exI [of _ req]) (auto simp: tables_def req_def split: option.splits)
qed

lemma requeue0: "rs_status (value_of (HandleRequeueTask calm ctx0 ''e1'') world1) = 200"
proof -
  have "rq_execute_at (fst (unmarshal decode_requeue empty_requeue payload0)) = None" by code_simp
  then show ?thesis
    by (simp add: HandleRequeueTask_def get_event_value Let_def still_due_def event0_def)
      (simp add: enqueue_answer_up)
qed

theorem requeue_pending_only_witness:
  "length (queue_log (final (HandleRequeueTask calm ctx0 ''e1'') world1)) = 1
    \<and> events (final (HandleRequeueTask calm ctx0 ''e1'') world1) = events world1"
  using requeue_pending_only [OF requeue0] by auto

section \<open>Pages\<close>

lemma length_by_creation_desc [simp]: "length (by_creation_desc ties es) = length es"
  by (simp add: by_creation_desc_def)

definition selected :: "env \<Rightarrow> list_events_params \<Rightarrow> 'x db_scheme \<Rightarrow> event list" where
  "selected E p w = by_creation_desc (tie_order E (Suc (Suc (tick w)))) (filter (matches E (filter_of p)) (events w))"

lemma list_events_value:
  fixes w :: "'x db_scheme"
  assumes "db_up E" "1 \<le> lp_page p" "1 \<le> lp_page_size p" "lp_page_size p \<le> 100"
    and "(lp_page p - 1) * lp_page_size p < 2 ^ 32"
  shows "value_of (AdminListEvents E p) w =
    (if (lp_page p - 1) * lp_page_size p < 2 ^ 31
     then Inr (take (nat (lp_page_size p)) (drop (nat ((lp_page p - 1) * lp_page_size p)) (selected E p w)),
       length (selected E p w))
     else Inl (ErrorString ''OFFSET must not be negative''))"
proof -
  have "sint (word_of_int (lp_page_size p) :: 32 word) = lp_page_size p"
    using assms(3,4) by (simp add: sint32 uint_word_of_int_eq take_bit_int_eq_self)
  moreover obtain x where x: "x = (lp_page p - 1) * lp_page_size p" "0 \<le> x" using assms(2,3) by simp
  ultimately show ?thesis
    using assms(1-4) x page_offset_sint [of "lp_page p" "lp_page_size p"] assms(5)
    unfolding x(1) [symmetric]
    by (simp add: AdminListEvents_def Let_def CountEventsFiltered_def ListEventsFiltered_def
        selected_def count_rows_def)
qed

text \<open>
  C34: A page of the listing is the slice of the matching tasks, newest first and those of one time
  in the order the query returns them, that its number and size say, as long as the product fits into 31 bits; from there up to 32 bits the offset the
  code computes is negative and the listing fails.
\<close>

theorem list_page_bounds:
  fixes w :: "'x db_scheme"
  assumes "db_up E" "1 \<le> lp_page p" "1 \<le> lp_page_size p" "lp_page_size p \<le> 100"
    and "(lp_page p - 1) * lp_page_size p < 2 ^ 32"
  shows "value_of (AdminListEvents E p) w =
    (if (lp_page p - 1) * lp_page_size p < 2 ^ 31
     then Inr (take (nat (lp_page_size p)) (drop (nat ((lp_page p - 1) * lp_page_size p)) (selected E p w)),
       length (selected E p w))
     else Inl (ErrorString ''OFFSET must not be negative''))"
  using assms by (rule list_events_value)

definition far_page :: list_events_params where
  "far_page = \<lparr> lp_status = [], lp_type = [], lp_priority = [], lp_search = [],
    lp_page = 21474838, lp_page_size = 100 \<rparr>"

theorem list_page_bounds_witness:
  "value_of (AdminListEvents calm far_page) world1 = Inl (ErrorString ''OFFSET must not be negative'')"
  using list_page_bounds [OF calm_up(1), of far_page world1] by (simp add: far_page_def)

lemma concat_pages: "concat (map (\<lambda>k. take s (drop (k * s) xs)) [0..<n]) = take (n * s) xs"
  by (induction n) (simp_all add: take_add add.commute [of s])

definition page_of :: "env \<Rightarrow> list_events_params \<Rightarrow> 'x db_scheme \<Rightarrow> nat \<Rightarrow> event list" where
  "page_of E p w k = (case value_of (AdminListEvents E (p\<lparr> lp_page := int k + 1 \<rparr>)) w of
     Inl _ \<Rightarrow> [] | Inr (es, n) \<Rightarrow> es)"

text \<open>The order of the rows that ORDER BY leaves open matters only where two of them have one time.\<close>

lemma by_creation_desc_times:
  assumes "distinct (map ev_created_at es)"
  shows "by_creation_desc ties es = by_creation_desc ties' es"
    and "sorted_wrt (\<lambda>a b. \<forall>t u. ev_created_at a = Some t \<longrightarrow> ev_created_at b = Some u \<longrightarrow> u < t)
      (by_creation_desc ties es)"
proof -
  define age where "age e = map_option uminus (ev_created_at e)" for e :: event
  have inj: "inj_on age (set es)"
    using assms by (auto simp: age_def inj_on_def distinct_map dest!: injD [OF option.inj_map [OF inj_uminus]])
  have by_age: "by_creation_desc ts es = sort_key age (sort_key (\<lambda>e. ts (ev_id e)) es)" for ts
    by (simp add: by_creation_desc_def age_def [abs_def])
  show "by_creation_desc ties es = by_creation_desc ties' es"
    unfolding by_age by (rule sort_key_inj_key_eq) (use inj in simp_all)
  have "sorted (map age (by_creation_desc ties es))" by (simp add: by_age)
  moreover have "distinct (map age (by_creation_desc ties es))"
    using assms inj by (simp add: by_age distinct_map)
  ultimately have "sorted_wrt (<) (map age (by_creation_desc ties es))" by (simp add: strict_sorted_iff)
  then show "sorted_wrt (\<lambda>a b. \<forall>t u. ev_created_at a = Some t \<longrightarrow> ev_created_at b = Some u \<longrightarrow> u < t)
      (by_creation_desc ties es)"
    unfolding sorted_wrt_map by (rule sorted_wrt_mono_rel [rotated]) (auto simp: age_def)
qed

lemma page_value:
  fixes w :: "'x db_scheme"
  assumes "db_up E" "1 \<le> lp_page_size p" "lp_page_size p \<le> 100"
    and "int k * lp_page_size p < 2 ^ 31"
  shows "page_of E p w k = take (nat (lp_page_size p)) (drop (k * nat (lp_page_size p)) (selected E p w))"
proof -
  have "selected E (p\<lparr> lp_page := int k + 1 \<rparr>) w = selected E p w" by (simp add: selected_def filter_of_def)
  then show ?thesis
    using list_events_value [OF assms(1), of "p\<lparr> lp_page := int k + 1 \<rparr>" w] assms(2-4)
    by (simp add: page_of_def nat_mult_distrib)
qed

text \<open>
  C35: The pages cover the listing, as long as no two matching tasks have one time of creation and
  the rows stay as they are: for fewer than 2^31 matching tasks, the pages from the first to the
  number that the handler reports as total_pages, each asked for at a time of its own, put one
  after the other are exactly the matching tasks, each once, newest first. ORDER BY names the time
  only, so nothing of this is promised for tasks of one time (\<open>pages_repeat\<close> below).
\<close>

theorem pages_cover:
  fixes w :: "'x db_scheme"
  assumes "db_up E" "1 \<le> lp_page_size p" "lp_page_size p \<le> 100" "length (selected E p w) < 2 ^ 31"
    and "distinct (map ev_created_at (filter (matches E (filter_of p)) (events w)))"
  shows "concat (map (\<lambda>k. page_of E p (w\<lparr> tick := t k \<rparr>) k)
        [0..<float_div_ceil (length (selected E p w)) (nat (lp_page_size p))]) = selected E p w
    \<and> mset (selected E p w) = mset (filter (matches E (filter_of p)) (events w))
    \<and> sorted_wrt (\<lambda>a b. \<forall>x y. ev_created_at a = Some x \<longrightarrow> ev_created_at b = Some y \<longrightarrow> y < x) (selected E p w)"
proof -
  define s where "s = nat (lp_page_size p)"
  define xs where "xs = selected E p w"
  define n where "n = float_div_ceil (length xs) s"
  have s: "0 < s" "s \<le> 100" "lp_page_size p = int s" using assms(2,3) by (simp_all add: s_def)
  have n: "n = (length xs + s - 1) div s"
    unfolding n_def using assms(4) s by (intro float_div_ceil_exact) (simp_all add: xs_def)
  have "page_of E p (w\<lparr> tick := t k \<rparr>) k = take s (drop (k * s) xs)" if "k < n" for k
  proof -
    have "Suc k * s \<le> length xs + s - 1"
      using that mult_le_mono1 [of "Suc k" n s] div_times_less_eq_dividend [of "length xs + s - 1" s]
      unfolding n by linarith
    then have "int k * int s < 2 ^ 31"
      using assms(4) s(1) unfolding xs_def [symmetric]
      by (simp add: of_nat_mult [symmetric] del: of_nat_mult)
    moreover have "selected E p (w\<lparr> tick := t k \<rparr>) = xs"
      unfolding selected_def xs_def by simp (rule by_creation_desc_times(1) [OF assms(5)])
    ultimately show ?thesis
      using page_value [OF assms(1-3), of k "w\<lparr> tick := t k \<rparr>"] by (simp add: s(3))
  qed
  then have "map (\<lambda>k. page_of E p (w\<lparr> tick := t k \<rparr>) k) [0..<n] = map (\<lambda>k. take s (drop (k * s) xs)) [0..<n]"
    by (intro map_cong) auto
  then have "concat (map (\<lambda>k. page_of E p (w\<lparr> tick := t k \<rparr>) k) [0..<n]) = take (n * s) xs"
    by (simp only: concat_pages)
  moreover have "length xs \<le> n * s"
    using s(1) div_mult_mod_eq [of "length xs + s - 1" s] mod_less_divisor [OF s(1), of "length xs + s - 1"]
    unfolding n by linarith
  moreover have "mset (selected E p w) = mset (filter (matches E (filter_of p)) (events w))"
    by (simp add: selected_def by_creation_desc_def)
  ultimately show ?thesis
    using by_creation_desc_times(2) [OF assms(5)] by (simp add: n_def s_def xs_def selected_def)
qed

theorem pages_cover_witness:
  "concat (map (\<lambda>k. page_of calm (far_page\<lparr> lp_page_size := 20 \<rparr>) (world1\<lparr> tick := 7 * k \<rparr>) k) [0..<float_div_ceil
      (length (selected calm (far_page\<lparr> lp_page_size := 20 \<rparr>) world1)) 20])
    = selected calm (far_page\<lparr> lp_page_size := 20 \<rparr>) world1"
proof -
  have "length (selected calm q world1) \<le> 1" for q
    by (simp add: selected_def world1_def le_SucI)
  then have "length (selected calm (far_page\<lparr> lp_page_size := 20 \<rparr>) world1) < 2 ^ 31"
    by (rule le_less_trans) simp
  from pages_cover [OF calm_up(1) _ _ this] show ?thesis by (simp add: world1_def)
qed

text \<open>
  Two tasks of one time and pages of one task: where the database returns them in another order
  for the second query, both pages show the same task, and the other one is on none.
\<close>

theorem pages_repeat:
  fixes w :: "'x db_scheme"
  assumes "db_up E" "events w = [a, b]" "ev_id a \<noteq> ev_id b" "ev_created_at a = ev_created_at b"
  shows "\<exists>ties. \<forall>p. matches E (filter_of p) a \<longrightarrow> matches E (filter_of p) b \<longrightarrow> lp_page_size p = 1 \<longrightarrow>
    page_of (E\<lparr> tie_order := ties \<rparr>) p (w\<lparr> tick := 0 \<rparr>) 0 = [a]
    \<and> page_of (E\<lparr> tie_order := ties \<rparr>) p (w\<lparr> tick := 2 \<rparr>) 1 = [a]"
proof (intro exI allI impI)
  fix p
  define E' where "E' = E\<lparr> tie_order := \<lambda>t i. if t = 2 then (if i = ev_id a then 0 else 1)
    else if i = ev_id a then 1 else 0 \<rparr>"
  assume p: "matches E (filter_of p) a" "matches E (filter_of p) b" "lp_page_size p = 1"
  have "ilike E' = ilike E" by (simp add: E'_def)
  then have E': "db_up E'" "matches E' = matches E"
    using assms(1) by (simp_all add: E'_def [THEN arg_cong, of db_fault] db_up_def answers_def matches_def [abs_def]
        cong: option.case_cong)
  have "selected E' p (w\<lparr> tick := 0 \<rparr>) = [a, b]" "selected E' p (w\<lparr> tick := 2 \<rparr>) = [b, a]"
    unfolding selected_def E'(2) using p assms(2-4) by (simp_all add: E'_def by_creation_desc_def)
  then show "page_of E' p (w\<lparr> tick := 0 \<rparr>) 0 = [a] \<and> page_of E' p (w\<lparr> tick := 2 \<rparr>) 1 = [a]"
    using page_value [OF E'(1), of p 0 "w\<lparr> tick := 0 \<rparr>"] page_value [OF E'(1), of p 1 "w\<lparr> tick := 2 \<rparr>"] p(3)
    by simp
qed

section \<open>The dashboard\<close>

lemma sum_status_counts:
  "sum_list (map (\<lambda>st. count_rows (\<lambda>e. ev_status e = st) es) (remdups (map ev_status es))) = length es"
proof -
  have "sum_list (map (\<lambda>st. count_rows (\<lambda>e. ev_status e = st) es) sts) = length (filter (\<lambda>e. ev_status e \<in> set sts) es)"
    if "distinct sts" for sts
    using that
  proof (induction sts)
    case (Cons st sts)
    have "length (filter (\<lambda>e. ev_status e \<in> set (st # sts)) es)
        = length (filter (\<lambda>e. ev_status e = st) es) + length (filter (\<lambda>e. ev_status e \<in> set sts) es)"
      using Cons.prems by (induction es) auto
    then show ?case using Cons by (simp add: count_rows_def)
  qed simp
  from this [of "remdups (map ev_status es)"] show ?thesis by simp
qed

lemma last_value_None: "last_value k kvs = None \<longleftrightarrow> k \<notin> fst ` set kvs"
  by (induction kvs rule: last_value.induct) (auto split: option.split)

lemma map_of_graph: "map_of (map (\<lambda>k. (k, f k)) ks) k = (if k \<in> set ks then Some (f k) else None)"
  by (induction ks) auto

lemma map_of_dedup: "map_of (dedup_keys kvs) k = last_value k kvs"
  using last_value_None [of k kvs] by (auto simp: dedup_keys_def map_of_graph image_iff)

lemma status_group_value:
  assumes "s \<noteq> ''unknown''" "Some s \<in> set sts"
  shows "last_value s (map (\<lambda>st. (case st of None \<Rightarrow> ''unknown'' | Some x \<Rightarrow> x, g st)) sts) = Some (g (Some s))"
  using assms(2)
proof (induction sts)
  case (Cons st sts)
  show ?case
  proof (cases "Some s \<in> set sts")
    case True
    then show ?thesis using Cons.IH by (simp add: split_def)
  next
    case False
    have "last_value s (map (\<lambda>st. (case st of None \<Rightarrow> ''unknown'' | Some x \<Rightarrow> x, g st)) sts) = None"
      using False assms(1) by (auto simp: last_value_None split: option.splits)
    then show ?thesis using Cons.prems False by auto
  qed
qed simp

text \<open>
  The dashboard counts what is stored: its total is the number of tasks, and for every status
  that occurs (other than the text unknown, which NULL is shown as) by_status holds the number of
  tasks with it.
\<close>

theorem dashboard_counts:
  fixes w :: "'x world_scheme" and ctx :: ctx
  assumes "rs_status (value_of (HandleDashboardStats E ctx) w) = 200"
  shows "\<exists>counts recent depths health.
      rs_body (value_of (HandleDashboardStats E ctx) w) = jprint (jmap
        [(''total_tasks'', jnat (length (events w))), (''by_status'', jmap (by_status counts)),
         (''processed_last_24h'', jnat recent), (''queue_depths'', depths_json depths), (''worker_health'', health)])
    \<and> recent = count_rows (recently_processed (db_now E (Suc (tick w)))) (events w)
    \<and> (\<forall>e\<in>set (events w). \<forall>s. ev_status e = Some s \<longrightarrow> s \<noteq> ''unknown'' \<longrightarrow>
        map_of (by_status counts) s = Some (jnat (count_rows (\<lambda>e. ev_status e = Some s) (events w))))"
proof -
  obtain counts where c: "value_of (GetEventStatusCounts E) w = Inr counts"
    using assms by (cases "value_of (GetEventStatusCounts E) w") (auto simp: HandleDashboardStats_def GetStatusCounts_def)
  then have counts: "counts = status_groups (events w)"
    unfolding GetEventStatusCounts_def by (auto dest!: value_query_Inr)
  have fin: "final (GetEventStatusCounts E) w = next_state w" by (simp add: GetEventStatusCounts_def)
  obtain recent where rc: "value_of (GetRecentProcessedCount E) (next_state w) = Inr recent"
    using assms c fin by (cases "value_of (GetRecentProcessedCount E) (next_state w)")
      (auto simp: HandleDashboardStats_def GetStatusCounts_def)
  then have recent: "recent = count_rows (recently_processed (db_now E (Suc (tick w)))) (events w)"
    unfolding GetRecentProcessedCount_def by (auto dest!: value_query_Inr)
  define w2 where "w2 = final (GetRecentProcessedCount E) (next_state w)"
  obtain depths where d: "value_of (GetQueueDepths E) w2 = Inr depths"
    using assms c fin rc by (cases "value_of (GetQueueDepths E) w2")
      (auto simp: HandleDashboardStats_def GetStatusCounts_def w2_def)
  have "total_count counts = length (events w)"
    using sum_status_counts [of "events w"] by (simp add: total_count_def counts status_groups_def comp_def)
  moreover have "map_of (by_status counts) s = Some (jnat (count_rows (\<lambda>e. ev_status e = Some s) (events w)))"
    if "e \<in> set (events w)" "ev_status e = Some s" "s \<noteq> ''unknown''" for e s
    using status_group_value [OF that(3), of "remdups (map ev_status (events w))"
        "\<lambda>st. jnat (count_rows (\<lambda>e. ev_status e = st) (events w))"] that(1,2)
    by (force simp: by_status_def map_of_dedup counts status_groups_def comp_def image_iff)
  ultimately show ?thesis
    using c fin rc d recent unfolding w2_def
    by (intro exI [of _ counts] exI [of _ recent] exI [of _ depths]
        exI [of _ "value_of (HealthStats E) (final (GetQueueDepths E) w2)"])
      (auto simp: HandleDashboardStats_def GetStatusCounts_def w2_def)
qed

lemma dashboard0: "rs_status (value_of (HandleDashboardStats calm ctx0) world1) = 200"
proof -
  have "value_of (GetQueueDepths calm) w = Inr []" for w :: world
    by (simp add: GetQueueDepths_def calm_def)
  then show ?thesis
    by (simp add: HandleDashboardStats_def GetStatusCounts_def GetEventStatusCounts_def GetRecentProcessedCount_def)
qed

theorem dashboard_counts_witness:
  "\<exists>counts. map_of (by_status counts) ''pending'' = Some (jnat (count_rows (\<lambda>e. ev_status e = Some ''pending'') [event0]))"
  using dashboard_counts [OF dashboard0] by (auto simp: world1_def) (auto simp: event0_def)

end
