(* ===== verification/Interleaved_Runs.thy ===== *)
theory Interleaved_Runs
  imports Interleaved_Life Interleaved_Types Admin_Properties
begin

text \<open>
  Runs of the pool on the concrete platform of Scenario: a task run, a submission, the same
  submission again, and a retry, each a thread of its own.
\<close>

section \<open>A run of the stored task\<close>

lemma begun_worlds: "begun world_chain" "begun world0" "begun world_failed"
  by (simp_all add: begun_def initial_def files_there_def results_def db_ok_def world_chain_def world_failed_def
      world0_def chain_event_def event0_def)

lemma quiet_worlds: "req_log world_chain = empty_log" "req_log world0 = empty_log" "req_log world_failed = empty_log"
  by (simp_all add: world_chain_def world_failed_def world0_def)

lemma chain_ended: "value_of (exec (thread_of calm D0 web0 (RunTask ''e1''))) world_chain = RanTask None"
proof -
  have runs: "mux calm web0 (storage_ready D0) (wt_type task_chain) = Some (Wrap calm (ScrapeURL calm web0 True))"
    by (simp add: D0_def scrape_mux)
  have "events (final (GetTask calm ''e1'') world_chain) = events world_chain"
    by (rule framesD) (simp add: GetTask_def frames_def)
  then have "lookup (final (GetTask calm ''e1'') world_chain) (new_uuid calm t) = None" for t
    using world_chain_free(1) [of t] by (simp add: lookup_def)
  then have "value_of (Wrap calm (ScrapeURL calm web0 True) task_chain) (final (GetTask calm ''e1'') world_chain) = None"
    by (rule chain_run)
  then show ?thesis using thread_value(2) [OF get_chain runs] by (simp del: thread_of.simps)
qed

lemma chain_moves:
  obtains n t where "moves calm D0 web0 (world_chain, []) (Arrive (RunTask ''e1'') # replicate n (Turn 0))
      (world_run\<lparr> req_log := empty_log \<rparr>, [t])" "th_task t = RunTask ''e1''" "th_rest t = Done (RanTask None)"
  using thread_run [OF run_step quiet_worlds(1), of "[]"] by (auto simp: chain_ended simp del: thread_of.simps)

text \<open>Two rows of one identifier are one row.\<close>

lemma same_core:
  assumes "db_ok w" "c \<in> row_core ` set (events w)" "c' \<in> row_core ` set (events w)" "fst c = fst c'"
  shows "c' = c"
proof -
  obtain e e' where "e \<in> set (events w)" "c = row_core e" "e' \<in> set (events w)" "c' = row_core e'" using assms(2,3) by blast
  moreover have "inj_on ev_id (set (events w))" using assms(1) by (simp add: db_ok_def distinct_map)
  ultimately show ?thesis using assms(4) by (auto simp: row_core_def dest: inj_onD)
qed

theorem interleaved_consistent_witness:
  "distinct (map ev_id (events world_run)) \<and> (\<exists>cs. map row_core (events world_run) = map row_core (events world_chain) @ cs)"
proof -
  obtain n t where "moves calm D0 web0 (world_chain, []) (Arrive (RunTask ''e1'') # replicate n (Turn 0))
      (world_run\<lparr> req_log := empty_log \<rparr>, [t])" using chain_moves by blast
  from interleaved_consistent [OF begun_worlds(1) this] show ?thesis by simp
qed

theorem next_step_interleaved_witness:
  "\<exists>e nxt j full u. ev_id e = ''e1'' \<and> row_core e \<in> row_core ` set (events world_run)
    \<and> marshal_request nxt = Some full
    \<and> row_core (child_row calm u j (task_of e) nxt full) \<in> row_core ` set (events world_run)
    \<and> submitted j nxt \<in> set (queue_log world_run)"
proof -
  obtain n t where t: "moves calm D0 web0 (world_chain, []) (Arrive (RunTask ''e1'') # replicate n (Turn 0))
      (world_run\<lparr> req_log := empty_log \<rparr>, [t])" "th_task t = RunTask ''e1''" "th_rest t = Done (RanTask None)"
    using chain_moves by blast
  obtain e where e: "ev_id e = ''e1''" "row_core e \<in> row_core ` set (events world_run)"
    "\<forall>nxt. declared_next (task_of e) = Some nxt \<longrightarrow> (\<exists>j full u. marshal_request nxt = Some full
        \<and> row_core (child_row calm u j (task_of e) nxt full) \<in> row_core ` set (events world_run)
        \<and> submitted j nxt \<in> set (queue_log world_run))"
    using next_step_interleaved [OF begun_worlds(1) t(1) _ t(2,3)] by auto
  have "row_core e = row_core chain_event"
  proof (rule same_core [of world_run, OF _ _ e(2)])
    show "db_ok world_run" "row_core chain_event \<in> row_core ` set (events world_run)"
      using moves_safe [OF begun_worlds(1) t(1)]
      by (auto simp: shared.all_safe_def platform_ok_def only_grows_def rows_kept_def db_ok_def world_chain_def
          simp flip: set_map)
  qed (simp add: e(1) row_core_def chain_event_def event0_def)
  then have "ev_payload e = chain_text" by (simp add: row_core_def chain_event_def)
  from declared_next_row [OF chain_req_ok this] have "declared_next (task_of e) = Some (normal_request report_req)"
    by (simp add: next_step_def chain_req_def report_req_def)
  then show ?thesis using e by blast
qed

theorem interleaved_refines_life_witness:
  "\<exists>n. turns_life (replicate n (RunTask ''e1'')) (tasks_of world_chain) (tasks_of world_run)"
proof -
  obtain n t where t: "moves calm D0 web0 (world_chain, []) (Arrive (RunTask ''e1'') # replicate n (Turn 0))
      (world_run\<lparr> req_log := empty_log \<rparr>, [t])" "th_task t = RunTask ''e1''"
    using chain_moves by blast
  have "turns_of (v, [t]) (replicate n (Turn 0)) = replicate n (th_task t)" for v
    by (induction n) auto
  moreover have "tasks_of (world_run\<lparr> req_log := empty_log \<rparr>) = tasks_of world_run" by (rule tasks_of_events) simp
  ultimately show ?thesis using interleaved_refines_life [OF t(1)] t(2) by auto
qed

section \<open>A submission\<close>

lemma post_step: "step calm D0 web0 world0 (Request post0 ''t1'' [52]) world_posted"
  unfolding world_posted_def by (rule step.request)

theorem thread_is_handler_witness:
  "\<exists>n t. moves calm D0 web0 (world0, []) (Arrive (Request post0 ''t1'' [52]) # replicate n (Turn 0))
      (world_posted\<lparr> req_log := empty_log \<rparr>, [t])
    \<and> th_rest t = Done (Replied (value_of (handle_request calm D0 post0 ''t1'' [52]) world0))"
  using thread_is_handler [OF post_step quiet_worlds(2), of "[]"] by auto

lemma request_moves:
  fixes w :: "'x world_scheme"
  assumes "req_log w = empty_log"
  obtains n t h cs line where "moves E D S (w, ts) (Arrive (Request rq tr reads) # replicate n (Turn (length ts)))
      ((final (handle_request E D rq tr reads) w)\<lparr> req_log := empty_log \<rparr>, ts @ [t])"
    "th_task t = Request rq tr reads" "th_rest t = Done (Replied (h, reply E D rq tr reads w, cs, line))"
proof -
  obtain n t where t: "moves E D S (w, ts) (Arrive (Request rq tr reads) # replicate n (Turn (length ts)))
      ((final (handle_request E D rq tr reads) w)\<lparr> req_log := empty_log \<rparr>, ts @ [t])"
    "th_task t = Request rq tr reads" "th_rest t = Done (Replied (value_of (handle_request E D rq tr reads) w))"
    using thread_run [OF step.request [of E D S w rq tr reads] assms, of ts] by (auto simp: thread_value(1) simp del: thread_of.simps)
  obtain h a cs line where "value_of (handle_request E D rq tr reads) w = (h, a, cs, line)"
    by (metis surj_pair)
  then show thesis using that t by (simp add: reply_def)
qed

lemma post_moves:
  obtains n t h cs line where "moves calm D0 web0 (world0, []) (Arrive (Request post0 ''t1'' [52]) # replicate n (Turn 0))
      (world_posted\<lparr> req_log := empty_log \<rparr>, [t])" "th_task t = Request post0 ''t1'' [52]"
    "th_rest t = Done (Replied (h, reply calm D0 post0 ''t1'' [52] world0, cs, line))"
  by (rule request_moves [OF quiet_worlds(2), where ts = "[]" and E = calm and D = D0 and S = web0 and rq = post0])
    (simp add: world_posted_def)

theorem accepted_interleaved_witness:
  "\<exists>r full u ctx i. row_core (accepted_row calm ctx u i r full) \<in> row_core ` set (events world_posted)
    \<and> submitted i r \<in> set (queue_log world_posted) \<and> key_row world_posted (request_key r) \<noteq> None"
proof -
  obtain n t h cs line where t: "moves calm D0 web0 (world0, []) (Arrive (Request post0 ''t1'' [52]) # replicate n (Turn 0))
      (world_posted\<lparr> req_log := empty_log \<rparr>, [t])" "th_task t = Request post0 ''t1'' [52]"
    "th_rest t = Done (Replied (h, reply calm D0 post0 ''t1'' [52] world0, cs, line))"
    by (rule post_moves)
  show ?thesis
    using accepted_interleaved [OF begun_worlds(2) t(1) _ t(2,3) post0 posted [THEN conjunct1]] by (fastforce simp: key_row_def)
qed

theorem interleaved_typed_witness:
  "\<exists>e r. events world_posted = [e] \<and> marshal_request r = Some (ev_payload e) \<and> wt_type (task_of e) = tr_type r"
proof -
  obtain e where e: "events world_posted = [e]" using posted by blast
  obtain n t h cs line where t: "moves calm D0 web0 (world0, []) (Arrive (Request post0 ''t1'' [52]) # replicate n (Turn 0))
      (world_posted\<lparr> req_log := empty_log \<rparr>, [t])" by (rule post_moves)
  have "new_uuid calm t \<noteq> []" for t by (simp add: calm_def)
  from interleaved_typed [OF t _ this, of e] show ?thesis using e by auto
qed

text \<open>The same submission again.\<close>

lemma key_posted:
  obtains k where "key_row world_posted (request_key req0) = Some k" "\<forall>u. key_active (db_now calm u) k"
proof -
  obtain ctx and w1 :: world where s: "tables w1 = tables world0"
    "reply calm D0 post0 ''t1'' [52] world0 = value_of (HandleCreateTask calm ctx body0) w1"
    "tables world_posted = tables (final (HandleCreateTask calm ctx body0) w1)"
    unfolding world_posted_def by (rule submission_served [OF post0, of world0 calm D0 "''t1''" "[52]"])
  have free: "key_row w1 (request_key req0) = None" using same_tables(2) [OF s(1)] by simp
  have status: "rs_status (value_of (HandleCreateTask calm ctx body0) w1) = 200" using posted s(2) by simp
  obtain i t md where "key_row (final (HandleCreateTask calm ctx body0) w1) (request_key req0)
      = Some (recorded_key calm t (request_key req0) i md)"
    by (rule accepted_key [OF calm_up(1) submittable0 free status])
  moreover have "key_active (db_now calm u) (recorded_key calm t (request_key req0) i md)" for u
    using calm_lasting(1) by (simp add: lasting_def key_active_def recorded_key_def)
  ultimately show thesis using that same_tables(2) [OF s(3)] by metis
qed

theorem duplicates_interleaved_witness:
  "rs_status (reply calm D0 post0 ''t2'' [52] (world_posted\<lparr> req_log := empty_log \<rparr>)) \<noteq> 200"
proof -
  define w1 where "w1 = world_posted\<lparr> req_log := empty_log \<rparr>"
  obtain n t h cs line where t: "moves calm D0 web0 (world0, []) (Arrive (Request post0 ''t1'' [52]) # replicate n (Turn 0)) (w1, [t])"
    unfolding w1_def by (rule post_moves)
  obtain k where k: "key_row w1 (request_key (default_priority (TaskRequest ''scrape_url'' payload0 [] None None []))) = Some k"
      "\<forall>u. key_active (db_now calm u) k"
    using key_posted by (auto simp: w1_def default_req0 key_row_def)
  obtain n' t' h cs line where t': "moves calm D0 web0 (w1, [t]) (Arrive (Request post0 ''t2'' [52]) # replicate n' (Turn 1))
      ((final (handle_request calm D0 post0 ''t2'' [52]) w1)\<lparr> req_log := empty_log \<rparr>, [t, t'])"
    "th_task t' = Request post0 ''t2'' [52]" "th_rest t' = Done (Replied (h, reply calm D0 post0 ''t2'' [52] w1, cs, line))"
    by (rule request_moves [where w = w1 and ts = "[t]" and E = calm and D = D0 and S = web0 and rq = post0]) (auto simp: w1_def)
  from duplicates_interleaved [OF begun_worlds(2) t k t'(1) _ _ _ _ post0 decode_body0, of 1] t'(2,3)
  show ?thesis by (simp add: w1_def)
qed

section \<open>A retry\<close>

definition retry_post :: http_request where
  "retry_post = \<lparr> hr_method = ''POST'', hr_path = ''/api/admin/tasks/e1/retry'', hr_query = (\<lambda>k. []), hr_body = [],
    hr_remote = ''10.1.2.3:5000'' \<rparr>"

lemma route_retry: "route ''POST'' ''/api/admin/tasks/e1/retry'' = RouteTo (EpRetry ''e1'')"
  by code_simp

lemma retry_replied: "rs_status (reply calm D0 retry_post ''t1'' [] world_failed) = 200"
proof -
  have "route (hr_method retry_post) (hr_path retry_post) = RouteTo (EpRetry ''e1'')" by (simp add: retry_post_def route_retry)
  then obtain ctx and w1 :: world where s: "tables w1 = tables world_failed"
    "reply calm D0 retry_post ''t1'' [] world_failed = response_of (value_of (serve calm D0 retry_post (EpRetry ''e1'') ctx) w1)"
    by (rule served [of retry_post "EpRetry ''e1''" world_failed calm D0 "''t1''" "[]"]) (simp_all add: retry_post_def)
  have "db_ok w1" "retryable w1 ''e1''"
    using same_tables [OF s(1)] retry_failed0(1) by (simp_all add: retryable_def task_status_def)
  then have "rs_status (value_of (HandleRetryTask calm ctx ''e1'') w1) = 200"
    by (simp add: HandleRetryTask_def reset_and_enqueue_def reset_value enqueue_answer_up)
  then show ?thesis using s(2) by (simp add: serve_def answer_def response_of_def)
qed

theorem requeued_interleaved_witness:
  "\<exists>p at. EnqueueCall ''e1'' p None \<in> set (queue_log (final (handle_request calm D0 retry_post ''t1'' []) world_failed))
    \<or> ScheduleCall ''e1'' p at None \<in> set (queue_log (final (handle_request calm D0 retry_post ''t1'' []) world_failed))"
proof -
  obtain n t h cs line where t: "moves calm D0 web0 (world_failed, []) (Arrive (Request retry_post ''t1'' []) # replicate n (Turn 0))
      ((final (handle_request calm D0 retry_post ''t1'' []) world_failed)\<lparr> req_log := empty_log \<rparr>, [t])"
    "th_task t = Request retry_post ''t1'' []" "th_rest t = Done (Replied (h, reply calm D0 retry_post ''t1'' [] world_failed, cs, line))"
    by (rule request_moves [OF quiet_worlds(3), where ts = "[]" and E = calm and D = D0 and S = web0 and rq = retry_post]) auto
  have "route (hr_method retry_post) (hr_path retry_post) = RouteTo (EpRetry ''e1'')" by (simp add: retry_post_def route_retry)
  from requeued_interleaved [OF begun_worlds(3) t(1) _ t(2,3) retry_replied this, of "''e1''"] show ?thesis by simp
qed

end
