(* ===== verification/Overlaps.thy ===== *)
theory Overlaps
  imports Interleaved_Runs
begin

text \<open>
  What overlapping does that no order of whole handlers does: runs of the pool in which one handler
  stops between two of its accesses while another one runs.
\<close>

section \<open>Inside a submission\<close>

text \<open>What is around the handler of a submission: the answer, the log line, the header.\<close>

definition around :: "env \<Rightarrow> http_request \<Rightarrow> ctx \<Rightarrow> string \<Rightarrow> nat list \<Rightarrow> gotime
    \<Rightarrow> ('x world_scheme, http_response) prog \<Rightarrow> ('x world_scheme, ended) prog" where
  "around E rq ctx trace_id reads start p = andThen (andThen (andThen (andThen
    (andThen (answer_thread p) (\<lambda>r. Done (response_of r))) (\<lambda>a. Done (a, written a, reads)))
    (\<lambda>r. Then (time_now E) (\<lambda>stop. Then State_Monad.get (\<lambda>w.
      Done (case r of (a, cs, ns) \<Rightarrow> (a, cs,
        Some (log_attrs rq ctx (instant stop - instant start) (spy_read ns) (spied cs) (req_log w))))))))
    (\<lambda>a. Done ((''X-Trace-ID'', trace_id), a))) (\<lambda>a. Done (Replied a))"

lemma around_value: "\<exists>h cs line. value_of (exec (around E rq ctx tr reads start p)) u = Replied (h, value_of (exec p) u, cs, line)"
  by (simp add: around_def exec_rules answer_def response_of_def)

lemma around_final:
  "tables (final (exec (around E rq ctx tr reads start p)) u) = tables (final (exec p) u)"
  "tick (final (exec p) u) \<le> tick (final (exec (around E rq ctx tr reads start p)) u)"
  by (simp_all add: around_def exec_rules answer_def)

lemma reaches_around: "reaches p v q v' \<Longrightarrow> reaches (around E rq ctx tr reads start p) v (around E rq ctx tr reads start q) v'"
  unfolding around_def answer_thread_def by (intro reaches_andThen)

lemma thread_around:
  fixes v :: "'x world_scheme"
  assumes "submission rq body"
  obtains ctx start and v1 :: "'x world_scheme" where "tables v1 = tables v"
    "reaches (thread_of E D S (Request rq tr reads)) v (around E rq ctx tr reads start (HandleCreateTask_thread E ctx body)) v1"
proof -
  define ctx where "ctx = [MiddlewareKey ''trace_id'' \<mapsto> TextValue tr, MiddlewareKey ''log_context'' \<mapsto> LogPtr]"
  have rq: "hr_path rq \<noteq> ''/metrics''" "hr_path rq \<noteq> ''/health''" "route (hr_method rq) (hr_path rq) = RouteTo EpCreate"
    "hr_body rq = body"
    using assms by (simp_all add: submission_def route_tasks)
  show thesis
    by (rule that [of "next_state (v\<lparr> req_log := empty_log \<rparr>)" ctx "clock E (tick v)"])
      (auto simp: around_def request_thread_def RequestLogger_thread_def dispatch_thread_def serve_thread_def rq ctx_def Let_def
        Then_def intro!: reaches.ahead reaches.here)
qed

text \<open>Up to the end of the check of the key.\<close>

lemma create_checked:
  fixes v :: "'x world_scheme"
  assumes "submittable E body req" "db_up E" "db_ok v" "key_row v (request_key req) = None"
  obtains v1 :: "'x world_scheme" where "tables v1 = tables v"
    "reaches (HandleCreateTask_thread E ctx body) v (create_persist_thread E ctx req (request_key req)) v1"
proof -
  obtain r where r: "decode_stream decode_request empty_request body = (r, True)"
    "req = default_priority r" "passes req"
    "\<forall>at t. tr_execute_at req = Some at \<longrightarrow> \<not> time_before at (clock E t)"
    using assms(1) by (auto simp: submittable_def)
  define v1 :: "'x world_scheme" where "v1 = final (execute_in_past E (tr_execute_at r)) v"
  have t: "tables v1 = tables v" unfolding v1_def by (rule framesD) (intro frame)
  have past: "\<not> value_of (execute_in_past E (tr_execute_at r)) v"
    using r(2,4) by (auto simp: execute_in_past_def split: option.split)
  have ty: "tr_type r \<noteq> []"
    using r(2,3) Validate_type [of "tr_type r" "tr_payload r"] by (auto simp: passes_def)
  have free: "value_of (create_check E ctx req) v1 = Inr (request_key req)"
    using create_check_free [OF assms(2), of v1 req ctx] assms(3,4) same_tables [OF t] by (simp add: unprotected_None)
  have "reaches (create_stored_thread E ctx req) v1 (create_persist_thread E ctx req (request_key req))
      (final (create_check E ctx req) v1)"
    unfolding create_stored_thread_def by (rule reaches_Then) (simp add: free reaches.here)
  then have "reaches (HandleCreateTask_thread E ctx body) v (create_persist_thread E ctx req (request_key req))
      (final (create_check E ctx req) v1)"
    using r past ty
    by (simp add: HandleCreateTask_thread_def create_validated_thread_def passes_def Let_def v1_def reaches_Then)
  moreover have "tables (final (create_check E ctx req) v1) = tables v"
    using t by (simp add: framesD [OF create_check_frames])
  ultimately show thesis by (rule that [rotated])
qed

lemma submission_checked:
  fixes v :: "'x world_scheme"
  assumes "submission rq body" "submittable E body req" "db_up E" "db_ok v" "key_row v (request_key req) = None"
  obtains ctx start and v1 :: "'x world_scheme" where "tables v1 = tables v"
    "reaches (thread_of E D S (Request rq tr reads)) v
      (around E rq ctx tr reads start (create_persist_thread E ctx req (request_key req))) v1"
proof -
  obtain ctx start and v1 :: "'x world_scheme" where v1: "tables v1 = tables v"
    "reaches (thread_of E D S (Request rq tr reads)) v (around E rq ctx tr reads start (HandleCreateTask_thread E ctx body)) v1"
    by (rule thread_around [OF assms(1)])
  have "db_ok v1" "key_row v1 (request_key req) = None" using same_tables [OF v1(1)] assms(4,5) by simp_all
  from create_checked [OF assms(2,3) this, of ctx]
  obtain v2 :: "'x world_scheme" where v2: "tables v2 = tables v1"
    "reaches (HandleCreateTask_thread E ctx body) v1 (create_persist_thread E ctx req (request_key req)) v2" by blast
  show thesis
    using v1 v2 by (intro that [of v2 ctx start] reaches_trans [OF v1(2)] reaches_around) simp_all
qed

section \<open>Turns of one thread among others\<close>

lemma turns_to:
  fixes w :: "'x world_scheme" and ts :: "(action, 'x world_scheme, ended) thread list"
  assumes "reaches (th_rest (ts ! i)) (w\<lparr> req_log := th_log (ts ! i) \<rparr>) p' v'" "i < length ts" "i \<noteq> j"
  shows "\<exists>n w' ts'. moves E D S (w, ts) (replicate n (Turn i)) (w', ts')
    \<and> tables w' = tables v' \<and> tick w' = tick v' \<and> th_rest (ts' ! i) = p' \<and> length ts' = length ts \<and> ts' ! j = ts ! j
    \<and> th_task (ts' ! i) = th_task (ts ! i) \<and> req_log w' = req_log w"
proof -
  define t where "t = (ts ! i)\<lparr> th_rest := p', th_log := req_log v' \<rparr>"
  obtain n where "moves E D S (w, ts) (replicate n (Turn i)) (v'\<lparr> req_log := req_log w \<rparr>, ts[i := t])"
    using turns_reach [OF assms(1) refl assms(2) refl refl, of E D S] by (auto simp: t_def)
  then show ?thesis
    using assms(2,3) by (intro exI [of _ n] exI [of _ "v'\<lparr> req_log := req_log w \<rparr>"] exI [of _ "ts[i := t]"]) (auto simp: t_def)
qed

text \<open>From the arrival of a submission to the end of the check of its key.\<close>

lemma turns_check:
  fixes w :: "'x world_scheme" and ts :: "(action, 'x world_scheme, ended) thread list"
  assumes "th_rest (ts ! i) = thread_of E D S (Request rq tr reads)" "i < length ts" "i \<noteq> j"
    and "submission rq body" "submittable E body req" "db_up E" "db_ok w" "key_row w (request_key req) = None"
  shows "\<exists>n w' ts' ctx start. moves E D S (w, ts) (replicate n (Turn i)) (w', ts')
    \<and> tables w' = tables w \<and> length ts' = length ts \<and> ts' ! j = ts ! j
    \<and> th_rest (ts' ! i) = around E rq ctx tr reads start (create_persist_thread E ctx req (request_key req))"
proof -
  define v where "v = w\<lparr> req_log := th_log (ts ! i) \<rparr>"
  have v: "db_ok v" "key_row v (request_key req) = None" "tables v = tables w" using assms(7,8) by (simp_all add: v_def key_row_def)
  obtain ctx start and v1 :: "'x world_scheme" where v1: "tables v1 = tables v"
    "reaches (thread_of E D S (Request rq tr reads)) v
      (around E rq ctx tr reads start (create_persist_thread E ctx req (request_key req))) v1"
    by (rule submission_checked [OF assms(4-6) v(1,2)])
  from turns_to [OF v1(2) [folded assms(1), unfolded v_def] assms(2,3), of E D S] show ?thesis
    unfolding v1(1) v(3) by blast
qed

text \<open>From the check of the key to the answer, on a healthy platform.\<close>

lemma turns_persist:
  fixes w :: "'x world_scheme" and ts :: "(action, 'x world_scheme, ended) thread list"
  assumes "th_rest (ts ! i) = around E rq ctx tr reads start (create_persist_thread E ctx req key)" "i < length ts" "i \<noteq> j"
    and "db_up E" "queue_up E" "lookup w (new_uuid E (tick w)) = None" "\<forall>tp. marshal_request (set_trace tp req) \<noteq> None"
  shows "\<exists>n w' ts' row c t meta h a cs line. moves E D S (w, ts) (replicate n (Turn i)) (w', ts')
    \<and> length ts' = length ts \<and> ts' ! j = ts ! j \<and> th_rest (ts' ! i) = Done (Replied (h, a, cs, line)) \<and> rs_status a = 200
    \<and> events w' = events w @ [row] \<and> ev_id row = new_uuid E (tick w) \<and> queue_log w' = queue_log w @ [c] \<and> tick w < tick w'
    \<and> idempotency_keys w' = (if key_row w key = None
        then idempotency_keys w @ [recorded_key E t key (new_uuid E (tick w)) meta] else idempotency_keys w)"
proof -
  define v where "v = w\<lparr> req_log := th_log (ts ! i) \<rparr>"
  define m where "m = (create_persist E ctx req key :: ('x world_scheme, http_response) state)"
  let ?p = "around E rq ctx tr reads start (create_persist_thread E ctx req key) :: ('x world_scheme, ended) prog"
  have v: "tick v = tick w" "events v = events w" "queue_log v = queue_log w" "idempotency_keys v = idempotency_keys w"
    "lookup v j = lookup w j" "key_row v k = key_row w k" for j k
    by (simp_all add: v_def lookup_def key_row_def)
  have "lookup v (new_uuid E (tick v)) = None" using assms(6) v by simp
  from create_persist_up [OF assms(4,5) this assms(7), of ctx key, folded m_def]
  obtain row c t meta where up: "rs_status (value_of m v) = 200"
    "events (final m v) = events w @ [row]" "ev_id row = new_uuid E (tick w)" "queue_log (final m v) = queue_log w @ [c]"
    "tick w < tick (final m v)"
    "idempotency_keys (final m v) = (if key_row w key = None
       then idempotency_keys w @ [recorded_key E t key (new_uuid E (tick w)) meta] else idempotency_keys w)"
    unfolding v by blast
  have p: "exec (create_persist_thread E ctx req key) = m" by (simp add: m_def exec_rules)
  obtain h cs line where val: "value_of (exec ?p) v = Replied (h, value_of m v, cs, line)"
    using around_value [of E rq ctx tr reads start "create_persist_thread E ctx req key" v] p by auto
  have "reaches (th_rest (ts ! i)) v (Done (Replied (h, value_of m v, cs, line))) (final (exec ?p) v)"
    unfolding assms(1) val [symmetric] by (rule reaches_end)
  from turns_to [OF this [unfolded v_def] assms(2,3), of E D S, folded v_def]
  obtain n and w' :: "'x world_scheme" and ts' where run: "moves E D S (w, ts) (replicate n (Turn i)) (w', ts')"
    "tables w' = tables (final (exec ?p) v)" "tick w' = tick (final (exec ?p) v)"
    "th_rest (ts' ! i) = Done (Replied (h, value_of m v, cs, line))" "length ts' = length ts" "ts' ! j = ts ! j"
    by blast
  have "tables w' = tables (final m v)" "tick (final m v) \<le> tick w'"
    using run(2,3) p around_final [where E = E and rq = rq and ctx = ctx and tr = tr and reads = reads and start = start
      and p = "create_persist_thread E ctx req key" and u = v] by simp_all
  then have "events w' = events w @ [row]" "queue_log w' = queue_log w @ [c]" "tick w < tick w'"
    "idempotency_keys w' = (if key_row w key = None
       then idempotency_keys w @ [recorded_key E t key (new_uuid E (tick w)) meta] else idempotency_keys w)"
    using up by (simp_all add: tables_def)
  with run(1,4-6) up(1,3) show ?thesis by blast
qed

section \<open>Two submissions with one key\<close>

text \<open>
  C9: Two requests with the same key that overlap can both be accepted: there is an order of the
  turns of their handlers, on a healthy platform, after which both clients have been answered 200,
  two tasks are stored, the queue has been called twice, and the key belongs to the first. The
  check of the key and its recording are two accesses, and that the second recording reports the key
  as taken is not looked at.
\<close>

theorem overlapping_submissions:
  fixes w :: "'x world_scheme"
  assumes "db_up E" "queue_up E" "db_ok w" "req_log w = empty_log" "inj (new_uuid E)" "\<forall>t. lookup w (new_uuid E t) = None"
    and "submission rq1 body1" "submittable E body1 req1" "\<forall>tp. marshal_request (set_trace tp req1) \<noteq> None"
    and "submission rq2 body2" "submittable E body2 req2" "\<forall>tp. marshal_request (set_trace tp req2) \<noteq> None"
    and "request_key req1 = key" "request_key req2 = key" "key_row w key = None"
  shows "\<exists>ms w' t1 t2 h1 a1 cs1 line1 h2 a2 cs2 line2 row1 row2 c1 c2.
    moves E D S (w, []) (Arrive (Request rq1 tr1 reads1) # Arrive (Request rq2 tr2 reads2) # ms) (w', [t1, t2])
    \<and> th_rest t1 = Done (Replied (h1, a1, cs1, line1)) \<and> rs_status a1 = 200
    \<and> th_rest t2 = Done (Replied (h2, a2, cs2, line2)) \<and> rs_status a2 = 200
    \<and> events w' = events w @ [row1, row2] \<and> queue_log w' = queue_log w @ [c1, c2]
    \<and> key_owner w' key = Some (ev_id row1)"
proof -
  define t1 t2 :: "(action, 'x world_scheme, ended) thread" where
    "t1 = \<lparr> th_task = Request rq1 tr1 reads1, th_rest = thread_of E D S (Request rq1 tr1 reads1), th_log = empty_log \<rparr>"
    and "t2 = \<lparr> th_task = Request rq2 tr2 reads2, th_rest = thread_of E D S (Request rq2 tr2 reads2), th_log = empty_log \<rparr>"
  obtain n1 and w1 :: "'x world_scheme" and ts1 ctx1 start1 where r1: "moves E D S (w, [t1, t2]) (replicate n1 (Turn 0)) (w1, ts1)"
    "tables w1 = tables w" "length ts1 = 2" "ts1 ! 1 = t2"
    "th_rest (ts1 ! 0) = around E rq1 ctx1 tr1 reads1 start1 (create_persist_thread E ctx1 req1 (request_key req1))"
    using turns_check [of "[t1, t2]" 0 E D S rq1 tr1 reads1 1 body1 req1 w] assms by (auto simp: t1_def simp del: thread_of.simps)
  note same1 = same_tables [OF r1(2)]
  obtain n2 and w2 :: "'x world_scheme" and ts2 ctx2 start2 where r2: "moves E D S (w1, ts1) (replicate n2 (Turn 1)) (w2, ts2)"
    "tables w2 = tables w1" "length ts2 = 2" "ts2 ! 0 = ts1 ! 0"
    "th_rest (ts2 ! 1) = around E rq2 ctx2 tr2 reads2 start2 (create_persist_thread E ctx2 req2 (request_key req2))"
    using turns_check [of ts1 1 E D S rq2 tr2 reads2 0 body2 req2 w1] assms r1(3,4) same1
    by (auto simp: t2_def simp del: thread_of.simps)
  have t: "tables w2 = tables w" using r1(2) r2(2) by simp
  note same2 = same_tables [OF t]
  obtain n3 and w3 :: "'x world_scheme" and ts3 row1 c1 t meta h1 a1 cs1 line1 where r3:
    "moves E D S (w2, ts2) (replicate n3 (Turn 0)) (w3, ts3)" "length ts3 = 2" "ts3 ! 1 = ts2 ! 1"
    "th_rest (ts3 ! 0) = Done (Replied (h1, a1, cs1, line1))" "rs_status a1 = 200"
    "events w3 = events w2 @ [row1]" "ev_id row1 = new_uuid E (tick w2)" "queue_log w3 = queue_log w2 @ [c1]" "tick w2 < tick w3"
    "idempotency_keys w3 = (if key_row w2 (request_key req1) = None
       then idempotency_keys w2 @ [recorded_key E t (request_key req1) (new_uuid E (tick w2)) meta] else idempotency_keys w2)"
    using turns_persist [of ts2 0 E rq1 ctx1 tr1 reads1 start1 req1 "request_key req1" 1 w2 D S] assms(1,2,6,9) r1(5) r2(3,4) same2
    by auto
  have key3: "key_row w3 key = Some (recorded_key E t key (new_uuid E (tick w2)) meta)"
    using assms(13,15) same2(2) r3(10) by (simp add: key_row_def find_row_append find_row_Cons recorded_key_def)
  have free3: "lookup w3 (new_uuid E (tick w3)) = None"
  proof -
    have "new_uuid E (tick w3) \<noteq> ev_id row1" using r3(7,9) assms(5) by (simp add: inj_eq)
    moreover have "lookup w2 (new_uuid E (tick w3)) = None" using same2(1) assms(6) by simp
    ultimately show ?thesis using r3(6) by (simp add: lookup_None)
  qed
  obtain n4 and w4 :: "'x world_scheme" and ts4 row2 c2 t' meta' h2 a2 cs2 line2 where r4:
    "moves E D S (w3, ts3) (replicate n4 (Turn 1)) (w4, ts4)" "length ts4 = 2" "ts4 ! 0 = ts3 ! 0"
    "th_rest (ts4 ! 1) = Done (Replied (h2, a2, cs2, line2))" "rs_status a2 = 200"
    "events w4 = events w3 @ [row2]" "queue_log w4 = queue_log w3 @ [c2]"
    "idempotency_keys w4 = (if key_row w3 (request_key req2) = None
       then idempotency_keys w3 @ [recorded_key E t' (request_key req2) (new_uuid E (tick w3)) meta'] else idempotency_keys w3)"
    using turns_persist [of ts3 1 E rq2 ctx2 tr2 reads2 start2 req2 "request_key req2" 0 w3 D S] assms(1,2,12) r2(5) r3(2,3) free3
    by auto
  have "moves E D S (w, []) (Arrive (Request rq1 tr1 reads1) # Arrive (Request rq2 tr2 reads2)
      # replicate n1 (Turn 0) @ replicate n2 (Turn 1) @ replicate n3 (Turn 0) @ replicate n4 (Turn 1)) (w4, ts4)"
    using moves_append [OF r1(1) moves_append [OF r2(1) moves_append [OF r3(1) r4(1)]]]
    by (auto simp: t1_def t2_def intro!: moves.arrive)
  moreover have "ts4 = [ts4 ! 0, ts4 ! 1]" using r4(2) by (auto simp: numeral_2_eq_2 length_Suc_conv)
  moreover have "key_owner w4 key = Some (ev_id row1)"
    using key3 r4(8) assms(14) r3(7) by (simp add: key_owner_def key_row_def recorded_key_def)
  moreover have "events w4 = events w @ [row1, row2]" "queue_log w4 = queue_log w @ [c1, c2]"
    using t r3(6,8) r4(6,7) by (simp_all add: tables_def)
  ultimately show ?thesis using r3(4,5) r4(3-5) by metis
qed

theorem overlapping_submissions_witness:
  "\<exists>ms w' t1 t2 h1 a1 cs1 line1 h2 a2 cs2 line2 row1 row2.
    moves calm D0 web0 (world0, []) (Arrive (Request post0 ''t1'' [52]) # Arrive (Request post0 ''t2'' [52]) # ms) (w', [t1, t2])
    \<and> th_rest t1 = Done (Replied (h1, a1, cs1, line1)) \<and> rs_status a1 = 200
    \<and> th_rest t2 = Done (Replied (h2, a2, cs2, line2)) \<and> rs_status a2 = 200 \<and> events w' = [row1, row2]"
proof -
  have m: "\<forall>tp. marshal_request (set_trace tp req0) \<noteq> None" using marshal_req0 by blast
  have free: "\<forall>t. lookup world0 (new_uuid calm t) = None" by simp
  from overlapping_submissions [OF calm_up(1,2) world0_ok quiet_worlds(2) calm_uuids(1) free
      post0 submittable0 m post0 submittable0 m refl refl world0_free(2), of D0 web0 "''t1''" "[52]" "''t2''" "[52]"]
  show ?thesis unfolding world0_empty append_Nil by blast
qed

section \<open>A cancel that is overwritten\<close>

text \<open>What is left of a submission that the queue has refused: the mark on the row and the answer.\<close>

definition late_failure :: "env \<Rightarrow> ctx \<Rightarrow> string \<Rightarrow> goerr \<Rightarrow> ('x world_scheme, http_response) prog" where
  "late_failure E ctx i err = Then (RepoUpdateEventStatus E i ''failed'') (\<lambda>_. atomic (RespondWithError ctx 500 err))"

lemma enqueue_refused:
  fixes v :: "'x world_scheme"
  assumes "queue_down E"
  shows "\<exists>err v'. reaches (create_enqueue_thread E ctx req i) v (late_failure E ctx i err) v' \<and> events v' = events v"
proof -
  define enq :: "('x world_scheme, unit result) state" where "enq = enqueue_or_schedule E i (tr_priority req) (tr_execute_at req)"
  obtain e where "queue_fault E (tick v) = Some e" using assms by (auto simp: queue_down_def)
  then have e: "value_of enq v = Inl e" by (simp add: enq_def enqueue_or_schedule_def split: option.split)
  define v1 where "v1 = final (AddEvent E ctx ''failed_enqueue'' ''failed'' (Some e)) (final enq v)"
  define v2 where "v2 = final (with_log ctx (\<lambda>l. l\<lparr> lc_status := ''failed'' \<rparr>)) v1"
  have "reaches (Then (AddEvent E ctx ''failed_enqueue'' ''failed'' (Some e)) (\<lambda>_.
      Then (with_log ctx (\<lambda>l. l\<lparr> lc_status := ''failed'' \<rparr>)) (\<lambda>_. late_failure E ctx i e)))
      (final enq v) (late_failure E ctx i e) v2"
    unfolding v2_def v1_def by (rule reaches_Then, rule reaches_Then, rule reaches.here)
  then have "reaches (create_enqueue_thread E ctx req i) v (late_failure E ctx i e) v2"
    unfolding create_enqueue_thread_def late_failure_def enq_def [symmetric] by (intro reaches_Then) (simp add: e)
  moreover have "tables v2 = tables (final enq v)" by (rule check_start(1) [of v2 ctx]) (simp add: v1_def v2_def)
  moreover have "events (final enq v) = events v" by (simp add: enq_def enqueue_or_schedule_def split: option.split)
  ultimately show ?thesis by (auto simp: tables_def)
qed

lemma persist_refused:
  fixes v :: "'x world_scheme"
  assumes "db_up E" "queue_down E" "lookup v i = None" "i = new_uuid E (tick v)" "\<forall>tp. marshal_request (set_trace tp r0) \<noteq> None"
  shows "\<exists>err v'. reaches (create_persist_thread E ctx r0 key) v (late_failure E ctx i err) v' \<and> task_status v' i = Some ''pending''"
proof -
  define req where "req = set_trace (traceparent E (tick v)) r0"
  obtain full where full: "marshal_request req = Some full" using assms(5) by (auto simp: req_def)
  define v1 where "v1 = final (with_log ctx (\<lambda>l. l\<lparr> lc_event_id := i \<rparr>)) (next_state v)"
  define save :: "('x world_scheme, unit result) state" where
    "save = SaveProcessedEvent E i (tr_type req) full ''pending'' (ctx_trace_id ctx) (tr_priority req) [] (tr_execute_at req)"
  define rec :: "('x world_scheme, bool result) state" where
    "rec = CheckAndRecordToDB E key i (api_metadata req)"
  have "lookup v1 i = None" using assms(3) by (simp add: v1_def lookup_def)
  then have saved: "value_of save v1 = Inr ()" using assms(1) unfolding save_def by (intro save_value) simp_all
  have row: "task_status (final save v1) i = Some ''pending''"
    using save_lookup [OF saved [unfolded save_def], of i] by (simp add: task_status_def save_def saved_event_def)
  then have "lookup (final save v1) i \<noteq> None" by (auto simp: task_status_def split: bind_splits)
  then have rec: "value_of rec (final save v1) = Inr (key_row (final save v1) key \<noteq> None)"
    "events (final rec (final save v1)) = events (final save v1)"
    using assms(1) record_value [of E "final save v1" key i "api_metadata req"]
      record_final [of E "final save v1" key i "api_metadata req"] by (auto simp: rec_def)
  obtain err and v' :: "'x world_scheme" where v': "events v' = events (final rec (final save v1))"
    "reaches (create_enqueue_thread E ctx req i) (final rec (final save v1)) (late_failure E ctx i err) v'"
    using enqueue_refused [OF assms(2)] by blast
  have "reaches (create_persist_thread E ctx r0 key) v (late_failure E ctx i err) v'"
    unfolding create_persist_thread_def Let_def
    by (rule reaches_Then, rule reaches_Then)
      (use v'(2) saved rec(1) full in \<open>simp add: Let_def assms(4) [symmetric] req_def [symmetric] v1_def [symmetric]
        save_def [symmetric] rec_def [symmetric] reaches_Then del: final_with_log\<close>)
  moreover have "task_status v' i = Some ''pending''" using row rec(2) v'(1) by (simp add: task_status_def lookup_def)
  ultimately show ?thesis by blast
qed

text \<open>A request to cancel a task, and what a healthy database makes of it.\<close>

definition cancel_request :: "http_request \<Rightarrow> string \<Rightarrow> bool" where
  "cancel_request rq i \<longleftrightarrow> hr_method rq = ''DELETE'' \<and> hr_path rq = ''/tasks/'' @ i \<and> CHR ''/'' \<notin> set i"

lemma cancel_routed:
  assumes "cancel_request rq i" "i \<noteq> []"
  shows "route (hr_method rq) (hr_path rq) = RouteTo (EpCancel i)" "hr_path rq \<noteq> ''/metrics''" "hr_path rq \<noteq> ''/health''"
proof -
  have path: "split_on (CHR ''/'') i = [i]"
    using assms split_on_join_with [of "[i]" "CHR ''/''"] by (simp add: cancel_request_def)
  have pats: "split_on (CHR ''/'') ''/tasks/{id}'' = [[], ''tasks'', ''{id}'']" by code_simp
  show "route (hr_method rq) (hr_path rq) = RouteTo (EpCancel i)"
    using assms by (simp add: cancel_request_def route_def routes_def path_param_def path pats)
  show "hr_path rq \<noteq> ''/metrics''" "hr_path rq \<noteq> ''/health''"
    using assms by (auto simp: cancel_request_def)
qed

lemma cancel_replied:
  fixes w :: "'x world_scheme"
  assumes "cancel_request rq i" "i \<noteq> []" "db_up E" "db_ok w" "task_status w i = Some ''pending''"
  shows "rs_status (reply E D rq tr reads w) = 200"
    "lookup (final (handle_request E D rq tr reads) w) i \<noteq> None"
proof -
  obtain ctx and w1 :: "'x world_scheme" where s: "tables w1 = tables w"
    "reply E D rq tr reads w = response_of (value_of (serve E D rq (EpCancel i) ctx) w1)"
    "tables (final (handle_request E D rq tr reads) w) = tables (final (serve E D rq (EpCancel i) ctx) w1)"
    by (rule served [OF cancel_routed [OF assms(1,2)]])
  have w1: "answers E w1" "db_ok w1" "task_status w1 i = Some ''pending''"
    using same_tables [OF s(1)] assms(3-5) by (simp_all add: task_status_def db_up_def answers_def)
  then have c: "value_of (CancelTask E i) w1 = Inr ()" by (simp add: cancel_value)
  then show "rs_status (reply E D rq tr reads w) = 200"
    using s(2) assms(2) by (simp add: serve_def answer_def response_of_def HandleCancelTask_def)
  have "lookup (final (HandleCancelTask E ctx i) w1) i \<noteq> None"
    using c assms(2) w1 cancel_lookup [OF w1(1), of i i]
    by (auto simp: HandleCancelTask_def task_status_def split: bind_splits)
  then show "lookup (final (handle_request E D rq tr reads) w) i \<noteq> None"
    using same_tables(1) [OF s(3), of i] by (simp add: serve_def answer_def)
qed

lemma late_failure_marks:
  fixes u :: "'x world_scheme"
  assumes "db_up E" "lookup u i \<noteq> None"
  shows "rs_status (value_of (exec (late_failure E ctx i err)) u) = 500"
    "task_status (final (exec (late_failure E ctx i err)) u) i = Some ''failed''"
proof -
  have "answers E u" using assms(1) by simp
  then show "task_status (final (exec (late_failure E ctx i err)) u) i = Some ''failed''"
    using status_lookup [of E u i "''failed''" i] assms(2) by (auto simp: late_failure_def exec_rules task_status_def lookup_def)
qed (simp add: late_failure_def exec_rules)

text \<open>
  C10: A cancel that was answered with success can be overwritten: when the queue refuses a submission, its
  handler marks the row as failed without looking at its status, so a client that cancels the task
  between the two is answered 200 and the task ends as failed.
\<close>

theorem cancel_overwritten:
  fixes w :: "'x world_scheme"
  assumes "begun w" "req_log w = empty_log" "db_up E" "queue_down E" "\<forall>t. lookup w (new_uuid E t) = None"
    and "\<forall>t. new_uuid E t \<noteq> [] \<and> CHR ''/'' \<notin> set (new_uuid E t)"
    and "submission rq body" "submittable E body req" "\<forall>tp. marshal_request (set_trace tp req) \<noteq> None"
    and "key_row w (request_key req) = None"
  shows "\<exists>i cancel ms w' t1 t2 h1 a1 cs1 line1 h2 a2 cs2 line2. moves E D S (w, []) ms (w', [t1, t2])
    \<and> th_task t1 = Request rq tr reads \<and> th_rest t1 = Done (Replied (h1, a1, cs1, line1)) \<and> rs_status a1 = 500
    \<and> th_task t2 = Request cancel tr2 reads2 \<and> cancel_request cancel i
    \<and> th_rest t2 = Done (Replied (h2, a2, cs2, line2)) \<and> rs_status a2 = 200
    \<and> task_status w' i = Some ''failed''"
proof -
  define t1 :: "(action, 'x world_scheme, ended) thread" where
    "t1 = \<lparr> th_task = Request rq tr reads, th_rest = thread_of E D S (Request rq tr reads), th_log = empty_log \<rparr>"
  have ok: "db_ok w" using begun_ok [OF assms(1)] by (simp add: platform_ok_def)
  obtain ctx start and v1 :: "'x world_scheme" where v1: "tables v1 = tables w"
    "reaches (thread_of E D S (Request rq tr reads)) w
      (around E rq ctx tr reads start (create_persist_thread E ctx req (request_key req))) v1"
    by (rule submission_checked [OF assms(7,8,3) ok assms(10)])
  define i where "i = new_uuid E (tick v1)"
  have i: "i \<noteq> []" "CHR ''/'' \<notin> set i" "lookup v1 i = None" using assms(5,6) same_tables(1) [OF v1(1)] by (simp_all add: i_def)
  obtain err and v2 :: "'x world_scheme" where v2: "task_status v2 i = Some ''pending''"
    "reaches (create_persist_thread E ctx req (request_key req)) v1 (late_failure E ctx i err) v2"
    using persist_refused [OF assms(3,4) i(3) i_def assms(9)] by blast
  have "reaches (th_rest ([t1] ! 0)) (w\<lparr> req_log := th_log ([t1] ! 0) \<rparr>) (around E rq ctx tr reads start (late_failure E ctx i err)) v2"
  proof -
    have "w\<lparr> req_log := empty_log \<rparr> = w" using assms(2) by simp
    then show ?thesis
      using reaches_trans [OF v1(2) reaches_around [OF v2(2)]] by (simp add: t1_def del: thread_of.simps)
  qed
  from turns_to [OF this, of 1 E D S]
  obtain n1 and w1 :: "'x world_scheme" and ts1 where r1: "moves E D S (w, [t1]) (replicate n1 (Turn 0)) (w1, ts1)"
    "tables w1 = tables v2" "th_rest (ts1 ! 0) = around E rq ctx tr reads start (late_failure E ctx i err)" "length ts1 = 1"
    "th_task (ts1 ! 0) = Request rq tr reads" "req_log w1 = empty_log"
    using assms(2) by (auto simp: t1_def simp del: thread_of.simps)
  have until: "moves E D S (w, []) (Arrive (Request rq tr reads) # replicate n1 (Turn 0)) (w1, ts1)"
    using r1(1) by (auto simp: t1_def intro: moves.arrive)
  define cancel where
    "cancel = \<lparr> hr_method = ''DELETE'', hr_path = ''/tasks/'' @ i, hr_query = (\<lambda>k. []), hr_body = [], hr_remote = [] \<rparr>"
  have cancels: "cancel_request cancel i" using i(2) by (simp add: cancel_request_def cancel_def)
  have "db_ok w1" using moves_safe(1) [OF assms(1) until] by (simp add: shared.all_safe_def platform_ok_def)
  moreover have "task_status w1 i = Some ''pending''" using v2(1) same_tables(1) [OF r1(2)] by (simp add: task_status_def)
  ultimately have gone: "rs_status (reply E D cancel tr2 reads2 w1) = 200"
    "lookup (final (handle_request E D cancel tr2 reads2) w1) i \<noteq> None"
    using cancel_replied [OF cancels i(1) assms(3)] by blast+
  define w2 where "w2 = (final (handle_request E D cancel tr2 reads2) w1)\<lparr> req_log := empty_log \<rparr>"
  obtain n2 t2 h2 cs2 line2 where r2: "moves E D S (w1, ts1) (Arrive (Request cancel tr2 reads2) # replicate n2 (Turn (length ts1))) (w2, ts1 @ [t2])"
    "th_task t2 = Request cancel tr2 reads2" "th_rest t2 = Done (Replied (h2, reply E D cancel tr2 reads2 w1, cs2, line2))"
    unfolding w2_def by (rule request_moves [OF r1(6), where E = E and D = D and S = S and ts = ts1]) blast
  define u where "u = w2\<lparr> req_log := th_log ((ts1 @ [t2]) ! 0) \<rparr>"
  define p :: "('x world_scheme, ended) prog" where "p = around E rq ctx tr reads start (late_failure E ctx i err)"
  have "lookup u i \<noteq> None" using gone(2) by (simp add: u_def w2_def lookup_def)
  note marks = late_failure_marks [OF assms(3) this, of ctx err]
  obtain h1 cs1 line1 where val: "value_of (exec p) u = Replied (h1, value_of (exec (late_failure E ctx i err)) u, cs1, line1)"
    using around_value unfolding p_def by blast
  have p: "th_rest ((ts1 @ [t2]) ! 0) = p" "0 < length (ts1 @ [t2])" "0 \<noteq> (1::nat)" using r1(3,4) by (simp_all add: p_def nth_append)
  have "reaches (th_rest ((ts1 @ [t2]) ! 0)) u (Done (value_of (exec p) u)) (final (exec p) u)" unfolding p(1) by (rule reaches_end)
  from turns_to [OF this [unfolded u_def] p(2,3), of E D S, folded u_def]
  obtain n3 and w3 :: "'x world_scheme" and ts3 where r3: "moves E D S (w2, ts1 @ [t2]) (replicate n3 (Turn 0)) (w3, ts3)"
    "tables w3 = tables (final (exec p) u)" "th_rest (ts3 ! 0) = Done (value_of (exec p) u)" "length ts3 = length (ts1 @ [t2])"
    "ts3 ! 1 = (ts1 @ [t2]) ! 1" "th_task (ts3 ! 0) = th_task ((ts1 @ [t2]) ! 0)" by blast
  have t3: "tables w3 = tables (final (exec (late_failure E ctx i err)) u)" using r3(2) around_final(1) by (simp add: p_def)
  have "task_status w3 i = Some ''failed''" using marks(2) same_tables(1) [OF t3] by (simp add: task_status_def)
  moreover have "ts3 = [ts3 ! 0, t2]" using r3(4,5) r1(4) by (auto simp: nth_append length_Suc_conv)
  moreover have "th_task (ts3 ! 0) = Request rq tr reads" using r3(6) r1(4,5) by (simp add: nth_append)
  ultimately show ?thesis
    using moves_append [OF until moves_append [OF r2(1) r3(1)]] r3(3) val marks(1) r2(2,3) gone(1) cancels by metis
qed

theorem cancel_overwritten_witness:
  "\<exists>i cancel ms w' t1 t2 h2 a2 cs2 line2. moves no_queue D0 web0 (world0, []) ms (w', [t1, t2])
    \<and> th_task t2 = Request cancel ''t2'' [] \<and> cancel_request cancel i
    \<and> th_rest t2 = Done (Replied (h2, a2, cs2, line2)) \<and> rs_status a2 = 200
    \<and> task_status w' i = Some ''failed''"
proof -
  have m: "\<forall>tp. marshal_request (set_trace tp req0) \<noteq> None" using marshal_req0 by blast
  have free: "\<forall>t. lookup world0 (new_uuid no_queue t) = None" by simp
  have slash: "CHR ''/'' \<notin> set (dec t)" for t using digits_dec [of t] by (force simp: list_all_iff is_digit_def byte_def)
  have named: "\<forall>t. new_uuid no_queue t \<noteq> [] \<and> CHR ''/'' \<notin> set (new_uuid no_queue t)"
    using slash by (simp add: no_queue_def calm_def)
  from cancel_overwritten [OF begun_worlds(2) quiet_worlds(2) calm_up(3,4) free named post0 submittable0 m world0_free(2),
      of D0 web0 "''t1''" "[52]" "''t2''" "[]"]
  show ?thesis by blast
qed

end
