(* ===== verification/Web_Properties.thy ===== *)
theory Web_Properties
  imports Worker_Properties
begin

text \<open>
  What the task handlers promise towards the outside: which addresses they let the server connect
  to, what a scraped page contains, that the report is a rendering of it that can be read back,
  and which images are stored.
\<close>

section \<open>Addresses\<close>

lemma To4_length: "To4 a = Some q \<Longrightarrow> length q = 4"
  by (auto simp: To4_def split: if_splits)

lemma length4: "length q = 4 \<Longrightarrow> \<exists>x y z t. q = [x, y, z, t]"
  by (auto simp: numeral_eq_Suc length_Suc_conv)

text \<open>
  C20: An address counts as private exactly if it lies in 10/8, 172.16/12, 192.168/16, 127/8 or
  169.254/16, written as IPv4 or mapped into IPv6, or is ::1 or lies in fc00::/7.
\<close>

theorem private_ranges:
  assumes "length a = 16"
  shows "isPrivateIP a \<longleftrightarrow> (case To4 a of
      Some q \<Rightarrow> q ! 0 = 10 \<or> (q ! 0 = 172 \<and> 16 \<le> q ! 1 \<and> q ! 1 < 32) \<or> (q ! 0 = 192 \<and> q ! 1 = 168)
        \<or> q ! 0 = 127 \<or> (q ! 0 = 169 \<and> q ! 1 = 254)
    | None \<Rightarrow> a = replicate 15 0 @ [1] \<or> (0xFC \<le> hd a \<and> hd a < 0xFE))"
proof (cases "To4 a")
  case None
  then show ?thesis using private_v6 [OF None assms] by simp
next
  case (Some q)
  then obtain x y z t where "q = [x, y, z, t]" using To4_length length4 by blast
  then show ?thesis using private_v4 [of a x y z t] Some by simp
qed

theorem private_ranges_witness:
  "isPrivateIP (ip_v4 [172, 31, 0, 1]) \<and> \<not> isPrivateIP (ip_v4 [172, 32, 0, 1]) \<and> isPrivateIP (replicate 15 0 @ [1])"
proof -
  have "To4 (ip_v4 [172, 31, 0, 1]) = Some [172, 31, 0, 1]" "To4 (ip_v4 [172, 32, 0, 1]) = Some [172, 32, 0, 1]"
    "To4 (replicate 15 0 @ [1]) = None"
    by code_simp+
  then show ?thesis
    using private_ranges [of "ip_v4 [172, 31, 0, 1]"] private_ranges [of "ip_v4 [172, 32, 0, 1]"]
      private_ranges [of "replicate 15 0 @ [1]"]
    by (simp add: ip_v4_def v4_prefix_def)
qed

text \<open>An address with a zone is no address for \<open>net.ParseIP\<close>.\<close>

lemma ParseIP_zone:
  assumes "CHR ''%'' \<in> set s"
  shows "ParseIP s = None"
proof -
  have "parse_v4 s = None"
  proof -
    have chars: "set (join_with [CHR ''.''] ls) \<subseteq> insert (CHR ''.'') (\<Union>l\<in>set ls. set l)" for ls
      by (induction "[CHR ''.'']" ls rule: join_with.induct) auto
    obtain f where f: "f \<in> set (split_on (CHR ''.'') s)" "CHR ''%'' \<in> set f"
      using assms chars [of "split_on (CHR ''.'') s"] by (auto simp: split_on_join)
    moreover have "\<not> is_digit (CHR ''%'')" by code_simp
    ultimately have "parse_octet f = None" by (auto simp: parse_octet_def list_all_iff)
    moreover have "those (map parse_octet fs) = None" if "f \<in> set fs" "parse_octet f = None" for fs
      using that by (induction fs) (auto split: option.split)
    ultimately show ?thesis using f(1) by (simp add: parse_v4_def Let_def)
  qed
  then show ?thesis using assms by (auto simp: ParseIP_def parse_v6_def split: list.split)
qed

lemma SafeDial_iff:
  "SafeDial resolve addr = DialTo target \<longleftrightarrow> (\<exists>host port raw ips.
    split_host_port addr = Inr (host, port) \<and> resolve host = Inr (raw # ips) \<and> target = join_host_port raw port
    \<and> (\<forall>s\<in>set (raw # ips). \<forall>a. ParseIP s = Some a \<longrightarrow> \<not> isPrivateIP a))" (is "_ \<longleftrightarrow> ?dial")
proof
  show ?dial if "SafeDial resolve addr = DialTo target"
    by (rule SafeDial_DialTo [OF that]) (intro exI conjI; assumption)
next
  assume ?dial
  then obtain host port raw ips where dial: "split_host_port addr = Inr (host, port)" "resolve host = Inr (raw # ips)"
    "target = join_host_port raw port" "first_blocked (raw # ips) = None"
    unfolding first_blocked_None blocked_None by blast
  then show "SafeDial resolve addr = DialTo target" by (simp add: SafeDial_def del: first_blocked.simps)
qed

text \<open>
  C19: A connection is made exactly when the target names a host and a port, the host resolves, and
  no address among the results that \<open>net.ParseIP\<close> can read is private; it goes to the first address, on the port of the
  request. One readable private address blocks the request. What ParseIP does not read is not
  checked, and that is every address with a zone: a name that resolves to ::1%lo, the loopback
  address, is dialed.
\<close>

theorem dial_checks_all:
  "(SafeDial resolve addr = DialTo target \<longleftrightarrow> (\<exists>host port raw ips.
      split_host_port addr = Inr (host, port) \<and> resolve host = Inr (raw # ips) \<and> target = join_host_port raw port
      \<and> (\<forall>s\<in>set (raw # ips). \<forall>a. ParseIP s = Some a \<longrightarrow> \<not> isPrivateIP a)))
    \<and> (CHR ''%'' \<in> set s \<longrightarrow> ParseIP s = None)
    \<and> SafeDial (\<lambda>h. Inr [''::1%lo'']) ''a:80'' = DialTo ''[::1%lo]:80''
    \<and> SafeDial (\<lambda>h. Inr [''93.184.216.34'', ''::1'']) ''a:80''
      = DialError (ErrorString ''ssrf: blocked request to private address ::1'')"
proof (intro conjI)
  show "SafeDial (\<lambda>h. Inr [''::1%lo'']) ''a:80'' = DialTo ''[::1%lo]:80''" by code_simp
  show "SafeDial (\<lambda>h. Inr [''93.184.216.34'', ''::1'']) ''a:80''
      = DialError (ErrorString ''ssrf: blocked request to private address ::1'')" by code_simp
  show "CHR ''%'' \<in> set s \<longrightarrow> ParseIP s = None" by (blast intro: ParseIP_zone)
qed (rule SafeDial_iff)

theorem dial_checks_all_witness:
  "\<not> isPrivateIP (the (ParseIP ''93.184.216.34'')) \<and> \<not> isPrivateIP (the (ParseIP ''93.184.216.35''))
    \<and> ParseIP ''fe80::1%eth0'' = None"
proof -
  have d: "SafeDial (\<lambda>h. Inr [''93.184.216.34'', ''93.184.216.35'']) ''a:80'' = DialTo ''93.184.216.34:80''"
    by code_simp
  have p: "ParseIP ''93.184.216.34'' \<noteq> None \<and> ParseIP ''93.184.216.35'' \<noteq> None" by code_simp
  from dial_checks_all [of "\<lambda>h. Inr [''93.184.216.34'', ''93.184.216.35'']" "''a:80''" "''93.184.216.34:80''" "''fe80::1%eth0''"]
    d p
  show ?thesis by (auto split: option.splits)
qed

text \<open>
  The guard lets these through, each of which can be an address of the server's own network:
  the unspecified address 0.0.0.0, link-local IPv6, shared addresses (100.64/10), and any address
  with a zone, the loopback address included, because net.ParseIP gives nil for it.
\<close>

theorem dialed_anyway:
  "SafeDial (\<lambda>h. Inr [''0.0.0.0'']) ''a:80'' = DialTo ''0.0.0.0:80''
  \<and> SafeDial (\<lambda>h. Inr [''fe80::1'']) ''a:80'' = DialTo ''[fe80::1]:80''
  \<and> SafeDial (\<lambda>h. Inr [''100.64.0.1'']) ''a:80'' = DialTo ''100.64.0.1:80''
  \<and> SafeDial (\<lambda>h. Inr [''::1%lo'']) ''a:80'' = DialTo ''[::1%lo]:80''
  \<and> SafeDial (\<lambda>h. Inr [''::1'']) ''a:80''
    = DialError (ErrorString ''ssrf: blocked request to private address ::1'')"
  by (intro conjI; code_simp)

section \<open>Scraped pages\<close>

text \<open>
  An extracted page carries the requested url and the time of the extraction; it has no empty
  heading, every paragraph has 20 to 300 bytes, and every link starts with http.
\<close>

theorem extracted_page_bounds:
  "page_ok (extractPage now doc url) \<and> sp_url (extractPage now doc url) = url
    \<and> sp_scraped_at (extractPage now doc url) = rfc3339 (utc now)"
  using page_ok_extract walk_url [of doc] by (simp add: extractPage_def)

text \<open>
  What the scraper stores is what the report reads: a stored page is decoded to the page, up to
  bytes that are not UTF-8, which come back as the replacement character.
\<close>

theorem stored_page_roundtrip:
  "unmarshal decode_page empty_page (jprint (page_json p)) = (normal_page p, True)"
  by (rule page.unmarshal_encode) simp

text \<open>
  A reader of RFC 4180 gets back from a report exactly the rows that were written, whatever
  quotes, commas and line ends the texts of the page hold.
\<close>

theorem report_roundtrip:
  "csv_read (csv_text (report_rows p)) = Some (report_rows p)"
  by (rule report_read)

lemma scrape_None:
  assumes "value_of (ScrapeURL E S storage task) w = None"
  obtains url page where "unmarshal decode_url [] (wt_payload task) = (url, True)" "url \<noteq> []" "storage"
    "value_of (scrape_page E S url) w = Inr page"
    "value_of (store_file E ''scrape'' task (scrape_key task) ''application/json'' (jprint (page_json page)))
      (final (scrape_page E S url) w) = None"
    "final (ScrapeURL E S storage task) w = final (store_file E ''scrape'' task (scrape_key task) ''application/json''
      (jprint (page_json page))) (final (scrape_page E S url) w)"
proof -
  obtain url ok where u: "unmarshal decode_url [] (wt_payload task) = (url, ok)" by fastforce
  then have "ok \<and> url \<noteq> [] \<and> storage" using assms by (auto simp: ScrapeURL_def split: if_splits)
  moreover from this obtain page where "value_of (scrape_page E S url) w = Inr page"
    using assms u by (cases "value_of (scrape_page E S url) w") (auto simp: ScrapeURL_def)
  ultimately show thesis using assms u by (intro that [of url page]) (auto simp: ScrapeURL_def)
qed

lemma scrape_page_frames:
  assumes "\<And>w t. g (w\<lparr> tick := t \<rparr>) = g w"
  shows "g (final (scrape_page E S url) w) = g w"
  by (rule framesD) (rule fetch_frames, rule assms)

lemma scrape_page_Inr:
  assumes "value_of (scrape_page E S url) w = Inr page"
  shows "page_ok page \<and> sp_url page = url"
proof -
  obtain now doc where "page = extractPage now doc url"
    using assms by (auto simp: scrape_page_def split: sum.splits if_splits prod.splits)
  then show ?thesis using page_ok_extract walk_url [of doc] by (simp add: extractPage_def)
qed

lemma scrape_stored:
  assumes "value_of (ScrapeURL E S storage task) w = None"
  shows "\<exists>url page now. unmarshal decode_url [] (wt_payload task) = (url, True) \<and> url \<noteq> []
    \<and> value_of (scrape_page E S url) w = Inr page \<and> sp_url page = url \<and> page_ok page
    \<and> unmarshal decode_page empty_page (jprint (page_json page)) = (normal_page page, True)
    \<and> objects (final (ScrapeURL E S storage task) w) = objects w
        @ [\<lparr> so_key = scrape_key task, so_content_type = ''application/json'', so_body = jprint (page_json page) \<rparr>]
    \<and> (\<forall>j. lookup (final (ScrapeURL E S storage task) w) j =
        (if j = wt_id task then map_option (result_row now (Some (jprint (file_json (scrape_key task))))) (lookup w j)
         else lookup w j))
    \<and> queue_log (final (ScrapeURL E S storage task) w) = queue_log w"
proof (rule scrape_None [OF assms])
  fix url page
  define w1 where "w1 = final (scrape_page E S url) w"
  assume run: "unmarshal decode_url [] (wt_payload task) = (url, True)" "url \<noteq> []"
    "value_of (scrape_page E S url) w = Inr page"
    "value_of (store_file E ''scrape'' task (scrape_key task) ''application/json'' (jprint (page_json page)))
      (final (scrape_page E S url) w) = None"
    "final (ScrapeURL E S storage task) w = final (store_file E ''scrape'' task (scrape_key task) ''application/json''
      (jprint (page_json page))) (final (scrape_page E S url) w)"
  have same: "objects w1 = objects w" "events w1 = events w" "queue_log w1 = queue_log w"
    by (simp_all add: w1_def scrape_page_frames)
  have "lookup w1 j = lookup w j" for j by (simp add: lookup_def same)
  then show ?thesis
    using run(1-3,5) scrape_page_Inr [OF run(3)] store_file_None [OF run(4)] page.unmarshal_encode [of page] same
    unfolding w1_def [symmetric]
    by (intro exI [of _ url] exI [of _ page] exI [of _ "db_now E (Suc (tick w1))"]) simp
qed

text \<open>
  C24: When the scraper reports success, the payload named a url and its page was fetched; one object
  was added, under the key of the task, and it decodes to that page, within the bounds; the task's result names
  that key; the result of no other task changed and nothing was queued.
\<close>

theorem scrape_stores_page:
  assumes "value_of (ScrapeURL E S storage task) w = None"
  shows "\<exists>url page now. unmarshal decode_url [] (wt_payload task) = (url, True) \<and> url \<noteq> []
    \<and> value_of (scrape_page E S url) w = Inr page \<and> sp_url page = url \<and> page_ok page
    \<and> unmarshal decode_page empty_page (jprint (page_json page)) = (normal_page page, True)
    \<and> objects (final (ScrapeURL E S storage task) w) = objects w
        @ [\<lparr> so_key = scrape_key task, so_content_type = ''application/json'', so_body = jprint (page_json page) \<rparr>]
    \<and> (\<forall>j. lookup (final (ScrapeURL E S storage task) w) j =
        (if j = wt_id task then map_option (result_row now (Some (jprint (file_json (scrape_key task))))) (lookup w j)
         else lookup w j))
    \<and> queue_log (final (ScrapeURL E S storage task) w) = queue_log w"
  using assms by (rule scrape_stored)

theorem scrape_stores_page_witness:
  "\<exists>page. page_ok page \<and> sp_url page = ''http://a''
    \<and> objects (final (ScrapeURL calm web0 True task_chain) world_chain)
      = [\<lparr> so_key = ''scraped/e1.json'', so_content_type = ''application/json'', so_body = jprint (page_json page) \<rparr>]"
  using scrape_stores_page [OF chain_scrape_runs(1), of world_chain]
  by (auto simp: url0 scrape_key_def world_chain_def world0_def)

section \<open>The report of a scraped page\<close>

lemma decode_stream_unmarshal: "jparse s = Some j \<Longrightarrow> decode_stream d v s = unmarshal d v s"
  by (auto simp: jparse_def jdecode_def decode_stream_def unmarshal_def split: option.splits if_splits)

lemma stream_page: "decode_stream decode_page empty_page (jprint (page_json p)) = (normal_page p, True)"
  by (simp add: decode_stream_unmarshal [OF page.jparse_encode [OF TrueI]] page.unmarshal_encode)

lemma parent_key_value:
  assumes "db_up E" "i \<noteq> []" "lookup w i = Some e" "ev_result e = Some (jprint (file_json key))"
    "utf8_sanitize key = key" "key \<noteq> []"
  shows "value_of (parentFileResultKey E i) w = Inr key"
  using assms ref_key_file [of e key E i] by (simp add: parentFileResultKey_def get_event_value)

lemma report_from_up:
  fixes w :: "'x world_scheme"
  assumes "db_up E" "\<And>t. get_object E t key = Inr (jprint (page_json page), None)" "\<And>t. put_object E t = None"
  shows "value_of (report_from E task key) w = None
    \<and> objects (final (report_from E task key) w) = objects w @ [\<lparr> so_key = report_key task,
        so_content_type = ''text/csv'', so_body = csv_text (report_rows (normal_page page)) \<rparr>]
    \<and> (\<exists>now. lookup (final (report_from E task key) w) (wt_id task)
        = map_option (result_row now (Some (jprint (file_json (report_key task))))) (lookup w (wt_id task)))"
proof -
  define store :: "('x world_scheme, goerr option) state" where
    "store = store_file E ''report'' task (report_key task) ''text/csv'' (csv_text (report_rows (normal_page page)))"
  have run: "value_of (report_from E task key) w = value_of store (next_state w)"
    "final (report_from E task key) w = final store (next_state w)"
    using assms(2) by (simp_all add: report_from_def Download_def wrap_result_def stream_page store_def)
  have "value_of store (next_state w) = None" using assms(1,3) by (simp add: store_def store_file_up)
  with store_file_None(1,2) [OF this [unfolded store_def]] run show ?thesis by (auto simp: store_def)
qed

lemma report_stored:
  assumes "unmarshal decode_scraped_key [] (wt_payload task) = ([], True)"
    and "meta task ''root_task_id'' \<noteq> []" "lookup w (meta task ''root_task_id'') = Some root"
    and "ev_result root = Some (jprint (file_json key))" "utf8_sanitize key = key" "key \<noteq> []"
    and "db_up E" "\<And>t. get_object E t key = Inr (jprint (page_json page), None)" "\<And>t. put_object E t = None"
  shows "value_of (GenerateReport E True task) w = None
    \<and> (\<exists>csv. objects (final (GenerateReport E True task) w) = objects w
        @ [\<lparr> so_key = report_key task, so_content_type = ''text/csv'', so_body = csv \<rparr>]
      \<and> csv_read csv = Some (report_rows (normal_page page)))
    \<and> (\<exists>now. lookup (final (GenerateReport E True task) w) (wt_id task)
        = map_option (result_row now (Some (jprint (file_json (report_key task))))) (lookup w (wt_id task)))"
proof -
  define w1 where "w1 = final (parentFileResultKey E (meta task ''root_task_id'')) w"
  have run: "value_of (GenerateReport E True task) w = value_of (report_from E task key) w1"
    "final (GenerateReport E True task) w = final (report_from E task key) w1"
    using assms(1) parent_key_value [OF assms(7,2-6)] by (simp_all add: GenerateReport_def w1_def)
  have "objects w1 = objects w" "lookup w1 j = lookup w j" for j
    unfolding w1_def by (rule framesD, rule fetch_frames, simp add: lookup_def)+
  then show ?thesis
    using report_from_up [OF assms(7-9), of task w1] run report_read [of "normal_page page"] by simp
qed

text \<open>
  C25: A report that follows a scrape in a chain needs no parameters: when the task at the root of
  the chain carries the key of its page, the store gives back what was put under that key, and the
  database and the store answer, then the report is stored as CSV, what a reader gets from it are
  the rows of that page, and the task's result names it.
\<close>

theorem report_follows_scrape:
  assumes "unmarshal decode_scraped_key [] (wt_payload task) = ([], True)"
    and "meta task ''root_task_id'' \<noteq> []" "lookup w (meta task ''root_task_id'') = Some root"
    and "ev_result root = Some (jprint (file_json key))" "utf8_sanitize key = key" "key \<noteq> []"
    and "db_up E" "\<And>t. get_object E t key = Inr (jprint (page_json page), None)" "\<And>t. put_object E t = None"
  shows "value_of (GenerateReport E True task) w = None
    \<and> (\<exists>csv. objects (final (GenerateReport E True task) w) = objects w
        @ [\<lparr> so_key = report_key task, so_content_type = ''text/csv'', so_body = csv \<rparr>]
      \<and> csv_read csv = Some (report_rows (normal_page page)))
    \<and> (\<exists>now. lookup (final (GenerateReport E True task) w) (wt_id task)
        = map_option (result_row now (Some (jprint (file_json (report_key task))))) (lookup w (wt_id task)))"
  by (rule report_stored) (fact assms)+

text \<open>The scenario: the task at the root has its page, and the store gives it back.\<close>

definition page0 :: scraped_page where
  "page0 = \<lparr> sp_url = ''http://a'', sp_title = ''Say '' @ [DQUOTE] @ ''hi'' @ [DQUOTE], sp_headings = [''a, b''],
    sp_paragraphs = [], sp_links = [], sp_scraped_at = ''2027-01-15T08:00:00Z'' \<rparr>"

definition with_page :: env where
  "with_page = calm\<lparr> get_object := (\<lambda>t k. Inr (jprint (page_json page0), None)) \<rparr>"

definition world_scraped :: world where
  "world_scraped = world0\<lparr> events := [event0\<lparr> ev_result := Some (jprint (file_json ''scraped/e1.json'')) \<rparr>] \<rparr>"

definition report_task :: worker_task where
  "report_task = \<lparr> wt_id = ''c1'', wt_type = ''generate_report'', wt_payload = ''{}'', wt_priority = [],
    wt_status = ''processing'', wt_metadata = [''root_task_id'' \<mapsto> ''e1''] \<rparr>"

theorem report_follows_scrape_witness:
  "value_of (GenerateReport with_page True report_task) world_scraped = None
    \<and> (\<exists>csv. objects (final (GenerateReport with_page True report_task) world_scraped)
        = [\<lparr> so_key = ''reports/c1.csv'', so_content_type = ''text/csv'', so_body = csv \<rparr>]
      \<and> csv_read csv = Some (report_rows (normal_page page0)))"
proof -
  have "unmarshal decode_scraped_key [] ''{}'' = ([], True)" by code_simp
  moreover have "db_up with_page" using calm_up(1) by (simp add: with_page_def db_up_def answers_def)
  moreover have "utf8_sanitize ''scraped/e1.json'' = ''scraped/e1.json''" by code_simp
  ultimately show ?thesis
    using report_follows_scrape [of report_task world_scraped "event0\<lparr> ev_result := Some (jprint (file_json ''scraped/e1.json'')) \<rparr>"
        "''scraped/e1.json''" with_page page0]
    by (simp add: report_task_def meta_def text_or_empty_def world_scraped_def lookup_def find_row_Cons event0_def
        with_page_def report_key_def world0_def)
qed

section \<open>Images\<close>

lemma resize_None:
  assumes "value_of (ResizeImage E S storage task) w = None"
  obtains p raw ct data where "unmarshal decode_resize empty_resize (wt_payload task) = (p, True)"
    "value_of (fetch_image S (rp_image_url p)) w = Inr raw" "convert S (with_defaults p) raw = Inr (ct, data)"
    "value_of (store_file E ''resize'' task (resize_key task (with_defaults p)) ct data)
      (final (fetch_image S (rp_image_url p)) w) = None"
    "final (ResizeImage E S storage task) w = final (store_file E ''resize'' task (resize_key task (with_defaults p)) ct data)
      (final (fetch_image S (rp_image_url p)) w)"
proof -
  have url [simp]: "rp_image_url (with_defaults p) = rp_image_url p" for p by (simp add: with_defaults_def)
  obtain p ok where p: "unmarshal decode_resize empty_resize (wt_payload task) = (p, ok)" by fastforce
  moreover from p have ok: "ok" using assms by (auto simp: ResizeImage_def split: if_splits)
  moreover obtain raw where raw: "value_of (fetch_image S (rp_image_url p)) w = Inr raw"
    using assms p ok by (cases "value_of (fetch_image S (rp_image_url p)) w") (auto simp: ResizeImage_def Let_def)
  moreover obtain ct data where c: "convert S (with_defaults p) raw = Inr (ct, data)"
    using assms p ok raw by (cases "convert S (with_defaults p) raw") (auto simp: ResizeImage_def Let_def)
  ultimately show thesis
    using assms by (intro that [of p raw ct data]) (auto simp: ResizeImage_def Let_def split: if_splits)
qed

text \<open>
  C26: When the resizer reports success, it fetched at most ten megabytes from the url of the
  payload and stored one image, PNG or JPEG, under the key of the task; and when the payload had
  passed validation, that key ends in the format stored.
\<close>

theorem resize_stores_image:
  assumes "value_of (ResizeImage E S storage task) w = None"
  shows "\<exists>p raw ct data. unmarshal decode_resize empty_resize (wt_payload task) = (p, True)
    \<and> value_of (fetch_image S (rp_image_url p)) w = Inr raw \<and> length raw \<le> max_image_bytes
    \<and> convert S (with_defaults p) raw = Inr (ct, data)
    \<and> objects (final (ResizeImage E S storage task) w) = objects w
        @ [\<lparr> so_key = resize_key task (with_defaults p), so_content_type = ct, so_body = data \<rparr>]
    \<and> (ct = ''image/png'' \<or> ct = ''image/jpeg'')
    \<and> (check_resize p = None \<longrightarrow> ct = ''image/'' @ rp_output_format (with_defaults p))
    \<and> queue_log (final (ResizeImage E S storage task) w) = queue_log w"
proof (rule resize_None [OF assms])
  fix p raw ct data
  assume run: "unmarshal decode_resize empty_resize (wt_payload task) = (p, True)"
    "value_of (fetch_image S (rp_image_url p)) w = Inr raw" "convert S (with_defaults p) raw = Inr (ct, data)"
    "value_of (store_file E ''resize'' task (resize_key task (with_defaults p)) ct data)
      (final (fetch_image S (rp_image_url p)) w) = None"
    "final (ResizeImage E S storage task) w = final (store_file E ''resize'' task (resize_key task (with_defaults p)) ct data)
      (final (fetch_image S (rp_image_url p)) w)"
  have ct: "ct = (if is_png (rp_output_format (with_defaults p)) then ''image/png'' else ''image/jpeg'')"
    using run(3) by (auto simp: convert_def encoded_def split: sum.splits if_splits)
  moreover have "ct = ''image/'' @ rp_output_format (with_defaults p)" if "check_resize p = None"
    using valid_format(1) [OF that] ct by (auto simp: is_png_def)
  ultimately show ?thesis
    using run(1-3) fetch_image_bounds [OF run(2)] store_file_None(1,3) [OF run(4)]
    unfolding run(5) by (intro exI [of _ p] exI [of _ raw] exI [of _ ct] exI [of _ data]) (simp add: fetch_image_final)
qed

definition resize_task :: worker_task where
  "resize_task = \<lparr> wt_id = ''r1'', wt_type = ''resize_image'',
    wt_payload = ''{\"image_url\":\"http://a\",\"width\":2,\"height\":2,\"output_format\":\"png\"}'', wt_priority = [],
    wt_status = [], wt_metadata = Map.empty \<rparr>"

theorem resize_stores_image_witness:
  "objects (final (ResizeImage calm web0 True resize_task) world0)
    = [\<lparr> so_key = ''resized/r1.png'', so_content_type = ''image/png'', so_body = ''png'' \<rparr>]"
proof -
  define p where "p = \<lparr> rp_image_url = ''http://a'', rp_width = 2, rp_height = 2, rp_mode = [],
    rp_output_format = ''png'', rp_quality = 0 \<rparr>"
  have d: "unmarshal decode_resize empty_resize (wt_payload resize_task) = (p, True)"
    unfolding p_def by code_simp
  have c: "convert web0 (with_defaults p) raw = Inr (''image/png'', ''png'')" for raw
    by (simp add: convert_def web0_def encoded_def with_defaults_def p_def is_png_def)
  have "value_of (fetch_image web0 url) w = Inr ''<html>''" for url and w :: world
    by (simp add: fetch_image_def safe_get_def limited_def max_image_bytes_def web0_def [THEN arg_cong, of new_request_error])
  then have "value_of (ResizeImage calm web0 True resize_task) world0 = None"
    using d c by (simp add: ResizeImage_def Let_def store_file_up)
  from resize_stores_image [OF this] show ?thesis
    using d c by (auto simp: resize_key_def resize_task_def with_defaults_def p_def world0_def)
qed

end
