(* ===== verification/Pool_Runs.thy ===== *)
theory Pool_Runs
  imports Results Web_Properties
begin

text \<open>
  Runs of the worker pool on a healthy system: what running a page and running a report leave
  behind, and that the statuses and attempts the pool writes between them do not matter.
\<close>

section \<open>What the pool writes between the runs\<close>

fun bookkeeping :: "action \<Rightarrow> bool" where
  "bookkeeping (SetStatus i st) = True"
| "bookkeeping (Attempt i st n err) = True"
| "bookkeeping a = False"

text \<open>What the handlers read of a row is not touched; neither are the queue and the objects.\<close>

definition read_part :: "event \<Rightarrow> (string \<times> string \<times> string \<times> int option \<times> string \<times> string option \<times> string option
    \<times> int option) \<times> string option" where
  "read_part e = (row_core e, ev_result e)"

definition undisturbed :: "'x world_scheme \<Rightarrow> 'x world_scheme \<Rightarrow> bool" where
  "undisturbed w w' \<longleftrightarrow> map read_part (events w') = map read_part (events w)
    \<and> queue_log w' = queue_log w \<and> objects w' = objects w \<and> tick w \<le> tick w'"

lemma undisturbed_refl [simp]: "undisturbed w w"
  by (simp add: undisturbed_def)

lemma undisturbed_trans: "undisturbed w w' \<Longrightarrow> undisturbed w' w'' \<Longrightarrow> undisturbed w w''"
  by (auto simp: undisturbed_def)

lemma find_read_part:
  "map read_part es' = map read_part es \<Longrightarrow>
    map_option read_part (find_row ev_id i es') = map_option read_part (find_row ev_id i es)"
proof (induction es' arbitrary: es)
  case (Cons e' es')
  then obtain e es0 where es: "es = e # es0" by (cases es) auto
  with Cons have e: "read_part e' = read_part e" "map read_part es' = map read_part es0" by auto
  then have "ev_id e' = ev_id e" by (simp add: read_part_def row_core_def)
  then show ?case using Cons.IH [of es0] e by (simp add: es find_row_Cons)
qed simp

lemma undisturbed_lookup: "undisturbed w w' \<Longrightarrow> map_option read_part (lookup w' i) = map_option read_part (lookup w i)"
  unfolding undisturbed_def lookup_def by (elim conjE) (rule find_read_part)

lemma undisturbed_row:
  assumes "undisturbed w w'" "lookup w i = Some e"
  obtains e' where "lookup w' i = Some e'" "read_part e' = read_part e"
  using undisturbed_lookup [OF assms(1), of i] assms(2) by (cases "lookup w' i") auto

lemma undisturbed_ids: "undisturbed w w' \<Longrightarrow> lookup w' i = None \<longleftrightarrow> lookup w i = None"
  by (metis undisturbed_lookup option.map_disc_iff)

lemma exec_ticks:
  assumes "\<And>now v a v'. f now v = Inr (a, v') \<Longrightarrow> tick v' = tick v"
  shows "keeps (\<lambda>w. n \<le> tick w) (db_exec E f)"
  using assms by (auto simp: keeps_def db_exec_def split: sum.split option.split dest: le_SucI)

lemma status_undisturbed: "undisturbed w (final (RepoUpdateEventStatus E i st) w)"
proof -
  have row: "read_part (status_row now s e) = read_part e" for now s e
    by (simp add: read_part_def status_row_def row_core_def stamp_def)
  have "frames (\<lambda>w. map read_part (events w)) (UpdateEventStatus E i s)" for s
    unfolding statements by (rule frames_exec) (auto simp: map_update_rows row)
  moreover have "keeps (\<lambda>w. n \<le> tick w) (UpdateEventStatus E i s)" for n s
    unfolding statements by (rule exec_ticks, auto)
  ultimately have "map read_part (events (final (RepoUpdateEventStatus E i st) w)) = map read_part (events w)"
    "tick w \<le> tick (final (RepoUpdateEventStatus E i st) w)"
    unfolding RepoUpdateEventStatus_def by (blast dest: framesD, blast dest: keepsD)
  then show ?thesis
    by (simp add: undisturbed_def framesD [OF save_frames(2) [of queue_log, simplified]]
        framesD [OF save_frames(2) [of objects, simplified]])
qed

lemma attempt_undisturbed: "undisturbed w (final (LogDeliveryStatus E i st n err) w)"
proof -
  have "frames g (LogDeliveryStatus E i st n err)"
    if "\<And>w t. g (w\<lparr> tick := t \<rparr>) = g w" "\<And>w ls. g (w\<lparr> delivery_logs := ls \<rparr>) = g w"
    for g :: "'a world_scheme \<Rightarrow> 'c"
    unfolding LogDeliveryStatus_def by (intro statement_frames(8) that)
  note same = this [THEN framesD]
  have "keeps (\<lambda>v. tick w \<le> tick v) (LogDeliveryStatus E i st n err)"
    unfolding LogDeliveryStatus_def statements by (rule exec_ticks) (auto split: option.splits if_splits)
  from keepsD [OF this order_refl] show ?thesis by (simp add: undisturbed_def same)
qed

lemma bookkeeping_step:
  fixes w :: "'x world_scheme"
  assumes "bookkeeping a"
  shows "\<exists>w'. step E D S w a w' \<and> undisturbed w w'"
  using assms status_undisturbed attempt_undisturbed
  by (cases a) (fastforce simp: step_simps UpdateStatus_def RecordAttempt_def)+

lemma bookkeeping_steps:
  fixes w :: "'x world_scheme"
  assumes "list_all bookkeeping as"
  shows "\<exists>w'. steps E D S w as w' \<and> undisturbed w w'"
  using assms
proof (induction as arbitrary: w)
  case (Cons a as)
  then have "bookkeeping a" by simp
  from bookkeeping_step [OF this] obtain w1 where w1: "step E D S w a w1" "undisturbed w w1" by blast
  obtain w2 where "steps E D S w1 as w2" "undisturbed w1 w2" using Cons by auto
  with w1 show ?case using undisturbed_trans by auto
qed auto

section \<open>One run\<close>

lemma get_task:
  "db_up E \<Longrightarrow> lookup w i = Some e \<Longrightarrow> value_of (GetTask E i) w = Inr (task_of e)"
  "final (GetTask E i) w = next_state w"
  by (simp_all add: GetTask_def get_event_value)

definition page_file :: "string \<Rightarrow> scraped_page \<Rightarrow> stored_object" where
  "page_file i page = \<lparr> so_key = ''scraped/'' @ i @ ''.json'', so_content_type = ''application/json'',
    so_body = jprint (page_json page) \<rparr>"

definition report_file :: "string \<Rightarrow> string \<Rightarrow> stored_object" where
  "report_file j csv = \<lparr> so_key = ''reports/'' @ j @ ''.csv'', so_content_type = ''text/csv'', so_body = csv \<rparr>"

text \<open>Creating the next step leaves every row that is there.\<close>

lemma create_next_keeps_row:
  fixes w :: "'x world_scheme"
  assumes "lookup w i = Some e"
  shows "lookup (final (create_next E task nxt) w) i = Some e"
proof -
  have save: "\<exists>es. events (final (SaveProcessedEvent E i ty pl st tr pr pa sch) v) = events v @ es"
    for i ty pl st tr pr pa sch and v :: "'x world_scheme"
    by (auto simp: SaveProcessedEvent_def InsertEvent_def db_exec_def split: option.split)
  have "\<exists>es. events (final (create_next E task nxt) w) = events w @ es"
  proof (cases "marshal_request nxt")
    case None
    then show ?thesis by (simp add: create_next_def)
  next
    case (Some full)
    have "frames events (enqueue_or_schedule E i p ex :: ('x world_scheme, unit result) state)" for i p ex
      unfolding enqueue_or_schedule_def by (intro frame)
    then have enq: "events (final (enqueue_or_schedule E i p ex) v) = events v" for i p ex and v :: "'x world_scheme"
      by (rule framesD)
    show ?thesis
      using save [where v = "next_state w"] Some by (simp add: create_next_def enq split: sum.split)
  qed
  then show ?thesis using assms by (auto simp: lookup_def find_row_append)
qed

text \<open>The pool runs a task that is stored with the handler registered for its type.\<close>

lemma task_step:
  assumes "db_up E" "lookup w i = Some e" "map_of (task_handlers E S (storage_ready D)) (wt_type (task_of e)) = Some h"
  shows "step E D S w (RunTask i) (final (Wrap E h (task_of e)) (next_state w))"
proof -
  have "step E D S w (RunTask i) (final (Wrap E h (task_of e)) (final (GetTask E i) w))"
    by (rule step.run_task) (simp_all add: get_task(1) [OF assms(1,2)] mux_def assms(3))
  then show ?thesis by (simp add: get_task(2))
qed

text \<open>With the database and the queue up, a success stores the next step and queues it.\<close>

context worker_handler
begin

lemma run_queued:
  assumes "value_of (h task) w = None" "declared_next task = Some nxt" "marshal_request nxt = Some full"
    "db_up E" "queue_up E" "\<And>t. tick w \<le> t \<Longrightarrow> lookup w (new_uuid E t) = None"
  obtains t where "lookup w (new_uuid E t) = None"
    "objects (final (Wrap E h task) w) = objects (final (h task) w)"
    "queue_log (final (Wrap E h task) w) = queue_log w @ [submitted (new_uuid E t) nxt]"
    "lookup (final (Wrap E h task) w) (new_uuid E t) = Some (child_row E (Suc t) (new_uuid E t) task nxt full)"
    "\<forall>k e. lookup (final (h task) w) k = Some e \<longrightarrow> lookup (final (Wrap E h task) w) k = Some e"
proof -
  define w1 where "w1 = final (h task) w"
  define j where "j = new_uuid E (tick w1)"
  have "tick w \<le> tick w1" unfolding w1_def by (rule keepsD [OF time_passes]) simp
  then have new: "lookup w j = None" using assms(6) by (simp add: j_def)
  then have fresh: "lookup w1 j = None"
    unfolding w1_def using keeps_ids [of task w] by (metis lookup_None list.set_map)
  have wrap: "final (Wrap E h task) w = final (create_next E task nxt) w1"
    unfolding w1_def by (rule Wrap_next(2)) (rule assms(1,2))+
  have "value_of (create_next E task nxt) w1 = None"
    using fresh by (intro create_next_up [OF assms(3-5)]) (simp add: j_def)
  then have child: "events (final (create_next E task nxt) w1) = events w1 @ [child_row E (Suc (tick w1)) j task nxt full]"
    "queue_log (final (create_next E task nxt) w1) = queue_log w1 @ [submitted j nxt]"
    using create_next_None [of E task nxt w1] assms(3) by (auto simp: j_def)
  show thesis
  proof (rule that [of "tick w1"])
    show "lookup (final (Wrap E h task) w) (new_uuid E (tick w1))
        = Some (child_row E (Suc (tick w1)) (new_uuid E (tick w1)) task nxt full)"
      using lookup_snoc [OF child(1), of j] fresh [unfolded lookup_None] by (simp add: wrap j_def)
    show "queue_log (final (Wrap E h task) w) = queue_log w @ [submitted (new_uuid E (tick w1)) nxt]"
      using child(2) framesD [OF no_queue_call, of task w] by (simp add: wrap w1_def j_def)
    show "\<forall>k e. lookup (final (h task) w) k = Some e \<longrightarrow> lookup (final (Wrap E h task) w) k = Some e"
      by (simp add: wrap w1_def create_next_keeps_row)
  qed (use new in \<open>simp_all add: wrap w1_def j_def objects_view.next_step_kept\<close>)
qed

end

text \<open>Every step has a result; that of the scraper and what follows it.\<close>

lemma scrape_run:
  fixes w :: "'x world_scheme"
  assumes up: "db_up E" "queue_up E" "\<And>t. put_object E t = None" "storage_ready D"
    and e: "lookup w i = Some e" "request_ok q" "marshal_request q = Some (ev_payload e)" "ev_type e = ''scrape_url''"
    and url: "unmarshal decode_url [] (normal_raw (tr_payload q)) = (url, True)" "url \<noteq> []"
    and site: "\<And>v :: 'x world_scheme. \<exists>page. value_of (scrape_page E S url) v = Inr page"
    and nxt: "next_step q = Some nxt" "marshal_request nxt = Some full"
    and free: "\<And>t. tick w \<le> t \<Longrightarrow> lookup w (new_uuid E t) = None"
  obtains w2 page t e2 where "lookup w (new_uuid E t) = None"
    "step E D S w (RunTask i) w2" "page_ok page" "sp_url page = url"
    "value_of (scrape_page E S url) (next_state w) = Inr page" "objects w2 = objects w @ [page_file i page]"
    "queue_log w2 = queue_log w @ [submitted (new_uuid E t) nxt]"
    "lookup w2 i = Some e2" "ev_result e2 = Some (jprint (file_json (''scraped/'' @ i @ ''.json'')))"
    "lookup w2 (new_uuid E t) = Some (child_row E (Suc t) (new_uuid E t) (task_of e) nxt full)"
proof -
  define task where "task = task_of e"
  define w1 where "w1 = next_state w"
  define h where "h = (ScrapeURL E S True :: 'x handler)"
  note reads = task_reads_request [OF e(2,3) refl, folded task_def]
  have i: "wt_id task = i" using reads lookup_id [OF e(1)] by simp
  have w1: "objects w1 = objects w" "queue_log w1 = queue_log w" "lookup w1 k = lookup w k" for k
    by (simp_all add: w1_def)
  obtain page0 where "value_of (scrape_page E S url) w1 = Inr page0" using site by blast
  then have ok: "value_of (h task) w1 = None" using reads url up(1,3) by (simp add: h_def ScrapeURL_def store_file_up)
  have key: "scrape_key task = ''scraped/'' @ i @ ''.json''" by (simp add: scrape_key_def i)
  obtain u page now where stored: "unmarshal decode_url [] (wt_payload task) = (u, True)" "sp_url page = u" "page_ok page"
    "value_of (scrape_page E S u) w1 = Inr page" "objects (final (h task) w1) = objects w1 @ [page_file i page]"
    "\<forall>j. lookup (final (h task) w1) j = (if j = i
      then map_option (result_row now (Some (jprint (file_json (''scraped/'' @ i @ ''.json''))))) (lookup w1 j) else lookup w1 j)"
    using scrape_stored [OF ok [unfolded h_def], unfolded key i page_file_def [symmetric]] unfolding h_def by blast
  have u: "u = url" using stored(1) url(1) reads by simp
  have next_of: "declared_next task = Some nxt" using declared_next_row [OF e(2,3) refl] nxt(1) by (simp add: task_def)
  have free': "lookup w1 (new_uuid E t) = None" if "tick w1 \<le> t" for t using that free [of t] by (simp add: w1_def)
  define w2 where "w2 = final (Wrap E h task) w1"
  obtain t where child: "lookup w1 (new_uuid E t) = None" "objects w2 = objects (final (h task) w1)"
    "queue_log w2 = queue_log w1 @ [submitted (new_uuid E t) nxt]"
    "lookup w2 (new_uuid E t) = Some (child_row E (Suc t) (new_uuid E t) task nxt full)"
    "\<forall>k e. lookup (final (h task) w1) k = Some e \<longrightarrow> lookup w2 k = Some e"
    unfolding w2_def h_def
    by (rule worker_handler.run_queued [OF scrape.worker_handler_axioms ok [unfolded h_def] next_of nxt(2) up(1,2) free'])
  define e2 where "e2 = result_row now (Some (jprint (file_json (''scraped/'' @ i @ ''.json'')))) e"
  have "map_of (task_handlers E S (storage_ready D)) (wt_type (task_of e)) = Some h"
    using reads e(4) up(4) by (simp add: task_handlers_def h_def task_def)
  from task_step [OF up(1) e(1) this] have run: "step E D S w (RunTask i) w2" by (simp add: w2_def w1_def task_def)
  have "lookup w2 i = Some e2" using child(5) stored(6) e(1) by (simp add: w1 e2_def)
  moreover have "ev_result e2 = Some (jprint (file_json (''scraped/'' @ i @ ''.json'')))"
    by (simp add: e2_def result_row_def stamp_def)
  ultimately show thesis
    using that [OF _ run] child stored u by (simp add: w1 w1_def task_def)
qed

lemma report_run:
  fixes w :: "'x world_scheme"
  assumes up: "db_up E" "\<And>t. put_object E t = None" "storage_ready D"
    and e: "lookup w j = Some e" "request_ok q" "marshal_request q = Some (ev_payload e)" "ev_type e = ''generate_report''"
      "ev_parentid e = Some i" "i \<noteq> []"
    and params: "unmarshal decode_scraped_key [] (normal_raw (tr_payload q)) = ([], True)"
    and root: "lookup w i = Some r" "ev_result r = Some (jprint (file_json key))" "utf8_sanitize key = key" "key \<noteq> []"
    and page: "\<And>t. get_object E t key = Inr (jprint (page_json page), None)"
  obtains w2 csv e2 where "step E D S w (RunTask j) w2" "objects w2 = objects w @ [report_file j csv]"
    "csv_read csv = Some (report_rows (normal_page page))"
    "lookup w2 j = Some e2" "ev_result e2 = Some (jprint (file_json (''reports/'' @ j @ ''.csv'')))"
proof -
  define task where "task = task_of e"
  define w1 where "w1 = next_state w"
  define h :: "'x handler" where "h = GenerateReport E True"
  define w2 where "w2 = final (Wrap E h task) w1"
  note reads = task_reads_request [OF e(2,3) refl, folded task_def]
  have j: "wt_id task = j" using reads lookup_id [OF e(1)] by simp
  have i: "meta task ''root_task_id'' = i" using reads e(5,6) by (simp add: meta_def text_or_empty_def)
  have w1: "objects w1 = objects w" "lookup w1 k = lookup w k" for k by (simp_all add: w1_def)
  have payload: "unmarshal decode_scraped_key [] (wt_payload task) = ([], True)" using params reads by simp
  have at_root: "meta task ''root_task_id'' \<noteq> []" "lookup w1 (meta task ''root_task_id'') = Some r"
    using e(6) root(1) by (simp_all add: i w1)
  have key: "report_key task = ''reports/'' @ j @ ''.csv''" by (simp add: report_key_def j)
  obtain csv now where run: "value_of (h task) w1 = None" "objects (final (h task) w1) = objects w1 @ [report_file j csv]"
    "csv_read csv = Some (report_rows (normal_page page))"
    "lookup (final (h task) w1) j = map_option (result_row now (Some (jprint (file_json (''reports/'' @ j @ ''.csv''))))) (lookup w1 j)"
    using report_stored [OF payload at_root root(2-4) up(1) page up(2), unfolded j key report_file_def [symmetric]]
    unfolding h_def by blast
  define e2 where "e2 = result_row now (Some (jprint (file_json (''reports/'' @ j @ ''.csv'')))) e"
  have e2: "lookup (final (h task) w1) j = Some e2" using run(4) e(1) w1(2) by (simp add: e2_def)
  have "objects w2 = objects (final (h task) w1) \<and> lookup w2 j = Some e2"
  proof (cases "declared_next task")
    case None
    then show ?thesis using run(1) e2 by (auto simp: w2_def Wrap_def declared_next_def split: if_splits prod.splits)
  next
    case (Some nxt)
    then show ?thesis using Wrap_next(2) [of h task w1 nxt E] run(1) create_next_keeps_row [OF e2]
      by (simp add: w2_def objects_view.next_step_kept)
  qed
  moreover have "map_of (task_handlers E S (storage_ready D)) (wt_type (task_of e)) = Some h"
    using reads e(4) up(3) by (simp add: task_handlers_def h_def task_def)
  from task_step [OF up(1) e(1) this] have "step E D S w (RunTask j) w2" by (simp add: w2_def w1_def task_def)
  moreover have "ev_result e2 = Some (jprint (file_json (''reports/'' @ j @ ''.csv'')))"
    by (simp add: e2_def result_row_def stamp_def)
  ultimately show thesis using run(2,3) w1(1) by (intro that [of w2 csv e2]) simp_all
qed

end
