(* ===== verification/Pipeline.thy ===== *)
theory Pipeline
  imports Submissions Pool_Runs
begin

text \<open>
  The platform from end to end: a page is submitted with a report as its next step; the pool runs
  both tasks; the report of that page is in the object store. Between the runs the pool may set
  statuses and record attempts as it likes.
\<close>

section \<open>The submission\<close>

lemma submit_run:
  fixes w :: "'x world_scheme"
  assumes "db_up E" "queue_up E" "db_ok w" "submission rq body"
    and "decode_stream decode_request empty_request body = (r, True)" "passes (default_priority r)" "tr_execute_at r = None"
    and "key_row w (request_key (default_priority r)) = None" "\<And>t. lookup w (new_uuid E t) = None" "writable_times r"
  obtains w1 t e q where "w1 = final (handle_request E D rq trace_id reads) w" "rs_status (reply E D rq trace_id reads w) = 200"
    "lookup w1 (new_uuid E t) = Some e" "\<forall>k. k \<noteq> new_uuid E t \<longrightarrow> lookup w1 k = lookup w k" "t < tick w1"
    "objects w1 = objects w" "queue_log w1 = queue_log w @ [submitted (new_uuid E t) (default_priority r)]"
    "request_ok q" "marshal_request q = Some (ev_payload e)" "ev_type e = tr_type r" "ev_parentid e = None"
    "tr_payload q = tr_payload r" "tr_next q = tr_next r"
proof -
  define w1 where "w1 = final (handle_request E D rq trace_id reads) w"
  obtain ctx and v :: "'x world_scheme" where s: "tables v = tables w"
    "reply E D rq trace_id reads w = value_of (HandleCreateTask E ctx body) v"
    "tables w1 = tables (final (HandleCreateTask E ctx body) v)"
    "tick (final (HandleCreateTask E ctx body) v) < tick w1"
    unfolding w1_def by (rule submission_served [OF assms(4), of w E D trace_id reads])
  define v' where "v' = final (HandleCreateTask E ctx body) v"
  note same = same_tables [OF s(1)]
  have pre: "db_ok v" "unprotected E v (request_key (default_priority r))" "\<forall>t\<ge>tick v. lookup v (new_uuid E t) = None"
    using same assms(3,8,9) by (simp_all add: unprotected_None)
  obtain t row where up: "rs_status (value_of (HandleCreateTask E ctx body) v) = 200" "events v' = events v @ [row]"
    "ev_id row = new_uuid E t" "t < tick v'"
    unfolding v'_def by (rule create_unprotected [OF assms(1,2) pre(1) assms(5-7) pre(2,3) assms(10), of ctx])
  obtain r' q i full u where made: "decode_stream decode_request empty_request body = (r', True)"
    "\<exists>tp. q = set_trace tp (default_priority r')" "marshal_request q = Some full"
    "events v' = events v @ [accepted_row E ctx u i q full]" "queue_log v' = queue_log v @ [submitted i q]"
    using create_200 [OF up(1)] unfolding v'_def by blast
  obtain tp where q: "q = set_trace tp (default_priority r)" using made(1,2) assms(5) by auto
  have row: "row = accepted_row E ctx u i q full" using up(2) made(4) by simp
  have i: "i = new_uuid E t" using up(3) by (simp add: row accepted_row_def saved_event_def)
  have ok: "request_ok q"
    using decoded_request [OF assms(5)] by (intro fits_ok [OF _ _ made(3)]) (simp_all add: q)
  have tabs: "events w1 = events w @ [row]" "queue_log w1 = queue_log w @ [submitted i q]" "objects w1 = objects w"
    using s(1,3) made(4,5) row by (simp_all add: tables_def v'_def w1_def objects_view.request)
  have fields: "ev_id row = i" "ev_payload row = full" "ev_type row = tr_type r" "ev_parentid row = None"
    using up(3) by (simp_all add: row i accepted_row_def saved_event_def opt_text_def q)
  have new: "i \<notin> ev_id ` set (events w)" using assms(9) [of t] by (simp add: lookup_None i)
  have rows: "lookup w1 k = (if k = i then Some row else lookup w k)" for k
    using lookup_snoc [OF tabs(1), of k] new fields(1) by (simp add: lookup_def)
  have parts: "tr_payload q = tr_payload r" "tr_next q = tr_next r" by (simp_all add: q)
  show thesis
  proof (rule that [OF w1_def])
    show "rs_status (reply E D rq trace_id reads w) = 200" using s(2) up(1) by simp
    show "lookup w1 (new_uuid E t) = Some row" "\<forall>k. k \<noteq> new_uuid E t \<longrightarrow> lookup w1 k = lookup w k"
      by (simp_all add: rows i)
    show "t < tick w1" using up(4) s(4) by (simp add: v'_def)
    show "queue_log w1 = queue_log w @ [submitted (new_uuid E t) (default_priority r)]"
      by (simp add: tabs(2) i q submitted_def split: option.split)
    show "request_ok q" by (rule ok)
    show "marshal_request q = Some (ev_payload row)" using made(3) fields(2) by simp
  qed (use tabs(3) fields parts in simp_all)
qed

section \<open>From the submission to the report\<close>

definition gives_back :: "env \<Rightarrow> stored_object \<Rightarrow> bool" where
  "gives_back E ob \<longleftrightarrow> (\<forall>t. get_object E t (so_key ob) = Inr (so_body ob, None))"

text \<open>The report of a page is stored, as CSV a reader gets the rows of the page from, and is the result of its task.\<close>

definition reported :: "'x world_scheme \<Rightarrow> string \<Rightarrow> scraped_page \<Rightarrow> 'x world_scheme \<Rightarrow> bool" where
  "reported w j page w' \<longleftrightarrow> (\<exists>csv e. objects w' = objects w @ [report_file j csv]
    \<and> csv_read csv = Some (report_rows (normal_page page))
    \<and> lookup w' j = Some e \<and> ev_result e = Some (jprint (file_json (so_key (report_file j csv)))))"

lemma read_partD: "read_part e' = read_part e \<Longrightarrow> ev_id e' = ev_id e \<and> ev_type e' = ev_type e \<and> ev_payload e' = ev_payload e
    \<and> ev_parentid e' = ev_parentid e \<and> ev_result e' = ev_result e"
  by (simp add: read_part_def row_core_def)

text \<open>A chain that starts with a submitted page and goes on with a report.\<close>

definition page_and_report :: "task_request \<Rightarrow> string \<Rightarrow> task_request \<Rightarrow> bool" where
  "page_and_report r url n \<longleftrightarrow> unmarshal decode_url [] (normal_raw (tr_payload r)) = (url, True)
    \<and> url \<noteq> [] \<and> tr_next r = Some n \<and> tr_type n = ''generate_report''
    \<and> unmarshal decode_scraped_key [] (normal_raw (tr_payload n)) = ([], True)"

text \<open>The two runs, of a stored row and of the row it leaves behind.\<close>

lemma both_runs:
  fixes w :: "'x world_scheme"
  assumes up: "db_up E" "queue_up E" "\<And>t. put_object E t = None" "storage_ready D"
    and e: "lookup w i = Some e" "request_ok q" "marshal_request q = Some (ev_payload e)" "ev_type e = ''scrape_url''"
      "ev_parentid e = None" "i \<noteq> []" "plain i"
    and chain: "page_and_report q url n"
    and site: "\<And>v :: 'x world_scheme. \<exists>page. value_of (scrape_page E S url) v = Inr page"
    and free: "\<And>t. tick w \<le> t \<Longrightarrow> lookup w (new_uuid E t) = None" and qs: "list_all bookkeeping qs"
  obtains w2 page j where "j \<in> range (new_uuid E)" "i \<noteq> j"
    "step E D S w (RunTask i) w2" "page_ok page" "sp_url page = url"
    "value_of (scrape_page E S url) (next_state w) = Inr page" "objects w2 = objects w @ [page_file i page]"
    "queue_log w2 = queue_log w @ [submitted j (normal_request n)]"
    "gives_back E (page_file i page) \<longrightarrow> (\<exists>w3. steps E D S w2 (qs @ [RunTask j]) w3 \<and> reported w2 j page w3)"
proof -
  have url: "unmarshal decode_url [] (normal_raw (tr_payload q)) = (url, True)" "url \<noteq> []"
    and n: "tr_next q = Some n" "tr_type n = ''generate_report''"
      "unmarshal decode_scraped_key [] (normal_raw (tr_payload n)) = ([], True)"
    using chain by (simp_all add: page_and_report_def)
  have nxt: "next_step q = Some (normal_request n)" using n by (simp add: next_step_def)
  obtain m where ok: "request_ok n" "request_ok (normal_request n)"
    using next_step_ok [OF e(2) nxt] request_ok_next [OF e(2) n(1)] by metis
  then obtain full where full: "marshal_request (normal_request n) = Some full" by (auto simp: request_ok_def marshal_request_def)
  obtain w2 page t e2 where j: "lookup w (new_uuid E t) = None" and run: "step E D S w (RunTask i) w2" "page_ok page" "sp_url page = url"
    "value_of (scrape_page E S url) (next_state w) = Inr page" "objects w2 = objects w @ [page_file i page]"
    "queue_log w2 = queue_log w @ [submitted (new_uuid E t) (normal_request n)]"
    "lookup w2 i = Some e2" "ev_result e2 = Some (jprint (file_json (''scraped/'' @ i @ ''.json'')))"
    "lookup w2 (new_uuid E t) = Some (child_row E (Suc t) (new_uuid E t) (task_of e) (normal_request n) full)"
    by (rule scrape_run [OF up e(1-4) url site nxt full free])
  define j where "j = new_uuid E t"
  define c where "c = child_row E (Suc t) j (task_of e) (normal_request n) full"
  have "chain_root (task_of e) = i"
    using task_reads_request [OF e(2,3) refl] e(5,6) lookup_id [OF e(1)] by (simp add: chain_root_def meta_def text_or_empty_def)
  moreover have "utf8_sanitize ''generate_report'' = ''generate_report''" by code_simp
  ultimately have c: "ev_payload c = full" "ev_type c = ''generate_report''" "ev_parentid c = Some i"
    using e(6) n(2) by (simp_all add: c_def opt_text_def)
  show thesis
  proof (rule that [OF _ _ run(1-6)])
    show "new_uuid E t \<in> range (new_uuid E)" by simp
    show "i \<noteq> new_uuid E t" using j e(1) by auto
  next
    show "gives_back E (page_file i page) \<longrightarrow>
      (\<exists>w3. steps E D S w2 (qs @ [RunTask (new_uuid E t)]) w3 \<and> reported w2 (new_uuid E t) page w3)"
    proof
    assume given: "gives_back E (page_file i page)"
    from bookkeeping_steps [OF qs] obtain w2' where w2': "steps E D S w2 qs w2'" "undisturbed w2 w2'" by blast
    obtain c' where c': "lookup w2' j = Some c'" "read_part c' = read_part c"
      using undisturbed_row [OF w2'(2)] run(9) unfolding j_def c_def by blast
    obtain r' where r': "lookup w2' i = Some r'" "read_part r' = read_part e2"
      using undisturbed_row [OF w2'(2) run(7)] by blast
    have key: "utf8_sanitize (''scraped/'' @ i @ ''.json'') = ''scraped/'' @ i @ ''.json''"
      using e(7) by (intro plain_sanitize) (simp add: plain_simps plain_char_def is_html_def byte_def)
    have params: "unmarshal decode_scraped_key [] (normal_raw (tr_payload (normal_request n))) = ([], True)"
      using payload_normal [OF ok(1)] n(3) by (cases n) simp
    obtain w3 csv e3 where "step E D S w2' (RunTask j) w3" "objects w3 = objects w2' @ [report_file j csv]"
      "csv_read csv = Some (report_rows (normal_page page))"
      "lookup w3 j = Some e3" "ev_result e3 = Some (jprint (file_json (''reports/'' @ j @ ''.csv'')))"
    proof (rule report_run [OF up(1,3,4) c'(1) ok(2) _ _ _ e(6) params r'(1) _ key])
      show "get_object E t (''scraped/'' @ i @ ''.json'') = Inr (jprint (page_json page), None)" for t
        using given by (simp add: gives_back_def page_file_def)
    qed (use read_partD [OF c'(2)] read_partD [OF r'(2)] c full run(8) in simp_all)
    then show "\<exists>w3. steps E D S w2 (qs @ [RunTask (new_uuid E t)]) w3 \<and> reported w2 (new_uuid E t) page w3"
      using w2' by (auto simp: steps_append j_def undisturbed_def reported_def report_file_def)
    qed
  qed
qed

text \<open>The address a validated payload names is read the same from the stored text.\<close>

lemma validated_url:
  assumes "Validate ''scrape_url'' s = None"
  obtains url where "url \<noteq> []" "unmarshal decode_url [] s = (url, True)" "unmarshal decode_url [] (normal_raw s) = (url, True)"
proof -
  obtain url ok where u: "unmarshal decode_url [] s = (url, ok)" by fastforce
  then have "ok" "url \<noteq> []" using assms by (auto simp: Validate_def split: if_splits)
  moreover have "unmarshal decode_url [] (normal_raw s) = unmarshal decode_url [] s"
    using Validate_parses [OF assms] jparse_Nil
    by (intro unmarshal_compact) (auto simp: compact_def normal_raw_def raw_json_def decode_url_hesc)
  ultimately show thesis using u that by simp
qed

lemma page_to_report:
  fixes w :: "'x world_scheme"
  assumes "db_up E" "queue_up E" "\<And>t. put_object E t = None" "storage_ready D" "db_ok w"
    and "inj (new_uuid E)" "\<And>t. lookup w (new_uuid E t) = None" "\<And>t. new_uuid E t \<noteq> [] \<and> plain (new_uuid E t)"
    and "submission rq body" "decode_stream decode_request empty_request body = (r, True)"
    and "passes (default_priority r)" "tr_execute_at r = None" "writable_times r"
    and "key_row w (request_key (default_priority r)) = None"
    and "tr_type r = ''scrape_url''" "tr_next r = Some n" "tr_type n = ''generate_report''"
    and "unmarshal decode_scraped_key [] (normal_raw (tr_payload n)) = ([], True)"
    and "\<And>url (v :: 'x world_scheme). unmarshal decode_url [] (tr_payload r) = (url, True) \<Longrightarrow>
      \<exists>page. value_of (scrape_page E S url) v = Inr page"
    and "list_all bookkeeping ps" "list_all bookkeeping qs"
  shows "\<exists>url i j page w2. rs_status (reply E D rq trace_id reads w) = 200
    \<and> {i, j} \<subseteq> range (new_uuid E) \<and> i \<noteq> j \<and> steps E D S w (Request rq trace_id reads # ps @ [RunTask i]) w2
    \<and> unmarshal decode_url [] (tr_payload r) = (url, True) \<and> page_ok page
    \<and> (\<exists>v :: 'x world_scheme. value_of (scrape_page E S url) v = Inr page) \<and> objects w2 = objects w @ [page_file i page]
    \<and> queue_log w2 = queue_log w @ [submitted i (default_priority r), submitted j (normal_request n)]
    \<and> (gives_back E (page_file i page) \<longrightarrow> (\<exists>w3. steps E D S w2 (qs @ [RunTask j]) w3 \<and> reported w2 j page w3))"
proof -
  obtain w1 t e q where sub: "w1 = final (handle_request E D rq trace_id reads) w"
    "rs_status (reply E D rq trace_id reads w) = 200" "lookup w1 (new_uuid E t) = Some e"
    "\<forall>k. k \<noteq> new_uuid E t \<longrightarrow> lookup w1 k = lookup w k" "t < tick w1" "objects w1 = objects w"
    "queue_log w1 = queue_log w @ [submitted (new_uuid E t) (default_priority r)]" "request_ok q"
    "marshal_request q = Some (ev_payload e)" "ev_type e = tr_type r" "ev_parentid e = None"
    "tr_payload q = tr_payload r" "tr_next q = tr_next r"
    by (rule submit_run [OF assms(1,2,5,9-12,14,7,13), of D trace_id reads])
  define i where "i = new_uuid E t"
  from bookkeeping_steps [OF assms(20)] obtain w1' where w1': "steps E D S w1 ps w1'" "undisturbed w1 w1'" by blast
  obtain e' where e': "lookup w1' i = Some e'" "read_part e' = read_part e"
    using undisturbed_row [OF w1'(2)] sub(3) unfolding i_def by blast
  have "Validate ''scrape_url'' (tr_payload r) = None" using assms(11,15) by (simp add: passes_def)
  then obtain url where url: "url \<noteq> []" "unmarshal decode_url [] (tr_payload r) = (url, True)"
    "unmarshal decode_url [] (normal_raw (tr_payload r)) = (url, True)"
    by (rule validated_url)
  have chain: "page_and_report q url n"
    using url assms(15-18) sub(12,13) by (simp add: page_and_report_def)
  have free: "lookup w1' (new_uuid E u) = None" if "tick w1' \<le> u" for u
  proof -
    have "u \<noteq> t" using that sub(5) w1'(2) by (auto simp: undisturbed_def)
    then have "new_uuid E u \<noteq> new_uuid E t" using assms(6) by (auto dest: injD)
    then show ?thesis using undisturbed_ids [OF w1'(2)] sub(4) assms(7) by simp
  qed
  have e_i: "request_ok q" "marshal_request q = Some (ev_payload e')" "ev_type e' = ''scrape_url''" "ev_parentid e' = None"
    using sub(8-11) read_partD [OF e'(2)] assms(15) by simp_all
  have i: "i \<noteq> []" "plain i" using assms(8) by (simp_all add: i_def)
  obtain w2 page j where j: "j \<in> range (new_uuid E)" "i \<noteq> j" and run: "step E D S w1' (RunTask i) w2" "page_ok page" "sp_url page = url"
    "value_of (scrape_page E S url) (next_state w1') = Inr page" "objects w2 = objects w1' @ [page_file i page]"
    "queue_log w2 = queue_log w1' @ [submitted j (normal_request n)]"
    "gives_back E (page_file i page) \<longrightarrow> (\<exists>w3. steps E D S w2 (qs @ [RunTask j]) w3 \<and> reported w2 j page w3)"
    by (rule both_runs [OF assms(1-4) e'(1) e_i i chain assms(19) [OF url(2)] free assms(21)])
  have "steps E D S w (Request rq trace_id reads # ps @ [RunTask i]) w2"
    using w1'(1) run(1) unfolding sub(1) by (auto simp: steps_append intro!: step.request)
  moreover have "objects w2 = objects w @ [page_file i page]"
    "queue_log w2 = queue_log w @ [submitted i (default_priority r), submitted j (normal_request n)]"
    using run(5,6) w1'(2) sub(6,7) by (simp_all add: undisturbed_def i_def)
  moreover have "{i, j} \<subseteq> range (new_uuid E)" using j(1) by (simp add: i_def)
  ultimately show ?thesis using sub(2) url(2) run(2,4,7) j(2) by blast
qed

text \<open>
  C11: The platform delivers. On a healthy system a submitted page with a report as its next step
  and without an execute_at is accepted when its key is free. Whatever statuses and attempts the
  pool writes in between: running the task, when the page can be fetched, stores the page it names
  and queues the report under a fresh identifier; and when the object store gives the page back,
  running the report stores a CSV file whose rows are those of the page and makes it the result of
  its task.
\<close>

theorem report_delivered:
  fixes w :: "'x world_scheme"
  assumes "db_up E" "queue_up E" "\<And>t. put_object E t = None" "storage_ready D" "db_ok w"
    and "inj (new_uuid E)" "\<And>t. lookup w (new_uuid E t) = None" "\<And>t. new_uuid E t \<noteq> [] \<and> plain (new_uuid E t)"
    and "submission rq body" "decode_stream decode_request empty_request body = (r, True)"
    and "passes (default_priority r)" "tr_execute_at r = None" "writable_times r"
    and "key_row w (request_key (default_priority r)) = None"
    and "tr_type r = ''scrape_url''" "tr_next r = Some n" "tr_type n = ''generate_report''"
    and "unmarshal decode_scraped_key [] (normal_raw (tr_payload n)) = ([], True)"
    and "\<And>url (v :: 'x world_scheme). unmarshal decode_url [] (tr_payload r) = (url, True) \<Longrightarrow>
      \<exists>page. value_of (scrape_page E S url) v = Inr page"
    and "list_all bookkeeping ps" "list_all bookkeeping qs"
  shows "\<exists>url i j page w2. rs_status (reply E D rq trace_id reads w) = 200
    \<and> {i, j} \<subseteq> range (new_uuid E) \<and> i \<noteq> j \<and> steps E D S w (Request rq trace_id reads # ps @ [RunTask i]) w2
    \<and> unmarshal decode_url [] (tr_payload r) = (url, True) \<and> page_ok page
    \<and> (\<exists>v :: 'x world_scheme. value_of (scrape_page E S url) v = Inr page) \<and> objects w2 = objects w @ [page_file i page]
    \<and> queue_log w2 = queue_log w @ [submitted i (default_priority r), submitted j (normal_request n)]
    \<and> (gives_back E (page_file i page) \<longrightarrow> (\<exists>w3. steps E D S w2 (qs @ [RunTask j]) w3 \<and> reported w2 j page w3))"
  by (rule page_to_report) (fact assms)+

text \<open>A page and its report on the small web, with a store that gives the page back.\<close>

definition page_web :: scraped_page where
  "page_web = extractPage (clock calm 0) doc0 ''http://a''"

definition calm_store :: env where
  "calm_store = calm\<lparr> get_object := (\<lambda>t k. Inr (jprint (page_json page_web), None)) \<rparr>"

definition report_body :: string where
  "report_body = ''{\"type\":\"scrape_url\",\"payload\":{\"url\":\"http://a\"},\"next\":{\"type\":\"generate_report\",\"payload\":{}}}''"

definition report_post :: http_request where
  "report_post = post0\<lparr> hr_body := report_body \<rparr>"

definition page_req :: task_request where
  "page_req = TaskRequest ''scrape_url'' payload0 [] None (Some report_req) []"

lemma report_body: "decode_stream decode_request empty_request report_body = (page_req, True)"
  "passes (default_priority page_req)"
  by code_simp+

lemma calm_store: "db_up calm_store" "queue_up calm_store" "put_object calm_store t = None" "inj (new_uuid calm_store)"
  "new_uuid calm_store t \<noteq> [] \<and> plain (new_uuid calm_store t)" "clock calm_store t = clock calm 0"
proof -
  show "db_up calm_store" "queue_up calm_store" "put_object calm_store t = None" "clock calm_store t = clock calm 0"
    by (simp_all add: calm_store_def calm_def db_up_def queue_up_def answers_def)
  show "inj (new_uuid calm_store)" using calm_uuids(1) by (simp add: calm_store_def)
  show "new_uuid calm_store t \<noteq> [] \<and> plain (new_uuid calm_store t)"
    by (simp add: calm_store_def calm_def plain_simps plain_char_def is_html_def byte_def)
qed

lemma page_site: "unmarshal decode_url [] (tr_payload page_req) = (url, True) \<Longrightarrow>
    \<exists>page. value_of (scrape_page calm_store web0 url) (v :: world) = Inr page"
  by (simp add: scrape_page0)

lemma page_req: "tr_execute_at page_req = None" "writable_times page_req" "tr_type page_req = ''scrape_url''"
  "tr_next page_req = Some report_req" "tr_type report_req = ''generate_report''"
  "unmarshal decode_scraped_key [] (normal_raw (tr_payload report_req)) = ([], True)"
proof -
  have "unmarshal decode_scraped_key [] (normal_raw ''{}'') = ([], True)" by code_simp
  then show "unmarshal decode_scraped_key [] (normal_raw (tr_payload report_req)) = ([], True)" by (simp add: report_req_def)
qed (simp_all add: page_req_def report_req_def)

lemma small_platform: "submission report_post report_body" "storage_ready D0"
  "list_all bookkeeping [SetStatus ''id-9'' ''processing'']" "list_all bookkeeping []"
  by (simp_all add: submission_def report_post_def post0_def D0_def)

lemmas small_facts = calm_store(1-3) small_platform(2) world0_ok calm_store(4) world0_free(1) calm_store(5) small_platform(1)
  report_body page_req(1,2) world0_free(2) page_req(3-6) page_site small_platform(3,4)

text \<open>What the page of the small web is, and that the store gives it back.\<close>

lemma small_delivery:
  assumes "\<exists>url i j page w2. rs_status (reply calm_store D0 report_post tid reads world0) = 200
    \<and> {i, j} \<subseteq> range (new_uuid calm_store) \<and> i \<noteq> j \<and> steps calm_store D0 web0 world0 (Request report_post tid reads # [SetStatus ''id-9'' ''processing''] @ [RunTask i]) w2
    \<and> unmarshal decode_url [] (tr_payload page_req) = (url, True) \<and> page_ok page
    \<and> (\<exists>v :: world. value_of (scrape_page calm_store web0 url) v = Inr page) \<and> objects w2 = objects world0 @ [page_file i page]
    \<and> queue_log w2 = queue_log world0 @ [submitted i (default_priority page_req), submitted j (normal_request report_req)]
    \<and> (gives_back calm_store (page_file i page) \<longrightarrow>
        (\<exists>w3. steps calm_store D0 web0 w2 ([] @ [RunTask j]) w3 \<and> reported w2 j page w3))"
  shows "\<exists>i j w2 w3. j \<in> range (new_uuid calm_store) \<and> objects w2 = [page_file i page_web] \<and> reported w2 j page_web w3
    \<and> steps calm_store D0 web0 world0 [Request report_post tid reads, SetStatus ''id-9'' ''processing'', RunTask i, RunTask j] w3"
proof -
  obtain url i j page w2 where j: "{i, j} \<subseteq> range (new_uuid calm_store)" and run:
    "steps calm_store D0 web0 world0 (Request report_post tid reads # [SetStatus ''id-9'' ''processing''] @ [RunTask i]) w2"
    "unmarshal decode_url [] (tr_payload page_req) = (url, True)"
    "\<exists>v :: world. value_of (scrape_page calm_store web0 url) v = Inr page" "objects w2 = objects world0 @ [page_file i page]"
    "gives_back calm_store (page_file i page) \<longrightarrow> (\<exists>w3. steps calm_store D0 web0 w2 ([] @ [RunTask j]) w3 \<and> reported w2 j page w3)"
    using assms by (elim exE conjE) (rule that, assumption, assumption, assumption, rule exI)
  have page: "page = page_web" using run(2,3) by (auto simp: url0 page_req_def scrape_page0 page_web_def calm_store(6))
  then have "gives_back calm_store (page_file i page)" by (simp add: gives_back_def page_file_def calm_store_def)
  with run(5) obtain w3 where w3: "steps calm_store D0 web0 w2 [RunTask j] w3" "reported w2 j page w3" by auto
  have "steps calm_store D0 web0 world0 [Request report_post tid reads, SetStatus ''id-9'' ''processing'', RunTask i, RunTask j] w3"
    using run(1) w3(1) by auto
  moreover have "objects w2 = [page_file i page_web]" using run(4) page by (simp add: world0_def)
  moreover have "j \<in> range (new_uuid calm_store)" using j by simp
  ultimately show ?thesis using w3(2) page by blast
qed

theorem report_delivered_witness:
  "\<exists>i j w2 w3. j \<in> range (new_uuid calm_store) \<and> objects w2 = [page_file i page_web] \<and> reported w2 j page_web w3
    \<and> steps calm_store D0 web0 world0 [Request report_post ''t1'' [99], SetStatus ''id-9'' ''processing'', RunTask i, RunTask j] w3"
  by (rule small_delivery, rule report_delivered) (fact small_facts)+

text \<open>The result of the report, once the pool has marked it processed.\<close>

theorem result_answered_witness:
  "\<exists>j (w :: world). reply calm_store D0 \<lparr> hr_method = ''GET'', hr_path = ''/tasks/'' @ j @ ''/result'', hr_query = (\<lambda>k. []), hr_body = [],
      hr_remote = ''10.1.2.3:5000'' \<rparr> ''t2'' [] w
    = \<lparr> rs_status = 200, rs_content_type = ''application/json'', rs_body = jprint (download_json j ''http://minio/'') \<rparr>"
proof -
  obtain i t j and w2 w3 :: world where j: "j = new_uuid calm_store t" and run: "reported w2 j page_web w3"
    "steps calm_store D0 web0 world0 [Request report_post ''t1'' [99], SetStatus ''id-9'' ''processing'', RunTask i, RunTask j] w3"
    using small_delivery [OF page_to_report [OF small_facts, of "''t1''" "[99]"]] by blast
  obtain csv e where e: "lookup w3 j = Some e" "ev_result e = Some (jprint (file_json (so_key (report_file j csv))))"
    using run(1) by (auto simp: reported_def)
  define w4 where "w4 = final (UpdateStatus calm_store j ''processed'') w3"
  have "steps calm_store D0 web0 w3 [SetStatus j ''processed''] w4" by (auto simp: w4_def intro: step.set_status)
  with run(2) have w4: "steps calm_store D0 web0 world0 ([Request report_post ''t1'' [99], SetStatus ''id-9'' ''processing'',
      RunTask i, RunTask j] @ [SetStatus j ''processed'']) w4"
    unfolding steps_append by blast
  obtain e4 where e4: "lookup w4 j = Some e4" "ev_status e4 = Some ''processed''" "ev_result e4 = ev_result e"
    using status_lookup [of calm_store w3 j "''processed''" j] e(1) calm_store(1)
    by (auto simp: w4_def UpdateStatus_def status_row_def stamp_def)
  define rq where "rq = \<lparr> hr_method = ''GET'', hr_path = ''/tasks/'' @ j @ ''/result'', hr_query = (\<lambda>k. []), hr_body = [],
    hr_remote = ''10.1.2.3:5000'' \<rparr>"
  have "CHR ''/'' \<notin> set (dec t)" using dec_digit by (force simp: is_digit_def byte_def)
  then have rq: "result_request rq j" by (simp add: result_request_def rq_def j calm_store_def calm_def)
  have "presign calm_store t k = Inr ''http://minio/''" "storage_ready D0" for t k by (simp_all add: calm_store_def calm_def D0_def)
  then have "reply calm_store D0 rq ''t2'' [] w4
      = \<lparr> rs_status = 200, rs_content_type = ''application/json'', rs_body = jprint (download_json j ''http://minio/'') \<rparr>"
    using result_answered [OF w4 world0_empty(1) calm_store(1) rq, of "''t2''" "[]"] e4 e(2) by auto
  then show ?thesis unfolding rq_def by blast
qed

end
