(* ===== verification/Later_Steps.thy ===== *)
theory Later_Steps
  imports Results Web_Properties
begin

text \<open>
  The steps of a request after its next one: nothing checks them when the request is submitted,
  and the worker stores, queues and runs each of them with the payload that was sent.
\<close>

section \<open>The steps after a request\<close>

fun later_steps :: "task_request \<Rightarrow> task_request list" where
  "later_steps (TaskRequest ty pl pr ex nx tc) = (case nx of None \<Rightarrow> []
    | Some n \<Rightarrow> if tr_type n = [] then [] else n # later_steps n)"




lemma later_steps_edits [simp]: "later_steps (set_trace tp (default_priority r)) = later_steps r"
  by (cases r) (simp add: set_trace_def default_priority_def)



section \<open>What is queued\<close>










section \<open>The property\<close>








end
