(* ===== verification/Replies.thy ===== *)
theory Replies
  imports System_Properties
begin

text \<open>
  What a client sees of an error: the second instance of \<open>every_reply\<close>, for the texts of failures.
\<close>

section \<open>What a client sees of an error\<close>

definition generic_failure :: "bytes set" where
  "generic_failure = {''Internal Server Error'' @ [CHR 0x0A], ''An error occured during marshalling'' @ [CHR 0x0A], []}"

interpretation failures: every_reply "\<lambda>a. rs_status a = 500 \<longrightarrow> rs_body a \<in> generic_failure"
  by unfold_locales
    (auto simp: generic_failure_def http_error_def error_message_def status_text_def response_of_def health_page_def)

text \<open>
  C36: No internal error reaches a client under status 500: whatever went wrong in the database, the
  queue or the object store, the body is a fixed text, or empty after a panic.
\<close>

theorem failures_hidden:
  assumes "rs_status (metrics_page D) \<noteq> 500" "rs_status (reply E D rq trace_id reads w) = 500"
  shows "rs_body (reply E D rq trace_id reads w) \<in> generic_failure"
  using failures.reply [of D E rq trace_id reads w] assms by simp

text \<open>A platform whose database does not answer.\<close>

definition no_db :: env where
  "no_db = calm\<lparr> db_fault := (\<lambda>t. Some (False, ''connection refused'')) \<rparr>"

definition stats_request :: http_request where
  "stats_request = \<lparr> hr_method = ''GET'', hr_path = ''/api/admin/dashboard/stats'', hr_query = (\<lambda>k. []), hr_body = [],
    hr_remote = ''10.1.2.3:5000'' \<rparr>"

theorem failures_hidden_witness: "rs_body (reply no_db D0 stats_request ''t1'' [] world0) \<in> generic_failure"
proof (rule failures_hidden)
  show "rs_status (metrics_page D0) \<noteq> 500" by (simp add: D0_def health_page_def)
  show "rs_status (reply no_db D0 stats_request ''t1'' [] world0) = 500" by code_simp
qed

text \<open>
  Cancelling is the exception: every error of the database is answered as a conflict, with its text.
\<close>

theorem cancel_shows_fault:
  assumes "\<And>t. db_fault E t = Some (applied, m)" "i \<noteq> []"
  shows "value_of (HandleCancelTask E ctx i) w = http_error m 409"
  using assms
  by (simp add: HandleCancelTask_def CancelTask_def CancelEventIfPending_def db_exec_def error_message_def split: sum.split)

theorem cancel_shows_fault_witness: "value_of (HandleCancelTask no_db ctx0 ''e1'') world0 = http_error ''connection refused'' 409"
  by (rule cancel_shows_fault [of _ False]) (simp_all add: no_db_def)

end
