(* ===== verification/Log_Attrs.thy ===== *)
theory Log_Attrs
  imports Scrape
begin

text \<open>
  What the log shows of an error: \<open>internal/taskerr\<close> (attributes attached to errors) and the
  attribute functions of \<open>cmd/main.go\<close>, with the routing of records to the two log handlers.
\<close>

section \<open>internal/taskerr\<close>

text \<open>An argument of type \<open>any\<close>: an attribute, a text, or another value.\<close>

datatype arg = ArgAttr attr | ArgStr string | ArgVal attrval

definition any_of :: "arg \<Rightarrow> attrval" where
  "any_of a = (case a of ArgAttr x \<Rightarrow> AnyAttr x | ArgStr s \<Rightarrow> AnyStr s | ArgVal v \<Rightarrow> v)"

fun argsToAttr :: "arg list \<Rightarrow> attr list" where
  "argsToAttr [] = []"
| "argsToAttr (ArgAttr a # r) = a # argsToAttr r"
| "argsToAttr [ArgStr k] = [Attr ''!BADKEY'' (AnyStr k)]"
| "argsToAttr (ArgStr k # v # r) = Attr k (any_of v) # argsToAttr r"
| "argsToAttr (ArgVal v # r) = Attr ''!BADKEY'' v # argsToAttr r"

definition WithAttrs :: "goerr \<Rightarrow> arg list \<Rightarrow> goerr" where
  "WithAttrs err args = AttrsError err (argsToAttr args)"

definition own_attrs :: "goerr \<Rightarrow> attr list" where
  "own_attrs e = (case e of AttrsError _ as \<Rightarrow> as | _ \<Rightarrow> [])"

function Attrs :: "goerr option \<Rightarrow> attr list" where
  "Attrs None = []"
| "Attrs (Some e) = own_attrs e @ Attrs (err_unwrap e)"
  by pat_completeness auto
termination
  by (relation "measure (\<lambda>e. case e of None \<Rightarrow> 0 | Some e \<Rightarrow> Suc (size e))")
    (auto split: option.split dest: err_unwrap_size)

section \<open>The attributes of an error\<close>

text \<open>\<open>errors.As\<close> for the two interfaces: the first error of the tree that has the method.\<close>

fun first_some :: "'a option list \<Rightarrow> 'a option" where
  "first_some [] = None"
| "first_some (None # r) = first_some r"
| "first_some (Some a # r) = Some a"

fun as_multi :: "goerr \<Rightarrow> goerr list option" where
  "as_multi (JoinError es) = Some es"
| "as_multi (WrapError p e) = as_multi e"
| "as_multi (StackError e st) = as_multi e"
| "as_multi (AttrsError e as) = as_multi e"
| "as_multi _ = None"

fun as_stack :: "goerr \<Rightarrow> string option" where
  "as_stack (StackError e st) = Some st"
| "as_stack (WrapError p e) = as_stack e"
| "as_stack (AttrsError e as) = as_stack e"
| "as_stack (JoinError es) = first_some (map as_stack es)"
| "as_stack _ = None"

definition own_frame :: "string \<Rightarrow> bool" where
  "own_frame line \<longleftrightarrow> has_prefix ''github.com/isaacthajunior/'' (TrimSpace line) \<or> has_prefix ''main.'' (TrimSpace line)"

text \<open>A frame has two lines; the second is kept with the first.\<close>

fun kept_lines :: "string list \<Rightarrow> string list" where
  "kept_lines [] = []"
| "kept_lines [l] = (if own_frame l then [l] else [])"
| "kept_lines (l # m # r) = (if own_frame l then l # m # kept_lines r else kept_lines (m # r))"

definition filterStack :: "string \<Rightarrow> string" where
  "filterStack full = join_with [CHR 0x0A] (kept_lines (split_on (CHR 0x0A) full))"

definition errorAttrs :: "goerr \<Rightarrow> attr list" where
  "errorAttrs err = [Attr ''message'' (AnyStr (err_msg err))] @ Attrs (Some err)
    @ (case as_stack err of
         None \<Rightarrow> []
       | Some st \<Rightarrow> if filterStack st \<noteq> [] then [Attr ''stack_trace'' (AnyStr (filterStack st))] else [])"

definition numbered :: "goerr list \<Rightarrow> attr list" where
  "numbered es = map (\<lambda>(i, e). Attr (''error_'' @ dec (i + 1)) (AnyGroup (errorAttrs e))) (enumerate 0 es)"

definition replaceAttr :: "attr \<Rightarrow> attr" where
  "replaceAttr a = (case a of Attr k v \<Rightarrow>
    if k \<noteq> ''error'' then a
    else (case v of
        AnyErr err \<Rightarrow>
          (case as_multi err of
             Some es \<Rightarrow> Attr ''errors'' (AnyGroup (numbered es))
           | None \<Rightarrow> Attr ''error'' (AnyGroup (errorAttrs err)))
      | _ \<Rightarrow> a))"

section \<open>Which handler gets a record\<close>

text \<open>
  The handlers of \<open>log/slog\<close> as far as levels go: one that takes a level and above, the gate of
  this program around one, and several at once. The gate embeds the inner handler, so
  \<open>WithAttrs\<close> and \<open>WithGroup\<close> are those of the inner handler and return it without the gate.
\<close>

datatype log_handler = FromLevel string int | Gate int log_handler | Several "log_handler list"

fun enabled :: "log_handler \<Rightarrow> int \<Rightarrow> bool" where
  "enabled (FromLevel n l) level \<longleftrightarrow> l \<le> level"
| "enabled (Gate m h) level \<longleftrightarrow> level \<le> m \<and> enabled h level"
| "enabled (Several hs) level \<longleftrightarrow> list_ex (\<lambda>h. enabled h level) hs"

fun with_attrs :: "log_handler \<Rightarrow> log_handler" where
  "with_attrs (FromLevel n l) = FromLevel n l"
| "with_attrs (Gate m h) = with_attrs h"
| "with_attrs (Several hs) = Several (map with_attrs hs)"

text \<open>The outputs that a record of a level is written to.\<close>

fun outputs :: "log_handler \<Rightarrow> int \<Rightarrow> string list" where
  "outputs (FromLevel n l) level = (if l \<le> level then [n] else [])"
| "outputs (Gate m h) level = (if level \<le> m then outputs h level else [])"
| "outputs (Several hs) level = concat (map (\<lambda>h. outputs h level) hs)"

text \<open>The file of the second handler, as lumberjack rotates it: sizes in megabytes, ages in days.\<close>

record log_file =
  lf_filename :: string
  lf_max_size :: nat
  lf_max_age :: nat
  lf_max_backups :: nat
  lf_local_time :: bool
  lf_compress :: bool

definition tasks_log :: log_file where
  "tasks_log = \<lparr> lf_filename = ''logs/tasks.log'', lf_max_size = 3, lf_max_age = 28, lf_max_backups = 10,
    lf_local_time = True, lf_compress = True \<rparr>"

definition level_debug :: int where "level_debug = - 4"
definition level_info :: int where "level_info = 0"

definition initializeLogger :: log_handler where
  "initializeLogger = Several [Gate level_debug (FromLevel ''stderr'' level_debug), FromLevel (lf_filename tasks_log) level_info]"

section \<open>Facts\<close>

text \<open>The attributes of a chain, outermost first.\<close>

fun chain_attrs :: "goerr \<Rightarrow> attr list" where
  "chain_attrs (AttrsError e as) = as @ chain_attrs e"
| "chain_attrs (WrapError p e) = chain_attrs e"
| "chain_attrs (StackError e st) = chain_attrs e"
| "chain_attrs _ = []"

lemma Attrs_chain: "Attrs (Some e) = chain_attrs e"
  by (induction e rule: chain_attrs.induct) (simp_all add: own_attrs_def)

text \<open>
  What is shown of an error, without the loops of the code: the chain that \<open>errors.Unwrap\<close> follows
  and, for \<open>errors.As\<close>, the tree with the joined errors, depth first.
\<close>

fun unwrapped :: "goerr \<Rightarrow> goerr list" where
  "unwrapped (WrapError p e) = WrapError p e # unwrapped e"
| "unwrapped (StackError e st) = StackError e st # unwrapped e"
| "unwrapped (AttrsError e as) = AttrsError e as # unwrapped e"
| "unwrapped e = [e]"

fun err_tree :: "goerr \<Rightarrow> goerr list" where
  "err_tree (WrapError p e) = WrapError p e # err_tree e"
| "err_tree (StackError e st) = StackError e st # err_tree e"
| "err_tree (AttrsError e as) = AttrsError e as # err_tree e"
| "err_tree (JoinError es) = JoinError es # concat (map err_tree es)"
| "err_tree e = [e]"

definition traces :: "goerr list \<Rightarrow> string list" where
  "traces es = concat (map (\<lambda>e. case e of StackError _ st \<Rightarrow> [st] | _ \<Rightarrow> []) es)"

definition shown :: "goerr \<Rightarrow> attr list" where
  "shown e = Attr ''message'' (AnyStr (err_msg e)) # concat (map own_attrs (unwrapped e))
    @ (case traces (err_tree e) of [] \<Rightarrow> []
       | st # sts \<Rightarrow> if filterStack st = [] then [] else [Attr ''stack_trace'' (AnyStr (filterStack st))])"

lemma unwrapped_step: "unwrapped e = e # (case err_unwrap e of None \<Rightarrow> [] | Some e' \<Rightarrow> unwrapped e')"
  by (cases e) simp_all

lemma traces_simps [simp]: "traces [] = []" "traces (es @ fs) = traces es @ traces fs"
  "traces (concat ess) = concat (map traces ess)"
  "traces (e # es) = (case e of StackError _ st \<Rightarrow> [st] | _ \<Rightarrow> []) @ traces es"
  by (induction ess) (simp_all add: traces_def)

lemma first_some_firsts: "first_some (map (\<lambda>xs. case xs of [] \<Rightarrow> None | x # _ \<Rightarrow> Some x) xss)
    = (case concat xss of [] \<Rightarrow> None | x # _ \<Rightarrow> Some x)"
proof (induction xss)
  case (Cons xs xss)
  then show ?case by (cases xs) simp_all
qed simp

lemma as_stack_traces: "as_stack e = (case traces (err_tree e) of [] \<Rightarrow> None | st # sts \<Rightarrow> Some st)"
proof (induction e rule: as_stack.induct)
  case (4 es)
  then have "map as_stack es = map (\<lambda>xs. case xs of [] \<Rightarrow> None | x # _ \<Rightarrow> Some x) (map (\<lambda>e. traces (err_tree e)) es)"
    by simp
  then show ?case by (simp only: as_stack.simps first_some_firsts) (simp add: comp_def)
qed simp_all

lemma chain_unwrapped: "chain_attrs e = concat (map own_attrs (unwrapped e))"
  by (induction e rule: chain_attrs.induct) (simp_all add: own_attrs_def)

lemma errorAttrs_shown: "errorAttrs e = shown e"
  by (auto simp: errorAttrs_def shown_def Attrs_chain chain_unwrapped as_stack_traces
      simp del: Attrs.simps split: list.split)

lemma numbered_shown:
  "numbered es = map (\<lambda>k. Attr (''error_'' @ dec (k + 1)) (AnyGroup (shown (es ! k)))) [0..<length es]"
  by (intro nth_equalityI) (simp_all add: numbered_def nth_enumerate_eq errorAttrs_shown)

text \<open>Unwrapping ends at a joined error, so there is at most one on the chain.\<close>

lemma as_multi_unwrapped: "JoinError es \<in> set (unwrapped e) \<Longrightarrow> as_multi e = Some es"
  by (induction e rule: as_multi.induct) auto

lemma as_multi_None: "(\<And>es. JoinError es \<notin> set (unwrapped e)) \<Longrightarrow> as_multi e = None"
  by (induction e rule: as_multi.induct) auto

lemma kept_idem: "kept_lines (kept_lines ls) = kept_lines ls"
  by (induction ls rule: kept_lines.induct) auto

lemma kept_subseq: "set (kept_lines ls) \<subseteq> set ls"
  by (induction ls rule: kept_lines.induct) auto

lemma own_frame_Nil: "\<not> own_frame []"
  by code_simp

lemma filterStack_idem: "filterStack (filterStack s) = filterStack s"
proof (cases "kept_lines (split_on (CHR 0x0A) s) = []")
  case True
  then show ?thesis by (simp add: filterStack_def own_frame_Nil)
next
  case False
  have "\<forall>l\<in>set (kept_lines (split_on (CHR 0x0A) s)). CHR 0x0A \<notin> set l"
    using kept_subseq [of "split_on (CHR 0x0A) s"] split_no_sep [of "CHR 0x0A" s] by blast
  then show ?thesis by (simp add: filterStack_def split_on_join_with [OF _ False] kept_idem)
qed

end
