(* ===== verification/Telemetry.thy ===== *)
theory Telemetry
  imports Log_Attrs Runtime
begin

text \<open>
  The set-up of tracing (\<open>internal/telemetry/tracer.go\<close>): the exporter, the resource and the
  registration with OpenTelemetry. What the SDK answers is data (\<open>otel_sdk\<close>); what the process
  registers with it is the state (\<open>otel_globals\<close>).
\<close>

type_synonym otel_attrs = "(string \<times> string) list"

record exporter_options =
  xo_endpoint :: string
  xo_insecure :: bool

text \<open>
  The answers of the SDK: the error of \<open>otlptracehttp.New\<close> for these options, the resource that
  \<open>resource.New\<close> makes of the attributes, and \<open>resource.Default\<close>.
\<close>

record otel_sdk =
  exporter_new :: "exporter_options \<Rightarrow> goerr option"
  resource_new :: "otel_attrs \<Rightarrow> otel_attrs result"
  resource_default :: otel_attrs

record tracer_provider =
  tp_batcher :: exporter_options
  tp_resource :: otel_attrs

datatype propagator = TraceContext | Baggage

text \<open>A record for the process log: its level, message and attributes.\<close>

type_synonym log_record = "int \<times> string \<times> attr list"

record otel_globals =
  on_error :: "(goerr \<Rightarrow> log_record) option"
  provider :: "tracer_provider option"
  propagators :: "propagator list"

definition otel_unset :: otel_globals where
  "otel_unset = \<lparr> on_error = None, provider = None, propagators = [] \<rparr>"

definition export_error :: "goerr \<Rightarrow> log_record" where
  "export_error err = (level_debug, ''otel exporter error'', [Attr ''error'' (AnyErr err)])"

definition exporter_for :: "string \<Rightarrow> exporter_options" where
  "exporter_for endpoint = \<lparr> xo_endpoint = endpoint, xo_insecure = True \<rparr>"

definition service_attrs :: otel_attrs where
  "service_attrs = [(''service.name'', ''event-app''), (''service.version'', ''1.0.0''),
    (''deployment.environment'', ''development'')]"

definition service_resource :: "otel_sdk \<Rightarrow> otel_attrs" where
  "service_resource K = (case resource_new K service_attrs of Inl err \<Rightarrow> resource_default K | Inr res \<Rightarrow> res)"

definition NewTracerProvider :: "otel_sdk \<Rightarrow> string \<Rightarrow> (otel_globals, tracer_provider result) state" where
  "NewTracerProvider K endpoint = do {
     State_Monad.update (\<lambda>g. g\<lparr> on_error := Some export_error \<rparr>);
     (case exporter_new K (exporter_for endpoint) of
        Some err \<Rightarrow> State_Monad.return (Inl err)
      | None \<Rightarrow>
          (let tp = \<lparr> tp_batcher = exporter_for endpoint, tp_resource = service_resource K \<rparr> in do {
             State_Monad.update (\<lambda>g. g\<lparr> provider := Some tp \<rparr>);
             State_Monad.update (\<lambda>g. g\<lparr> propagators := [TraceContext, Baggage] \<rparr>);
             State_Monad.return (Inr tp)
           }))
   }"

section \<open>Facts\<close>

lemma tracing_off:
  assumes "exporter_new K (exporter_for endpoint) = Some err"
  shows "value_of (NewTracerProvider K endpoint) g = Inl err"
    "final (NewTracerProvider K endpoint) g = g\<lparr> on_error := Some export_error \<rparr>"
  using assms by (simp_all add: NewTracerProvider_def)

lemma tracing_on:
  assumes "exporter_new K (exporter_for endpoint) = None"
  shows "\<exists>tp. value_of (NewTracerProvider K endpoint) g = Inr tp
    \<and> final (NewTracerProvider K endpoint) g
      = g\<lparr> on_error := Some export_error, provider := Some tp, propagators := [TraceContext, Baggage] \<rparr>"
  using assms by (simp add: NewTracerProvider_def Let_def)

text \<open>
  A trace that could not be exported reaches the terminal only, never the log file.
\<close>

lemma export_error_outputs: "outputs initializeLogger (fst (export_error err)) = [''stderr'']"
  by (simp add: export_error_def initializeLogger_def level_debug_def level_info_def)

end
