(* ===== verification/Startup.thy ===== *)
theory Startup
  imports Telemetry Server
begin

text \<open>
  Start-up and shutdown: the configuration read from the environment (\<open>cmd/main.go\<close>,
  \<open>internal/storage\<close>, \<open>internal/database/connect.go\<close>, \<open>internal/repository/redis_client.go\<close>), the metrics,
  and \<open>run\<close> with its deferred clean-up. What the libraries answer is data.
\<close>

type_synonym getenv = "string \<Rightarrow> string"

section \<open>Configuration\<close>

definition worker_count :: "getenv \<Rightarrow> int" where
  "worker_count getenv = (let v = getenv ''WORKER_COUNT'' in
    if v = [] then 3
    else (case parse_int v of (n, err) \<Rightarrow> if \<not> err \<and> 0 < n then n else 3))"

text \<open>The sizes of the connection pool, as \<open>int32\<close>.\<close>

record pool_config =
  max_conns :: int
  min_conns :: int

definition pool_sizes :: "int \<Rightarrow> pool_config" where
  "pool_sizes n = \<lparr> max_conns = sint (word_of_int (n * 3) :: 32 word), min_conns = sint (word_of_int n :: 32 word) \<rparr>"

text \<open>
  \<open>parse_config\<close> is that of pgx, the error of a malformed URL; \<open>new_pool\<close> is the error of its
  \<open>NewWithConfig\<close> for these sizes (a maximum below 1 is one).
\<close>

definition NewPool :: "(string \<Rightarrow> goerr option) \<Rightarrow> (pool_config \<Rightarrow> goerr option) \<Rightarrow> getenv \<Rightarrow> int \<Rightarrow> pool_config result" where
  "NewPool parse_config new_pool getenv n = (case parse_config (getenv ''DB_URL'') of
      Some err \<Rightarrow> Inl err
    | None \<Rightarrow> (case new_pool (pool_sizes n) of Some err \<Rightarrow> Inl err | None \<Rightarrow> Inr (pool_sizes n)))"

definition redis_addr :: "getenv \<Rightarrow> string" where
  "redis_addr getenv = getenv ''REDIS_HOST'' @ '':'' @ getenv ''REDIS_PORT''"

text \<open>\<open>Inl\<close> is the text of a panic.\<close>

definition NewRedisClient :: "(string \<Rightarrow> goerr option) \<Rightarrow> getenv \<Rightarrow> string + string" where
  "NewRedisClient ping getenv = (case ping (redis_addr getenv) of
      Some err \<Rightarrow> Inl (''Failed to connect to Redis: '' @ err_msg err) | None \<Rightarrow> Inr (redis_addr getenv))"

definition otel_endpoint :: "getenv \<Rightarrow> string" where
  "otel_endpoint getenv = (if getenv ''OTEL_EXPORTER_OTLP_ENDPOINT'' = [] then ''otel-collector:4318''
    else getenv ''OTEL_EXPORTER_OTLP_ENDPOINT'')"

section \<open>The object store\<close>

record minio_options =
  mo_endpoint :: string
  mo_access :: string
  mo_secret :: string
  mo_secure :: bool
  mo_region :: string

record minio_client =
  mc_internal :: minio_options
  mc_public :: minio_options
  mc_bucket :: string

definition public_endpoint :: "getenv \<Rightarrow> string" where
  "public_endpoint getenv = (if getenv ''MINIO_PUBLIC_ENDPOINT'' = [] then getenv ''MINIO_ENDPOINT''
    else getenv ''MINIO_PUBLIC_ENDPOINT'')"

definition minio_region :: "getenv \<Rightarrow> string" where
  "minio_region getenv = (if getenv ''MINIO_REGION'' = [] then ''us-east-1'' else getenv ''MINIO_REGION'')"

definition options_for :: "getenv \<Rightarrow> string \<Rightarrow> minio_options" where
  "options_for getenv endpoint = \<lparr> mo_endpoint = endpoint, mo_access = getenv ''MINIO_ACCESS_KEY'',
    mo_secret = getenv ''MINIO_SECRET_KEY'', mo_secure = (getenv ''MINIO_USE_SSL'' = ''true''),
    mo_region = minio_region getenv \<rparr>"

text \<open>\<open>minio_new\<close> is the error of \<open>minio.New\<close> for these options.\<close>

definition NewMinioClient :: "(minio_options \<Rightarrow> goerr option) \<Rightarrow> getenv \<Rightarrow> minio_client result" where
  "NewMinioClient minio_new getenv =
    (let mc = options_for getenv (getenv ''MINIO_ENDPOINT''); public = options_for getenv (public_endpoint getenv) in
     case minio_new mc of
       Some err \<Rightarrow> Inl (WrapError ''minio: connect: '' err)
     | None \<Rightarrow>
         (if public_endpoint getenv \<noteq> getenv ''MINIO_ENDPOINT'' then
            (case minio_new public of
               Some err \<Rightarrow> Inl (WrapError ''minio: connect public client: '' err)
             | None \<Rightarrow> Inr \<lparr> mc_internal = mc, mc_public = public, mc_bucket = getenv ''MINIO_BUCKET'' \<rparr>)
          else Inr \<lparr> mc_internal = mc, mc_public = mc, mc_bucket = getenv ''MINIO_BUCKET'' \<rparr>))"

text \<open>The error, and whether the bucket was created.\<close>

definition EnsureBucket :: "bool result \<Rightarrow> goerr option \<Rightarrow> goerr option \<times> bool" where
  "EnsureBucket exists make_err = (case exists of
      Inl err \<Rightarrow> (Some (WrapError ''minio: check bucket: '' err), False)
    | Inr True \<Rightarrow> (None, False)
    | Inr False \<Rightarrow> (case make_err of Some err \<Rightarrow> (Some (WrapError ''minio: create bucket: '' err), False) | None \<Rightarrow> (None, True)))"

section \<open>Metrics\<close>

text \<open>The collectors, and their registration: \<open>None\<close> is the panic of a name registered twice.\<close>

datatype collector_kind = CounterVec | Histogram | GaugeVec

record collector =
  co_kind :: collector_kind
  co_name :: string
  co_help :: string
  co_labels :: "string list"

definition collectors :: "collector list" where
  "collectors =
    [\<lparr> co_kind = CounterVec, co_name = ''tasks_processed_total'', co_help = ''Total processed tasks'', co_labels = [''type''] \<rparr>,
     \<lparr> co_kind = CounterVec, co_name = ''tasks_retried_total'', co_help = ''Total Retried Tasks'', co_labels = [''type''] \<rparr>,
     \<lparr> co_kind = CounterVec, co_name = ''tasks_failed_total'', co_help = ''Total failed tasks'', co_labels = [''type''] \<rparr>,
     \<lparr> co_kind = Histogram, co_name = ''task_duration_seconds'', co_help = ''Task execution duration'', co_labels = [] \<rparr>,
     \<lparr> co_kind = GaugeVec, co_name = ''queue_depth_current'', co_help = ''Current number of tasks in each queue'', co_labels = [''queue''] \<rparr>]"

fun must_register :: "string list \<Rightarrow> string list \<Rightarrow> string list option" where
  "must_register registered [] = Some registered"
| "must_register registered (n # ns) = (if n \<in> set registered then None else must_register (n # registered) ns)"

definition Init :: "string list \<Rightarrow> string list option" where
  "Init registered = must_register registered (map (\<lambda>i. co_name (collectors ! i)) [0, 2, 1, 3, 4])"

text \<open>The values of the collectors of \<open>internal/metrics\<close>; \<open>'f\<close> are the 64-bit floats and \<open>float_of\<close> the conversion.\<close>

record 'f metrics =
  tasks_processed :: "string \<Rightarrow> nat"
  tasks_retried :: "string \<Rightarrow> nat"
  tasks_failed :: "string \<Rightarrow> nat"
  task_durations :: "'f list"
  queue_depth_gauge :: "string \<Rightarrow> 'f option"

definition TaskProcessed :: "string \<Rightarrow> 'f metrics \<Rightarrow> 'f metrics" where
  "TaskProcessed ty m = m\<lparr> tasks_processed := (tasks_processed m)(ty := Suc (tasks_processed m ty)) \<rparr>"

definition TaskRetried :: "string \<Rightarrow> 'f metrics \<Rightarrow> 'f metrics" where
  "TaskRetried ty m = m\<lparr> tasks_retried := (tasks_retried m)(ty := Suc (tasks_retried m ty)) \<rparr>"

definition TaskFailed :: "string \<Rightarrow> 'f metrics \<Rightarrow> 'f metrics" where
  "TaskFailed ty m = m\<lparr> tasks_failed := (tasks_failed m)(ty := Suc (tasks_failed m ty)) \<rparr>"

definition TaskDuration :: "'f \<Rightarrow> 'f metrics \<Rightarrow> 'f metrics" where
  "TaskDuration seconds m = m\<lparr> task_durations := task_durations m @ [seconds] \<rparr>"

definition QueueDepth :: "(int \<Rightarrow> 'f) \<Rightarrow> string \<Rightarrow> int \<Rightarrow> 'f metrics \<Rightarrow> 'f metrics" where
  "QueueDepth float_of q depth m = m\<lparr> queue_depth_gauge := (queue_depth_gauge m)(q \<mapsto> float_of depth) \<rparr>"

section \<open>run\<close>

datatype server_end = ServeError goerr | Signalled "goerr option"

text \<open>What the calls of \<open>run\<close> answer; \<open>serving\<close> is how serving ends, with the error of the shutdown.\<close>

record outside =
  otel :: otel_sdk
  open_error :: "goerr option"
  dialect_error :: "goerr option"
  migrate_error :: "goerr option"
  db_config :: "string \<Rightarrow> goerr option"
  open_pool :: "pool_config \<Rightarrow> goerr option"
  redis_ping :: "string \<Rightarrow> goerr option"
  minio_new :: "minio_options \<Rightarrow> goerr option"
  bucket_exists :: "bool result"
  make_bucket :: "goerr option"
  serving :: server_end

datatype cleanup = CloseLog | ShutdownTracer | ClosePool | CloseRedis | StopWorkers

text \<open>The order in which the parts may go: what a part uses goes after it.\<close>

instantiation cleanup :: linorder
begin

definition cleanup_rank :: "cleanup \<Rightarrow> nat" where
  "cleanup_rank c = (case c of StopWorkers \<Rightarrow> 0 | CloseRedis \<Rightarrow> 1 | ClosePool \<Rightarrow> 2 | ShutdownTracer \<Rightarrow> 3 | CloseLog \<Rightarrow> 4)"

definition less_eq_cleanup :: "cleanup \<Rightarrow> cleanup \<Rightarrow> bool" where
  "less_eq_cleanup a b \<longleftrightarrow> cleanup_rank a \<le> cleanup_rank b"

definition less_cleanup :: "cleanup \<Rightarrow> cleanup \<Rightarrow> bool" where
  "less_cleanup a b \<longleftrightarrow> cleanup_rank a < cleanup_rank b"

instance
  by standard (auto simp: less_eq_cleanup_def less_cleanup_def cleanup_rank_def split: cleanup.splits)

end

text \<open>
  The deferred calls are a stack, the last registered on top. A return and a panic run those that
  are on it, from the top; \<open>log.Fatalf\<close> exits with status 1 and runs none.
\<close>

datatype run_end = Returned int | Fatal string | Panicked string

definition ends_with :: "run_end \<Rightarrow> cleanup list \<Rightarrow> run_end \<times> cleanup list" where
  "ends_with r deferred = (r, case r of Fatal m \<Rightarrow> [] | Panicked m \<Rightarrow> deferred | Returned c \<Rightarrow> deferred)"

definition serve_until :: "outside \<Rightarrow> int" where
  "serve_until X = (case serving X of ServeError e \<Rightarrow> 1 | Signalled (Some e) \<Rightarrow> 1 | Signalled None \<Rightarrow> 0)"

definition first_fatal :: "(string \<times> goerr option) list \<Rightarrow> string option" where
  "first_fatal cs = map_option (\<lambda>(m, e). m @ err_msg (the e)) (find (\<lambda>(m, e). e \<noteq> None) cs)"

definition err_of :: "'a result \<Rightarrow> goerr option" where
  "err_of r = (case r of Inl e \<Rightarrow> Some e | Inr _ \<Rightarrow> None)"

text \<open>The error of the set-up of tracing; it is logged and the platform goes on without traces.\<close>

definition tracer_error :: "outside \<Rightarrow> getenv \<Rightarrow> goerr option" where
  "tracer_error X getenv = err_of (value_of (NewTracerProvider (otel X) (otel_endpoint getenv)) otel_unset)"

text \<open>The storage client, or the warning that there is none; \<open>EnsureBucket\<close> only logs.\<close>

definition storage_client :: "outside \<Rightarrow> getenv \<Rightarrow> minio_client option" where
  "storage_client X getenv = (case NewMinioClient (minio_new X) getenv of Inl _ \<Rightarrow> None | Inr c \<Rightarrow> Some c)"

definition run :: "outside \<Rightarrow> getenv \<Rightarrow> (run_end \<times> cleanup list) \<times> minio_client option" where
  "run X getenv =
    (let deferred = [CloseLog];
         deferred = (if tracer_error X getenv = None then ShutdownTracer # deferred else deferred);
         pool = NewPool (db_config X) (open_pool X) getenv (worker_count getenv)
     in case first_fatal [(''goose: open db: '', open_error X), (''goose: set dialect: '', dialect_error X),
            (''goose: migrations failed: '', migrate_error X), (''failed to connect to db: '', err_of pool)] of
          Some m \<Rightarrow> (ends_with (Fatal m) deferred, None)
        | None \<Rightarrow>
            (let deferred = ClosePool # deferred in
             case NewRedisClient (redis_ping X) getenv of
               Inl m \<Rightarrow> (ends_with (Panicked m) deferred, None)
             | Inr addr \<Rightarrow>
                 (let deferred = CloseRedis # deferred; deferred = StopWorkers # deferred in
                  (ends_with (Returned (serve_until X)) deferred, storage_client X getenv))))"

section \<open>Facts\<close>

lemma must_register_set: "must_register r ns = Some rs \<Longrightarrow> set r \<union> set ns \<subseteq> set rs"
  by (induction r ns rule: must_register.induct) (auto split: if_splits)

lemma Init_first: "Init [] \<noteq> None"
  by (simp add: Init_def collectors_def)

lemma Init_twice: "Init registered = Some rs \<Longrightarrow> Init rs = None"
  using must_register_set [of registered "map (\<lambda>i. co_name (collectors ! i)) [0, 2, 1, 3, 4]" rs] by (simp add: Init_def)

lemma worker_count_pos: "0 < worker_count getenv"
  by (simp add: worker_count_def Let_def split: prod.split)

lemma sint_fits: "0 \<le> k \<Longrightarrow> k < 2 ^ 31 \<Longrightarrow> sint (word_of_int k :: 32 word) = k"
  by (simp add: sint32 uint_word_of_int)

lemma pool_sizes_fit:
  assumes "0 < n" "n * 3 < 2 ^ 31"
  shows "max_conns (pool_sizes n) = n * 3 \<and> min_conns (pool_sizes n) = n"
  using sint_fits [of "n * 3"] sint_fits [of n] assms by (simp add: pool_sizes_def)

text \<open>What stops the start, in the order of the calls: each error with its text.\<close>

definition failed :: "string \<Rightarrow> goerr option \<Rightarrow> string list" where
  "failed prefix e = (case e of None \<Rightarrow> [] | Some err \<Rightarrow> [prefix @ err_msg err])"

definition start_faults :: "outside \<Rightarrow> getenv \<Rightarrow> string list" where
  "start_faults X getenv = failed ''goose: open db: '' (open_error X) @ failed ''goose: set dialect: '' (dialect_error X)
    @ failed ''goose: migrations failed: '' (migrate_error X)
    @ (if db_config X (getenv ''DB_URL'') \<noteq> None then failed ''failed to connect to db: '' (db_config X (getenv ''DB_URL''))
       else failed ''failed to connect to db: '' (open_pool X (pool_sizes (worker_count getenv))))"

lemma first_fatal_failed:
  "first_fatal cs = (case concat (map (\<lambda>(m, e). failed m e) cs) of [] \<Rightarrow> None | m # ms \<Rightarrow> Some m)"
  by (induction cs) (auto simp: first_fatal_def failed_def split: option.split)

lemma first_fault:
  "first_fatal [(''goose: open db: '', open_error X), (''goose: set dialect: '', dialect_error X),
      (''goose: migrations failed: '', migrate_error X),
      (''failed to connect to db: '', err_of (NewPool (db_config X) (open_pool X) getenv (worker_count getenv)))]
    = (case start_faults X getenv of [] \<Rightarrow> None | m # ms \<Rightarrow> Some m)"
  unfolding first_fatal_failed
  by (rule arg_cong [where f = "\<lambda>ms. case ms of [] \<Rightarrow> None | m # _ \<Rightarrow> Some m"])
    (simp add: start_faults_def NewPool_def err_of_def split: option.split)

text \<open>The parts that are open when the start gets through.\<close>

definition opened :: "outside \<Rightarrow> getenv \<Rightarrow> cleanup set" where
  "opened X getenv = {CloseLog} \<union> (if tracer_error X getenv = None then {ShutdownTracer} else {})
    \<union> (if start_faults X getenv = [] then {ClosePool} else {})
    \<union> (if start_faults X getenv = [] \<and> redis_ping X (redis_addr getenv) = None then {CloseRedis, StopWorkers} else {})"

end
