(* ===== verification/Startup_Properties.thy ===== *)
theory Startup_Properties
  imports Startup
begin

text \<open>
  What holds of start-up, shutdown and the log: which output a record reaches, what it shows of an
  error, the sizes of the connection pool and the order of the clean-up.
\<close>

text \<open>
  A record reaches the terminal exactly when its level is that of debugging, and the log file
  from the level of information on. A logger made with further attributes has lost the upper
  bound: every record from the debug level on reaches the terminal.
\<close>

theorem log_routing:
  "outputs initializeLogger level = (if level = level_debug then [''stderr'']
      else if level_info \<le> level then [''logs/tasks.log''] else [])
    \<and> outputs (with_attrs initializeLogger) level = (if level_debug \<le> level then [''stderr''] else [])
      @ (if level_info \<le> level then [''logs/tasks.log''] else [])"
  by (auto simp: initializeLogger_def level_debug_def level_info_def tasks_log_def)

text \<open>
  C40: An error is logged as a group: its message, the attributes of its chain, outermost first and
  with duplicates, and the filtered stack of the first error in its tree that has one. When
  anything on the chain is a joined error, under whatever wrappers, it is logged as one group
  error_1, error_2 and so on for each of the parts, with the same contents for the part; the
  message and the attributes that were put around the joined error are lost. Attributes under
  other keys and values that are no errors stay as they are.
\<close>

theorem logged_error:
  "(\<forall>es. JoinError es \<in> set (unwrapped err) \<longrightarrow>
      replaceAttr (Attr ''error'' (AnyErr err)) = Attr ''errors'' (AnyGroup
        (map (\<lambda>k. Attr (''error_'' @ dec (k + 1)) (AnyGroup (shown (es ! k)))) [0..<length es])))
    \<and> ((\<forall>es. JoinError es \<notin> set (unwrapped err)) \<longrightarrow>
      replaceAttr (Attr ''error'' (AnyErr err)) = Attr ''error'' (AnyGroup (shown err)))
    \<and> (k \<noteq> ''error'' \<longrightarrow> replaceAttr (Attr k v) = Attr k v)
    \<and> ((\<forall>e. v \<noteq> AnyErr e) \<longrightarrow> replaceAttr (Attr k v) = Attr k v)"
  by (auto simp: replaceAttr_def numbered_shown errorAttrs_shown as_multi_unwrapped as_multi_None
      split: attrval.split)

theorem logged_error_witness:
  "replaceAttr (Attr ''error'' (AnyErr (WrapError ''a: '' (WithAttrs (ErrorString ''b'') [ArgStr ''k'', ArgVal (AnyInt 1)]))))
      = Attr ''error'' (AnyGroup [Attr ''message'' (AnyStr ''a: b''), Attr ''k'' (AnyInt 1)])
    \<and> replaceAttr (Attr ''error'' (AnyErr (WrapError ''a: '' (StackError (WithAttrs
        (JoinError [ErrorString ''b'', WithAttrs (ErrorString ''c'') [ArgStr ''k'', ArgVal (AnyInt 1)]]) []) ''main.go''))))
      = Attr ''errors'' (AnyGroup [Attr ''error_1'' (AnyGroup [Attr ''message'' (AnyStr ''b'')]),
          Attr ''error_2'' (AnyGroup [Attr ''message'' (AnyStr ''c''), Attr ''k'' (AnyInt 1)])])"
proof -
  have "[0..<2] = [0, 1::nat]" "dec 1 = ''1''" "dec 2 = ''2''" by (simp_all add: numeral_eq_Suc) code_simp+
  then show ?thesis
    using logged_error [of "WrapError ''a: '' (WithAttrs (ErrorString ''b'') [ArgStr ''k'', ArgVal (AnyInt 1)])" "[]" AnyNil]
      logged_error [of "WrapError ''a: '' (StackError (WithAttrs
        (JoinError [ErrorString ''b'', WithAttrs (ErrorString ''c'') [ArgStr ''k'', ArgVal (AnyInt 1)]]) []) ''main.go'')" "[]" AnyNil]
    by (simp add: WithAttrs_def any_of_def shown_def own_attrs_def numeral_2_eq_2)
qed

text \<open>
  The filter of stack traces keeps only lines of the trace, and filtering a filtered trace
  changes nothing.
\<close>

theorem stack_filter:
  "filterStack (filterStack s) = filterStack s
    \<and> set (kept_lines (split_on (CHR 0x0A) s)) \<subseteq> set (split_on (CHR 0x0A) s)"
  using filterStack_idem kept_subseq by blast

text \<open>
  With any number of workers the configuration can give up to 715827882 the pool has three
  connections for each of them and keeps one open; with one worker more the maximum is negative.
\<close>

theorem pool_sized:
  assumes "worker_count getenv \<le> 715827882"
  shows "0 < min_conns (pool_sizes (worker_count getenv))
    \<and> max_conns (pool_sizes (worker_count getenv)) = 3 * min_conns (pool_sizes (worker_count getenv))
    \<and> min_conns (pool_sizes (worker_count getenv)) = worker_count getenv
    \<and> max_conns (pool_sizes 715827883) < 0"
proof -
  have "max_conns (pool_sizes 715827883) < 0" by (simp add: pool_sizes_def sint32)
  then show ?thesis using pool_sizes_fit [of "worker_count getenv"] worker_count_pos [of getenv] assms by simp
qed

theorem pool_sized_witness:
  "max_conns (pool_sizes (worker_count (\<lambda>v. if v = ''WORKER_COUNT'' then ''8'' else []))) = 24"
proof -
  have "worker_count (\<lambda>v. if v = ''WORKER_COUNT'' then ''8'' else []) = 8" by code_simp
  then show ?thesis using pool_sized [of "\<lambda>v. if v = ''WORKER_COUNT'' then ''8'' else []"] by simp
qed

text \<open>
  Where the pool refuses a maximum below 1, as pgx does, that one worker more is fatal, and so is any
  number up to twice as many; beyond, the product wraps around to a positive number.
\<close>

theorem many_workers_fatal:
  assumes "\<And>c. max_conns c < 1 \<Longrightarrow> open_pool X c \<noteq> None"
    and "715827883 \<le> worker_count getenv" "worker_count getenv \<le> 1431655765"
  shows "\<exists>m. fst (run X getenv) = (Fatal m, [])"
proof -
  define n where "n = worker_count getenv"
  have "uint (word_of_int (n * 3) :: 32 word) = n * 3"
    using assms(2,3) by (simp only: uint_word_of_int n_def [symmetric]) simp
  then have "max_conns (pool_sizes n) < 1"
    using assms(2,3) by (simp add: pool_sizes_def sint32 n_def [symmetric] del: of_int_mult)
  then have "open_pool X (pool_sizes (worker_count getenv)) \<noteq> None" using assms(1) by (simp add: n_def)
  then have "start_faults X getenv \<noteq> []" by (auto simp: start_faults_def failed_def split: option.splits)
  then show ?thesis by (auto simp: run_def first_fault ends_with_def Let_def split: list.splits)
qed

text \<open>
  C39: How run ends, and what it closes. An error of the migrations or of the pool is fatal, with the
  text of the first one, and closes nothing, not even the log. Otherwise every part that was
  opened is closed, once, and only after the parts that use it: workers, Redis, pool, traces, log
  file. That is so for a panic, too: when Redis does not answer, run panics and closes the pool,
  the traces and the log. When everything started, it returns, with status 0 exactly when a signal
  ended it and the server shut down in time.
\<close>

theorem shutdown_order:
  "fst (run X getenv) =
    (case start_faults X getenv of
       m # ms \<Rightarrow> (Fatal m, [])
     | [] \<Rightarrow>
         (case redis_ping X (redis_addr getenv) of
            Some e \<Rightarrow> Panicked (''Failed to connect to Redis: '' @ err_msg e)
          | None \<Rightarrow> Returned (if serving X = Signalled None then 0 else 1),
          sorted_list_of_set (opened X getenv)))
    \<and> CloseLog \<in> opened X getenv
    \<and> (ShutdownTracer \<in> opened X getenv \<longleftrightarrow> tracer_error X getenv = None)
    \<and> (ClosePool \<in> opened X getenv \<longleftrightarrow> start_faults X getenv = [])
    \<and> StopWorkers < CloseRedis \<and> CloseRedis < ClosePool \<and> ClosePool < ShutdownTracer \<and> ShutdownTracer < CloseLog"
proof -
  have order: "StopWorkers < CloseRedis" "CloseRedis < ClosePool" "ClosePool < ShutdownTracer" "ShutdownTracer < CloseLog"
    by (simp_all add: less_cleanup_def cleanup_rank_def)
  have closed: "sorted_list_of_set (set cs) = cs" if "sorted_wrt (<) cs" for cs :: "cleanup list"
    using that by (simp add: strict_sorted_iff sorted_list_of_set.idem_if_sorted_distinct)
  have all: "sorted_list_of_set (opened X getenv) =
      (if redis_ping X (redis_addr getenv) = None then [StopWorkers, CloseRedis] else [])
        @ [ClosePool] @ (if tracer_error X getenv = None then [ShutdownTracer] else []) @ [CloseLog]" (is "_ = ?cs")
    if "start_faults X getenv = []"
  proof -
    have "opened X getenv = set ?cs" using that by (auto simp: opened_def)
    moreover have "sorted_wrt (<) ?cs" by (auto simp: less_cleanup_def cleanup_rank_def)
    ultimately show ?thesis using closed by metis
  qed
  show ?thesis
  proof (cases "start_faults X getenv")
    case Nil
    then show ?thesis
      using order all [OF Nil]
      by (auto simp: run_def first_fault ends_with_def Let_def NewRedisClient_def serve_until_def opened_def
          split: option.split server_end.split)
  next
    case (Cons m ms)
    then show ?thesis
      using order by (simp add: run_def first_fault ends_with_def Let_def opened_def)
  qed
qed

end
