(* ===== verification/Spec2Isabelle.thy ===== *)
theory Spec2Isabelle
  imports Overlaps Pipeline Later_Steps Replies Startup_Properties
begin

text \<open>
  Event-processing platform.

  A client submits a task over HTTP. The task handler validates it, computes an idempotency key,
  stores a row in Postgres and hands the identifier to a Redis queue. The worker pool (package
  pulse, outside the repository) takes identifiers off that queue, reads the row back through the
  event store, runs the handler registered for its type, and records the attempts. A handler
  fetches a page, renders a report or resizes an image, stores a file in an object store and its
  key in the row. When it succeeds and the row declares a next step, the chaining wrapper stores
  and queues that step. The admin routes list, retry and requeue tasks.

  \<^bold>\<open>Reading a program.\<close> Every operation that reads or changes state is a program in the
  \<open>State_Monad\<close> of the library over the record \<open>world\<close>: the three tables, the trace of the calls
  to the queue, the objects uploaded, the log context of the request, and a tick. \<open>value_of m w\<close>
  is what the program returns and \<open>final m w\<close> the state it leaves; a Go function with an error
  result is a program with a sum as its value. What the code cannot decide is an argument: \<open>env\<close>
  (clocks, failures of the database before or after a statement took effect, of the queue and of
  the object store, the order of rows that ORDER BY leaves open, identifiers), \<open>services\<close> (the HTTP client, the HTML parser, the imaging
  library), \<open>deployment\<close> (whether storage is configured, the page of Prometheus, how a number of a
  result is printed), \<open>outside\<close> and \<open>otel_sdk\<close> (the outcomes of start-up). Each interaction takes a tick, so no two answers are tied to each
  other.
  A property that needs a healthy service says so by name (\<open>db_up\<close>, \<open>queue_up\<close>, \<open>queue_down\<close>).

  \<^bold>\<open>The theories and what they model.\<close>
  \<^item> Prelude, Runtime: lists of rows, the running of programs, and the collections of rules
    (\<open>frame\<close>, \<open>row_simps\<close>, \<open>wf_intros\<close>, later \<open>grow_rules\<close>, \<open>queue_rules\<close>, \<open>result_rules\<close>,
    \<open>only_rules\<close>, \<open>leave_rules\<close>) by which an invariant of a handler follows from its parts.
  \<^item> Go_Error, Go_Utf8, Go_Quote, Go_Json, Go_Raw, Go_Decode, Go_Time, Go_Sha256, Go_Net: the parts
    of Go's library the code uses, written out: error chains, \<open>encoding/json\<close> with its duplicate and
    case-folded members, the text kept of a raw message, RFC 3339 times, SHA-256, addresses and
    CIDR blocks.
  \<^item> Database: \<open>internal/database/*.sql.go\<close>, \<open>models.go\<close>. A statement maps a table (a list of
    rows in insertion order) to a table or an error.
  \<^item> Repository: \<open>internal/repository\<close>, the event and admin repositories and the store of the
    worker pool. Idempotency: \<open>internal/service/idempotency.go\<close>. Validator:
    \<open>internal/service/task_validator.go\<close>.
  \<^item> Task_Request, Request_Depth, Task_Handler: \<open>internal/handler/task_handler.go\<close>; Request_Depth
    shows that a request that decodes can be encoded again, unless one of its times has an offset
    of 24 hours or more, which Go refuses to write. Admin_Handler:
    \<open>internal/handler/admin_handler.go\<close>. Sender: \<open>internal/sender/response.go\<close>.
  \<^item> World, Request_Log: the state, and \<open>internal/middleware\<close>. Server: the routes and the order of
    the middleware in \<open>cmd/server.go\<close>.
  \<^item> Chaining: \<open>internal/chaining/chaining.go\<close>. Worker_Services, Ssrf, Scrape, Report, Resize,
    Worker: \<open>internal/taskhandlers\<close> and the handlers registered in \<open>cmd/main.go\<close>.
  \<^item> Log_Attrs, Telemetry, Startup: \<open>internal/taskerr\<close>, \<open>internal/telemetry/tracer.go\<close>,
    \<open>internal/metrics\<close>, the logger, the connections and \<open>run\<close> of \<open>cmd/main.go\<close>.
  \<^item> System: the platform as the inductive relation \<open>step\<close> of requests, task runs and operations
    of the pool on its store, one whole handler after the other, with \<open>perform\<close> the same as a
    function, and \<open>reachable\<close>.
  \<^item> Threads, Interleaving: the platform with its handlers side by side, as Go runs them. A handler
    is a thread: a value of the datatype \<open>prog\<close>, the same code cut at every access to the tables, the queue and
    the object store. A pool is a state and a list of threads; in a move of \<open>moves\<close> an action arrives or
    one thread has a turn, that is, makes one access. The log context of a request belongs to its
    thread. \<open>..._thread\<close> is the definition without the suffix, cut; \<open>exec\<close> puts the parts together again, and
    for every handler the result is proved to be the definition it was cut from.
  \<^item> Concurrency: the interference of threads on the platform, and which programs are harmless.
    Promises: what each handler has brought about by the time it ends.
  \<^item> Lifecycle: the abstract specification, a machine of tasks and their statuses whose moves
    belong to a party (a client, a worker, the pool); each step of the platform is a run of it.
    Stored_Tasks: the type of a stored row. Submissions: a key over time. Results: the result of a
    task names an uploaded file, and what a client gets of it. Pool_Runs, Pipeline: a page and its
    report from the request to the object store. Later_Steps: the steps nobody checks. Views: what
    requests leave alone. Reply_Forms, Replies: what every reply looks like.

  \<^bold>\<open>The interfaces.\<close> Each is a locale with its laws, interpreted on the code's model.
  \<^item> \<open>json_codec\<close> (Go_Decode): a type encoded and decoded member by member; instances for
    task requests, scraped pages and file references. It gives the round trips.
  \<^item> \<open>row_update\<close>, \<open>one_shot\<close> (Database): a guarded UPDATE by key; instances for cancelling,
    resetting, and setting status and result. It gives who wins when two run.
  \<^item> \<open>event_repository\<close> (Repository): the EventRepository interface the handlers are written
    against; instance on the SQLC repository.
  \<^item> \<open>dedup_store\<close> (Idempotency): what a key promises; instance on the service.
  \<^item> \<open>request_view\<close> (Views): a part of the state no request writes; instances for the object store
    and the results of tasks.
  \<^item> \<open>every_reply\<close> (Reply_Forms): a predicate on the ways to answer; instances for the statuses
    there are (Reply_Forms) and for the texts of failures (Replies).
  \<^item> \<open>interference\<close> (Threads): an invariant and a change that threads allow each other; it gives
    that a pool of threads, each safe by itself on what it knows and nobody can take away, keeps
    both, and that what a thread promises at its end holds from then on. Instances: the consistency
    of the platform under changes that only add (\<open>shared\<close>), and the types of the rows (\<open>typed\<close>).
  \<^item> \<open>worker_handler\<close> (Worker): a task handler writes at most the result of its own task and
    queues nothing; instances for the three handlers. The laws of chaining rest on it.

  \<^bold>\<open>What is shown.\<close>
  \<^item> With handlers that overlap in any way (Interleaved_Properties, Interleaved_Life,
    Interleaved_Types): the platform is consistent at every moment, also in the middle of handlers; an
    answer 200 to a submission or a retry can be relied on, and so can the next step of a run that
    ended well; a key that is recorded keeps every later submission out; every turn is a
    move in the life of a task; every row is one the pool can read; and a thread that nobody disturbs
    does exactly what \<open>step\<close> says, so the properties of single handlers below hold of it. What
    overlapping breaks (Overlaps): two submissions with one key that overlap are both accepted, and
    a cancel can be overwritten by the submission it overlaps with. Interleaved_Runs has concrete runs.
  \<^item> The platform (System_Properties, Lifecycle, Stored_Tasks, Submissions, Results, Pipeline): unique identifiers and
    keys, no key and no queued task without a row, in every reachable state; rows are never lost and
    what was submitted never changes; the platform refines the life of a task; every stored row is
    well-typed, so the pool understands what it reads; every result names an uploaded file, so
    asking for it never fails on the text of the result; no reply shows an internal error; a task is accepted once while its key lasts;
    on a healthy system a submitted page and its report are delivered (Pipeline), whatever the pool
    writes between the runs; what the log says of a request.
  \<^item> Submission (Task_Handler): an accepted request is stored and queued as it was validated, a
    healthy system accepts it, a duplicate is refused, a refused request changes no table.
  \<^item> The stores (Store_Properties): cancelling and resetting refine a guarded transition; a stored
    request decodes to what was submitted and the worker reads it; what expired keys do.
  \<^item> The admin side (Admin_Properties): retries and requeues, the dead letter queue, the pages of
    the listing at 32 bits and with times that two tasks share, the dashboard.
  \<^item> The workers (Worker_Properties, Web_Properties, Later_Steps): one next step for each success, chains end,
    what is stored by each handler, the report as CSV that can be read back, the addresses that
    are dialed, the steps that run unchecked.
  \<^item> Start-up, shutdown and logging (Startup_Properties): how \<open>run\<close> ends and which parts it closes
    in which order, what the log shows of any tree of errors, which output a record reaches.
  \<^item> Scenario and the theorems named \<open>..._witness\<close> apply the properties to concrete states.

  \<^bold>\<open>Bounds.\<close> The JSON reader takes fuel \<open>2 * length s + 2\<close>; whatever fuel finds a value, this one
  finds the same (Go_Json). Nesting is limited to 10000 as in Go. The reader for CSV takes the
  length of the text as fuel, one for each character. A page is read to 5 MB and an image to 10 MB,
  the limits of the code. The other loops recurse on data or have a termination proof. Page
  offsets, connection limits and attempt numbers are cut to 32 bits where the code converts them;
  other integers of Go are unbounded here, the values staying far below 64 bits.

  \<^bold>\<open>Not modelled.\<close>
  \<^item> The spans of OpenTelemetry: they change no state of the program. A trace identifier is an
    argument; the set-up of tracing is modelled.
  \<^item> Which texts Postgres refuses (a NUL byte, bytes that are not UTF-8): a refusal is a failure of
    the environment, so \<open>db_up\<close> also says that the texts at hand can be stored.
  \<^item> \<open>internal/database/db.go\<close>, generated: the handle that statements run on.
  \<^item> \<open>internal/testutils\<close>, \<open>internal/repository/mocks\<close>, the tests.
  \<^item> The line \<open>RespondWithError\<close> writes to the process log, colours of the terminal, rotation of
    the log file, timeouts of the server.
  \<^item> The worker pool itself: when it retries, and what it moves to the dead letter queue. It is
    seen through its calls to the store, in any order and number.
  \<^item> Chi, CORS and the page of Prometheus. The routing table is the code's; matching a path is
    splitting it at slashes.
  \<^item> Threads below the level of accesses: a statement, a call to the queue and an upload each take
    effect at one moment, and what a handler computes between them is its own. The code opens no
    transaction, so there is nothing larger that is atomic; a few steps of a handler of which at most one
    is an access (a reading of the clock and a call) are one turn.
\<close>

end
